(* ===== verification/Nimble_Prelude.thy ===== *)
theory Nimble_Prelude
  imports Main "HOL-Library.Word" "HOL-Library.Monad_Syntax"
begin

unbundle bit_operations_syntax

text \<open>
  Shared vocabulary of the development: the machine types of the Rust sources, raw
  pointers, the result of code that may panic or loop, intrusive singly linked lists
  and little-endian byte encodings.

  \<^item> Integers keep their width: \<open>u8\<close> \dots \<open>u64\<close> are words. A \<open>c_int\<close> or an \<open>i32\<close> is an \<open>int\<close>,
    and every cast that can change the value is written out.
  \<^item> A raw pointer is a \<open>nat\<close> address and \<open>NULL\<close> is 0. Memory is a total function from
    addresses to objects, one function for each type of object, so that aliasing is
    visible: two pointers to one object are equal addresses.
  \<^item> A call that may panic or not return has an \<open>option\<close> result: \<open>None\<close> is "does not
    return normally". Theorems about such calls prove the \<open>Some\<close>.
\<close>

section \<open>Types\<close>

type_synonym u8 = "8 word"
type_synonym u16 = "16 word"
type_synonym u32 = "32 word"
type_synonym u64 = "64 word"
type_synonym byte = u8
type_synonym bytes = "u8 list"
type_synonym c_int = int

type_synonym ptr = nat

abbreviation NULL :: ptr where "NULL \<equiv> 0"

text \<open>A \<open>core::task::Waker\<close> is known by its identity only; waking it is recorded in a log.\<close>

type_synonym waker = nat

text \<open>An \<open>embassy_time::Instant\<close>, in the ticks of the time driver.\<close>

type_synonym instant = nat

named_theorems heap_simps \<open>reading and updating the objects in memory\<close>
named_theorems wire_simps \<open>unfolding byte encodings\<close>

section \<open>Checked and wrapping increments\<close>

text \<open>
  Rust's \<open>x += 1\<close>: with overflow checks (debug profile) it panics at the largest value,
  without them (release profile) it wraps to 0.
\<close>

definition rust_inc :: "bool \<Rightarrow> 'a::len word \<Rightarrow> 'a word option" where
  "rust_inc checks x = (if x = - 1 \<and> checks then None else Some (x + 1))"

definition rust_dec :: "bool \<Rightarrow> 'a::len word \<Rightarrow> 'a word option" where
  "rust_dec checks x = (if x = 0 \<and> checks then None else Some (x - 1))"

text \<open>Rust's \<open>saturating_sub\<close>.\<close>

definition saturating_sub :: "'a::len word \<Rightarrow> 'a word \<Rightarrow> 'a word" where
  "saturating_sub x y = (if x < y then 0 else x - y)"

section \<open>Little-endian bytes\<close>

definition u16_to_le_bytes :: "u16 \<Rightarrow> bytes" where
  "u16_to_le_bytes w = [ucast w, ucast (drop_bit 8 w)]"

definition u16_from_le_bytes :: "u8 \<Rightarrow> u8 \<Rightarrow> u16" where
  "u16_from_le_bytes b0 b1 = ucast b0 OR push_bit 8 (ucast b1)"

section \<open>Intrusive lists\<close>

text \<open>
  \<open>chain nx p xs q\<close>: following \<open>nx\<close> from \<open>p\<close> visits the objects \<open>xs\<close>, none of them null,
  and arrives at \<open>q\<close>.
\<close>

primrec chain :: "(ptr \<Rightarrow> ptr) \<Rightarrow> ptr \<Rightarrow> ptr list \<Rightarrow> ptr \<Rightarrow> bool" where
  "chain nx p [] q = (p = q)"
| "chain nx p (x # xs) q = (x = p \<and> p \<noteq> NULL \<and> chain nx (nx p) xs q)"

text \<open>
  The search of the two unlink loops: walk from \<open>cur\<close>, remembering the predecessor, until
  \<open>target\<close> or the end. \<open>Some (Some prev)\<close> is "found behind \<open>prev\<close>", \<open>Some None\<close> is "not on
  the list"; on a cyclic list the loop need not return.
\<close>

partial_function (option) seek :: "(ptr \<Rightarrow> ptr) \<Rightarrow> ptr \<Rightarrow> ptr \<Rightarrow> ptr \<Rightarrow> ptr option option" where
  "seek nx target prev cur =
     (if cur = NULL then Some None
      else if cur = target then Some (Some prev)
      else seek nx target cur (nx cur))"

text \<open>
  The search of the sorted insertion: walk while \<open>P\<close> holds, and return the predecessor and
  the first object for which it does not.
\<close>

partial_function (option) seek_while :: "(ptr \<Rightarrow> bool) \<Rightarrow> (ptr \<Rightarrow> ptr) \<Rightarrow> ptr \<Rightarrow> ptr \<Rightarrow> (ptr \<times> ptr) option" where
  "seek_while P nx prev cur =
     (if cur \<noteq> NULL \<and> P cur then seek_while P nx cur (nx cur) else Some (prev, cur))"

lemma rust_inc_Some [simp]: "x \<noteq> - 1 \<Longrightarrow> rust_inc checks x = Some (x + 1)"
  by (simp add: rust_inc_def)

lemma rust_dec_Some [simp]: "x \<noteq> 0 \<Longrightarrow> rust_dec checks x = Some (x - 1)"
  by (simp add: rust_dec_def)

lemma unat_succ: "x \<noteq> - 1 \<Longrightarrow> unat (x + 1) = Suc (unat x)" for x :: "'a::len word"
  using unatSuc [of x] by (metis add.commute add_eq_0_iff2)

lemma unat_pred: "x \<noteq> 0 \<Longrightarrow> unat (x - 1) = unat x - 1" for x :: "'a::len word"
  by (simp add: unat_minus_one)

lemma unat_saturating_sub: "unat (saturating_sub x y) = unat x - unat y"
  by (auto simp: saturating_sub_def unat_sub_if' word_less_nat_alt word_le_nat_alt)

lemma u16_le_bytes_roundtrip [simp]:
  "u16_to_le_bytes w = [b0, b1] \<Longrightarrow> u16_from_le_bytes b0 b1 = w"
  by (auto simp: u16_to_le_bytes_def u16_from_le_bytes_def bit_simps intro!: bit_word_eqI)

lemma length_u16_to_le_bytes [simp]: "length (u16_to_le_bytes w) = 2"
  by (simp add: u16_to_le_bytes_def)

section \<open>Lemmas on intrusive lists\<close>

lemma chain_NULL [simp]: "chain nx NULL xs q \<longleftrightarrow> xs = [] \<and> q = NULL"
  by (cases xs) auto

lemma chain_append [simp]:
  "chain nx p (xs @ ys) q \<longleftrightarrow> (\<exists>r. chain nx p xs r \<and> chain nx r ys q)"
  by (induction xs arbitrary: p) auto

lemma chain_cong:
  "(\<And>x. x \<in> set xs \<Longrightarrow> nx x = nx' x) \<Longrightarrow> chain nx p xs q = chain nx' p xs q"
  by (induction xs arbitrary: p) auto

lemma chain_upd [simp]: "u \<notin> set xs \<Longrightarrow> chain (nx(u := v)) p xs q = chain nx p xs q"
  by (rule chain_cong) auto

lemma chain_nonnull: "chain nx p xs q \<Longrightarrow> NULL \<notin> set xs"
  by (induction xs arbitrary: p) auto

lemma chain_determ: "chain nx p xs NULL \<Longrightarrow> chain nx p ys NULL \<Longrightarrow> xs = ys"
proof (induction xs arbitrary: p ys)
  case Nil
  then show ?case by simp
next
  case (Cons x xs)
  then show ?case by (cases ys) auto
qed

lemma chain_distinct: "chain nx p xs NULL \<Longrightarrow> distinct xs"
proof (induction xs arbitrary: p)
  case Nil
  show ?case by simp
next
  case (Cons x xs)
  then have tl: "chain nx (nx x) xs NULL" by simp
  have "x \<notin> set xs"
  proof
    assume "x \<in> set xs"
    then obtain us vs where xs: "xs = us @ x # vs" by (auto simp: in_set_conv_decomp)
    with tl have "chain nx (nx x) vs NULL" by auto
    from chain_determ [OF tl this] xs show False by simp
  qed
  with Cons.IH [OF tl] show ?case by simp
qed

lemma chain_last: "chain nx p xs NULL \<Longrightarrow> xs \<noteq> [] \<Longrightarrow> nx (last xs) = NULL"
  by (induction xs arbitrary: p) auto

lemma chain_empty_iff: "chain nx p xs NULL \<Longrightarrow> p = NULL \<longleftrightarrow> xs = []"
  by (cases xs) auto

text \<open>Appending behind the last element.\<close>

lemma chain_snoc:
  assumes "chain nx p xs NULL" and "y \<notin> set xs" and "y \<noteq> NULL"
  shows "if xs = [] then chain (nx(y := NULL)) y [y] NULL
         else chain (nx(y := NULL, last xs := y)) p (xs @ [y]) NULL"
proof (cases xs rule: rev_cases)
  case Nil
  with assms show ?thesis by simp
next
  case (snoc us x)
  with assms chain_distinct [OF assms(1)] show ?thesis by auto
qed

text \<open>Unlinking an element, at the head or behind its predecessor.\<close>

lemma chain_unlink:
  assumes "chain nx p (xs @ y # zs) NULL"
  shows "if xs = [] then chain (nx(y := NULL)) (nx y) zs NULL
         else chain (nx(last xs := nx y, y := NULL)) p (xs @ zs) NULL"
proof (cases xs rule: rev_cases)
  case Nil
  with assms chain_distinct [OF assms] show ?thesis by simp
next
  case (snoc us x)
  with assms chain_distinct [OF assms] show ?thesis by auto
qed

text \<open>Linking a new element in front of the rest of a list.\<close>

lemma chain_link:
  assumes "chain nx p xs r" and "chain nx r zs NULL" and "y \<notin> set xs \<union> set zs" and "y \<noteq> NULL"
    and "distinct xs" and "set xs \<inter> set zs = {}"
  shows "if xs = [] then chain (nx(y := r)) y (y # zs) NULL
         else chain (nx(y := r, last xs := y)) p (xs @ y # zs) NULL"
proof (cases xs rule: rev_cases)
  case Nil
  with assms show ?thesis by auto
next
  case (snoc us x)
  with assms show ?thesis by auto
qed

lemma seek_found:
  "chain nx p xs target \<Longrightarrow> target \<notin> set xs \<Longrightarrow> target \<noteq> NULL \<Longrightarrow>
   seek nx target prev p = Some (Some (if xs = [] then prev else last xs))"
  by (induction xs arbitrary: p prev) (simp_all add: seek.simps)

lemma seek_absent:
  "chain nx p xs NULL \<Longrightarrow> target \<notin> set xs \<Longrightarrow> seek nx target prev p = Some None"
  by (induction xs arbitrary: p prev) (simp_all add: seek.simps)

lemma seek_while_chain:
  assumes "chain nx p xs NULL"
  shows "\<exists>r. seek_while P nx prev p = Some (if takeWhile P xs = [] then prev else last (takeWhile P xs), r) \<and>
     chain nx p (takeWhile P xs) r \<and> chain nx r (dropWhile P xs) NULL"
  using assms
proof (induction xs arbitrary: p prev)
  case Nil
  then show ?case by (simp add: seek_while.simps)
next
  case (Cons x xs)
  then have p: "p = x" "x \<noteq> NULL" and tl: "chain nx (nx x) xs NULL" by auto
  show ?case
  proof (cases "P x")
    case True
    with Cons.IH [OF tl, of x] p show ?thesis by (auto simp: seek_while.simps [of P nx prev x])
  next
    case False
    with p tl show ?thesis by (simp add: seek_while.simps)
  qed
qed

section \<open>Decimal numbers\<close>

definition digit_val :: "char \<Rightarrow> nat" where
  "digit_val c = of_char c - 48"

definition is_digit :: "char \<Rightarrow> bool" where
  "is_digit c \<longleftrightarrow> 48 \<le> (of_char c :: nat) \<and> (of_char c :: nat) \<le> 57"

definition decimal :: "string \<Rightarrow> nat" where
  "decimal s = foldl (\<lambda>n c. 10 * n + digit_val c) 0 s"

text \<open>Unsigned integers as \<open>Display\<close> prints them.\<close>

fun to_dec :: "nat \<Rightarrow> string" where
  "to_dec n = (if n < 10 then [char_of (48 + n)] else to_dec (n div 10) @ [char_of (48 + n mod 10)])"

declare to_dec.simps [simp del]

lemma to_dec_digits: "list_all is_digit (to_dec n) \<and> to_dec n \<noteq> []"
proof (induction n rule: to_dec.induct)
  case (1 n)
  show ?case
  proof (cases "n < 10")
    case True
    then have "to_dec n = [char_of (48 + n)]" by (simp add: to_dec.simps)
    with True show ?thesis by (simp add: is_digit_def)
  next
    case False
    then have "to_dec n = to_dec (n div 10) @ [char_of (48 + n mod 10)]" by (subst to_dec.simps) simp
    with 1 [OF False] show ?thesis by (simp add: is_digit_def)
  qed
qed

lemma map_of_rev_distinct: "distinct (map fst xs) \<Longrightarrow> map_of (rev xs) = map_of xs"
  by (simp add: map_of_inject_set rev_map [symmetric])

lemma decimal_snoc: "decimal (s @ [c]) = 10 * decimal s + digit_val c"
  by (simp add: decimal_def)

lemma decimal_to_dec: "decimal (to_dec n) = n"
proof (induction n rule: to_dec.induct)
  case (1 n)
  show ?case
  proof (cases "n < 10")
    case True
    then have "to_dec n = [char_of (48 + n)]" by (simp add: to_dec.simps)
    with True show ?thesis by (simp add: decimal_def digit_val_def)
  next
    case False
    then have "to_dec n = to_dec (n div 10) @ [char_of (48 + n mod 10)]" by (subst to_dec.simps) simp
    with 1 [OF False] show ?thesis by (simp add: decimal_snoc digit_val_def)
  qed
qed

end
