(* ===== verification/Npl_Event.thy ===== *)
theory Npl_Event
  imports Nimble_Prelude
begin

text \<open>
  Events and event queues of the NimBLE porting layer (\<open>nimble-rs/src/npl.rs\<close>, sections
  "Events" and "Event queues"). An event is its own list node; a queue holds the head and
  the tail of an intrusive list and the waker of whoever services it.

  The state is the memory of the two kinds of objects and the log of the wakers woken so
  far. Every operation that the source runs inside \<open>with_cs\<close> is one function here: the
  critical section makes it atomic. \<open>run\<close> stands for the C function an event points to,
  which is code outside this repository.

  The refinement: \<open>evqs_inv st A\<close> says that the pointers of \<open>st\<close> represent the queue
  contents \<open>A\<close>, a list of events for each queue. Putting, popping and removing are then
  appending, taking the head and deleting. The locale \<open>event_queues\<close> is the contract the
  event loop in \<open>Port\<close> and the callouts rely on.
\<close>

section \<open>Objects and state\<close>

record event =
  ev_next :: ptr
  ev_func :: "ptr option"
  ev_arg :: ptr
  ev_queued :: bool

record eventq =
  eq_init_tag :: ptr
  eq_head :: ptr
  eq_tail :: ptr
  eq_waker :: "waker option"

record ev_state =
  events :: "ptr \<Rightarrow> event"
  eventqs :: "ptr \<Rightarrow> eventq"
  woken :: "waker list"

definition upd_event :: "ptr \<Rightarrow> (event \<Rightarrow> event) \<Rightarrow> 'a ev_state_scheme \<Rightarrow> 'a ev_state_scheme" where
  "upd_event ev f st = st\<lparr>events := (events st)(ev := f (events st ev))\<rparr>"

definition upd_eventq :: "ptr \<Rightarrow> (eventq \<Rightarrow> eventq) \<Rightarrow> 'a ev_state_scheme \<Rightarrow> 'a ev_state_scheme" where
  "upd_eventq q f st = st\<lparr>eventqs := (eventqs st)(q := f (eventqs st q))\<rparr>"

text \<open>\<open>if let Some(waker) = waker { waker.wake() }\<close>\<close>

definition wake :: "waker option \<Rightarrow> 'a ev_state_scheme \<Rightarrow> 'a ev_state_scheme" where
  "wake w st = (case w of None \<Rightarrow> st | Some x \<Rightarrow> st\<lparr>woken := woken st @ [x]\<rparr>)"

section \<open>Event operations\<close>

definition ble_npl_event_init :: "ptr \<Rightarrow> ptr option \<Rightarrow> ptr \<Rightarrow> 'a ev_state_scheme \<Rightarrow> 'a ev_state_scheme" where
  "ble_npl_event_init ev func arg =
     upd_event ev (\<lambda>_. \<lparr>ev_next = NULL, ev_func = func, ev_arg = arg, ev_queued = False\<rparr>)"

definition ble_npl_event_deinit :: "ptr \<Rightarrow> 'a ev_state_scheme \<Rightarrow> 'a ev_state_scheme" where
  "ble_npl_event_deinit ev = upd_event ev (\<lambda>e. e\<lparr>ev_func := None, ev_queued := False\<rparr>)"

definition ble_npl_event_is_queued :: "ptr \<Rightarrow> 'a ev_state_scheme \<Rightarrow> bool" where
  "ble_npl_event_is_queued ev st = ev_queued (events st ev)"

definition ble_npl_event_get_arg :: "ptr \<Rightarrow> 'a ev_state_scheme \<Rightarrow> ptr" where
  "ble_npl_event_get_arg ev st = ev_arg (events st ev)"

definition ble_npl_event_set_arg :: "ptr \<Rightarrow> ptr \<Rightarrow> 'a ev_state_scheme \<Rightarrow> 'a ev_state_scheme" where
  "ble_npl_event_set_arg ev arg = upd_event ev (\<lambda>e. e\<lparr>ev_arg := arg\<rparr>)"

definition ble_npl_event_run ::
  "(ptr \<Rightarrow> ptr \<Rightarrow> 'a ev_state_scheme \<Rightarrow> 'a ev_state_scheme) \<Rightarrow> ptr \<Rightarrow> 'a ev_state_scheme \<Rightarrow> 'a ev_state_scheme" where
  "ble_npl_event_run run ev st =
     (case ev_func (events st ev) of None \<Rightarrow> st | Some func \<Rightarrow> run func ev st)"

section \<open>Queue operations\<close>

definition ble_npl_eventq_init :: "ptr \<Rightarrow> 'a ev_state_scheme \<Rightarrow> 'a ev_state_scheme" where
  "ble_npl_eventq_init evq =
     upd_eventq evq (\<lambda>_. \<lparr>eq_init_tag = evq, eq_head = NULL, eq_tail = NULL, eq_waker = None\<rparr>)"

definition ble_npl_eventq_deinit :: "ptr \<Rightarrow> 'a ev_state_scheme \<Rightarrow> 'a ev_state_scheme" where
  "ble_npl_eventq_deinit evq st =
     wake (eq_waker (eventqs st evq))
       (upd_eventq evq (\<lambda>_. \<lparr>eq_init_tag = NULL, eq_head = NULL, eq_tail = NULL, eq_waker = None\<rparr>) st)"

definition ble_npl_eventq_put :: "ptr \<Rightarrow> ptr \<Rightarrow> 'a ev_state_scheme \<Rightarrow> 'a ev_state_scheme" where
  "ble_npl_eventq_put evq ev st =
     (if ev_queued (events st ev) \<or> eq_init_tag (eventqs st evq) = NULL then st
      else
        let st1 = upd_event ev (\<lambda>e. e\<lparr>ev_queued := True, ev_next := NULL\<rparr>) st;
            tail = eq_tail (eventqs st1 evq);
            st2 = (if tail = NULL then upd_eventq evq (\<lambda>q. q\<lparr>eq_head := ev\<rparr>) st1
                   else upd_event tail (\<lambda>e. e\<lparr>ev_next := ev\<rparr>) st1);
            st3 = upd_eventq evq (\<lambda>q. q\<lparr>eq_tail := ev\<rparr>) st2
        in wake (eq_waker (eventqs st3 evq)) (upd_eventq evq (\<lambda>q. q\<lparr>eq_waker := None\<rparr>) st3))"

definition eventq_try_pop :: "ptr \<Rightarrow> 'a ev_state_scheme \<Rightarrow> ptr \<times> 'a ev_state_scheme" where
  "eventq_try_pop q st =
     (let ev = eq_head (eventqs st q)
      in if ev \<noteq> NULL then
           let st1 = upd_eventq q (\<lambda>e. e\<lparr>eq_head := ev_next (events st ev)\<rparr>) st;
               st2 = (if eq_head (eventqs st1 q) = NULL
                      then upd_eventq q (\<lambda>e. e\<lparr>eq_tail := NULL\<rparr>) st1 else st1)
           in (ev, upd_event ev (\<lambda>e. e\<lparr>ev_next := NULL, ev_queued := False\<rparr>) st2)
         else (ev, st))"

definition eventq_try_pop_raw :: "ptr \<Rightarrow> 'a ev_state_scheme \<Rightarrow> ptr \<times> 'a ev_state_scheme" where
  "eventq_try_pop_raw evq = eventq_try_pop evq"

text \<open>\<open>Poll::Pending\<close> is \<open>None\<close>, \<open>Poll::Ready(ev)\<close> is \<open>Some ev\<close>.\<close>

definition eventq_poll :: "ptr \<Rightarrow> waker \<Rightarrow> 'a ev_state_scheme \<Rightarrow> ptr option \<times> 'a ev_state_scheme" where
  "eventq_poll evq w st =
     (let ev = eq_head (eventqs st evq);
          st1 = (if ev = NULL then upd_eventq evq (\<lambda>q. q\<lparr>eq_waker := Some w\<rparr>) st else st)
      in if ev = NULL then (None, st1)
         else (let (popped, st2) = eventq_try_pop evq st1 in (Some popped, st2)))"

definition ble_npl_eventq_remove :: "ptr \<Rightarrow> ptr \<Rightarrow> 'a ev_state_scheme \<Rightarrow> 'a ev_state_scheme option" where
  "ble_npl_eventq_remove evq ev st =
     (if \<not> ev_queued (events st ev) then Some st
      else do {
        found \<leftarrow> seek (\<lambda>p. ev_next (events st p)) ev NULL (eq_head (eventqs st evq));
        Some (case found of
            None \<Rightarrow> st
          | Some prev \<Rightarrow>
              let next = ev_next (events st ev);
                  st1 = (if prev = NULL then upd_eventq evq (\<lambda>q. q\<lparr>eq_head := next\<rparr>) st
                         else upd_event prev (\<lambda>e. e\<lparr>ev_next := next\<rparr>) st);
                  st2 = (if eq_tail (eventqs st1 evq) = ev
                         then upd_eventq evq (\<lambda>q. q\<lparr>eq_tail := prev\<rparr>) st1 else st1)
              in upd_event ev (\<lambda>e. e\<lparr>ev_next := NULL, ev_queued := False\<rparr>) st2)
      })"

definition ble_npl_eventq_is_empty :: "ptr \<Rightarrow> 'a ev_state_scheme \<Rightarrow> bool" where
  "ble_npl_eventq_is_empty evq st \<longleftrightarrow> eq_head (eventqs st evq) = NULL"

section \<open>What the pointers represent\<close>

definition evq_rep :: "'a ev_state_scheme \<Rightarrow> ptr \<Rightarrow> ptr list \<Rightarrow> bool" where
  "evq_rep st q xs \<longleftrightarrow>
     chain (\<lambda>p. ev_next (events st p)) (eq_head (eventqs st q)) xs NULL \<and>
     eq_tail (eventqs st q) = (if xs = [] then NULL else last xs) \<and>
     (eq_init_tag (eventqs st q) = NULL \<longrightarrow> xs = []) \<and>
     (\<forall>x \<in> set xs. ev_queued (events st x))"

definition evqs_inv :: "'a ev_state_scheme \<Rightarrow> (ptr \<Rightarrow> ptr list) \<Rightarrow> bool" where
  "evqs_inv st A \<longleftrightarrow>
     (\<forall>q. evq_rep st q (A q)) \<and> (\<forall>q r. q \<noteq> r \<longrightarrow> set (A q) \<inter> set (A r) = {})"

text \<open>The abstract operations.\<close>

definition put_spec :: "bool \<Rightarrow> ptr \<Rightarrow> ptr \<Rightarrow> (ptr \<Rightarrow> ptr list) \<Rightarrow> ptr \<Rightarrow> ptr list" where
  "put_spec accepted q ev A = (if accepted then A(q := A q @ [ev]) else A)"

definition accepts :: "'a ev_state_scheme \<Rightarrow> ptr \<Rightarrow> ptr \<Rightarrow> bool" where
  "accepts st q ev \<longleftrightarrow> \<not> ev_queued (events st ev) \<and> eq_init_tag (eventqs st q) \<noteq> NULL"

section \<open>Reading the memory after an operation\<close>

lemma upd_event_simps [heap_simps]:
  "events (upd_event ev f st) = (events st)(ev := f (events st ev))"
  "eventqs (upd_event ev f st) = eventqs st"
  "woken (upd_event ev f st) = woken st"
  by (simp_all add: upd_event_def)

lemma upd_eventq_simps [heap_simps]:
  "events (upd_eventq q g st) = events st"
  "eventqs (upd_eventq q g st) = (eventqs st)(q := g (eventqs st q))"
  "woken (upd_eventq q g st) = woken st"
  by (simp_all add: upd_eventq_def)

lemma wake_simps [heap_simps]:
  "events (wake w st) = events st"
  "eventqs (wake w st) = eventqs st"
  "woken (wake w st) = woken st @ (case w of None \<Rightarrow> [] | Some x \<Rightarrow> [x])"
  by (simp_all add: wake_def split: option.splits)

lemma put_next:
  assumes "accepts st q ev"
  shows "(\<lambda>p. ev_next (events (ble_npl_eventq_put q ev st) p)) =
     (if eq_tail (eventqs st q) = NULL then (\<lambda>p. ev_next (events st p))(ev := NULL)
      else (\<lambda>p. ev_next (events st p))(ev := NULL, eq_tail (eventqs st q) := ev))"
  using assms by (auto simp: ble_npl_eventq_put_def accepts_def Let_def heap_simps fun_eq_iff)

lemma put_queued:
  assumes "accepts st q ev"
  shows "ev_queued (events (ble_npl_eventq_put q ev st) p) \<longleftrightarrow> p = ev \<or> ev_queued (events st p)"
  using assms by (auto simp: ble_npl_eventq_put_def accepts_def Let_def heap_simps)

lemma put_eventqs:
  assumes "accepts st q ev"
  shows "eventqs (ble_npl_eventq_put q ev st) r =
     (if r = q then (eventqs st q)\<lparr>eq_head := if eq_tail (eventqs st q) = NULL then ev
                                             else eq_head (eventqs st q),
                                  eq_tail := ev, eq_waker := None\<rparr>
      else eventqs st r)"
  using assms by (simp add: ble_npl_eventq_put_def accepts_def Let_def heap_simps)

lemma put_woken:
  "woken (ble_npl_eventq_put q ev st) =
     woken st @ (if accepts st q ev then (case eq_waker (eventqs st q) of None \<Rightarrow> [] | Some w \<Rightarrow> [w]) else [])"
  by (auto simp: ble_npl_eventq_put_def accepts_def Let_def heap_simps split: option.splits)

lemma put_rejected: "\<not> accepts st q ev \<Longrightarrow> ble_npl_eventq_put q ev st = st"
  by (auto simp: ble_npl_eventq_put_def accepts_def)

lemma try_pop_next:
  "eq_head (eventqs st q) = ev \<Longrightarrow> ev \<noteq> NULL \<Longrightarrow>
   (\<lambda>p. ev_next (events (snd (eventq_try_pop q st)) p)) = (\<lambda>p. ev_next (events st p))(ev := NULL)"
  by (auto simp: eventq_try_pop_def Let_def heap_simps fun_eq_iff)

lemma try_pop_queued:
  "eq_head (eventqs st q) = ev \<Longrightarrow> ev \<noteq> NULL \<Longrightarrow>
   ev_queued (events (snd (eventq_try_pop q st)) p) \<longleftrightarrow> p \<noteq> ev \<and> ev_queued (events st p)"
  by (auto simp: eventq_try_pop_def Let_def heap_simps)

lemma try_pop_eventqs:
  "eq_head (eventqs st q) = ev \<Longrightarrow> ev \<noteq> NULL \<Longrightarrow>
   eventqs (snd (eventq_try_pop q st)) r =
     (if r = q then (eventqs st q)\<lparr>eq_head := ev_next (events st ev),
                                  eq_tail := if ev_next (events st ev) = NULL then NULL
                                             else eq_tail (eventqs st q)\<rparr>
      else eventqs st r)"
  by (simp add: eventq_try_pop_def Let_def heap_simps)

section \<open>Every queue operation refines its abstract counterpart\<close>

lemma evqs_invD:
  assumes "evqs_inv st A"
  shows "chain (\<lambda>p. ev_next (events st p)) (eq_head (eventqs st q)) (A q) NULL"
    and "eq_tail (eventqs st q) = (if A q = [] then NULL else last (A q))"
    and "eq_init_tag (eventqs st q) = NULL \<Longrightarrow> A q = []"
    and "x \<in> set (A q) \<Longrightarrow> ev_queued (events st x)"
    and "q \<noteq> r \<Longrightarrow> set (A q) \<inter> set (A r) = {}"
  using assms by (auto simp: evqs_inv_def evq_rep_def)

lemma evqs_inv_tail_NULL:
  assumes "evqs_inv st A"
  shows "eq_tail (eventqs st q) = NULL \<longleftrightarrow> A q = []"
proof (cases "A q = []")
  case True
  with evqs_invD(2) [OF assms] show ?thesis by simp
next
  case False
  with chain_nonnull [OF evqs_invD(1) [OF assms]] have "last (A q) \<noteq> NULL"
    by (metis last_in_set)
  with False evqs_invD(2) [OF assms] show ?thesis by simp
qed

lemma evqs_inv_fresh: "evqs_inv st A \<Longrightarrow> \<not> ev_queued (events st ev) \<Longrightarrow> ev \<notin> set (A q)"
  using evqs_invD(4) by blast

text \<open>
  A queue whose own list is not touched keeps it, when the operation only rewrites nodes
  that are not on that list.
\<close>

lemma evq_rep_frame:
  assumes "evq_rep st r xs" and "eventqs st' r = eventqs st r"
    and "\<And>x. x \<in> set xs \<Longrightarrow> ev_next (events st' x) = ev_next (events st x)"
    and "\<And>x. x \<in> set xs \<Longrightarrow> ev_queued (events st' x)"
  shows "evq_rep st' r xs"
proof -
  have "chain (\<lambda>p. ev_next (events st' p)) (eq_head (eventqs st r)) xs NULL"
    using assms(1) chain_cong [of xs "\<lambda>p. ev_next (events st' p)" "\<lambda>p. ev_next (events st p)"] assms(3)
    by (auto simp: evq_rep_def)
  with assms show ?thesis by (auto simp: evq_rep_def)
qed

lemma evqs_inv_upd:
  assumes "evqs_inv st A" and "evq_rep st' q ys" and "\<And>r. r \<noteq> q \<Longrightarrow> evq_rep st' r (A r)"
    and "\<And>r. r \<noteq> q \<Longrightarrow> set ys \<inter> set (A r) = {}"
  shows "evqs_inv st' (A(q := ys))"
  using assms by (simp add: evqs_inv_def) blast

lemma put_refines:
  assumes inv: "evqs_inv st A" and nn: "ev \<noteq> NULL"
  shows "evqs_inv (ble_npl_eventq_put q ev st) (put_spec (accepts st q ev) q ev A)"
proof (cases "accepts st q ev")
  case False
  with inv show ?thesis by (simp add: put_rejected put_spec_def)
next
  case acc: True
  let ?st' = "ble_npl_eventq_put q ev st"
  have fresh: "ev \<notin> set (A r)" for r
    using acc inv by (auto simp: accepts_def dest: evqs_inv_fresh)
  note tail = evqs_inv_tail_NULL [OF inv, of q] evqs_invD(2) [OF inv, of q]
  have "evq_rep ?st' q (A q @ [ev])"
    using chain_snoc [OF evqs_invD(1) [OF inv, of q] fresh nn] tail acc evqs_invD(4) [OF inv, of _ q]
    by (auto simp: evq_rep_def put_next [OF acc] put_queued [OF acc] put_eventqs [OF acc] accepts_def
        split: if_splits)
  moreover have "evq_rep ?st' r (A r)" if "r \<noteq> q" for r
  proof (rule evq_rep_frame [where st = st])
    show "evq_rep st r (A r)" using inv by (simp add: evqs_inv_def)
    show "eventqs ?st' r = eventqs st r" using that by (simp add: put_eventqs [OF acc])
    fix x assume x: "x \<in> set (A r)"
    have "x \<noteq> ev" using fresh x by blast
    moreover have "x \<noteq> eq_tail (eventqs st q) \<or> eq_tail (eventqs st q) = NULL"
      using tail evqs_invD(5) [OF inv that] x by (metis disjoint_iff last_in_set)
    ultimately show "ev_next (events ?st' x) = ev_next (events st x)"
      using fun_cong [OF put_next [OF acc], of x] by (auto split: if_splits)
    show "ev_queued (events ?st' x)"
      using evqs_invD(4) [OF inv x] by (simp add: put_queued [OF acc])
  qed
  ultimately show ?thesis
    using acc inv fresh by (auto simp: evqs_inv_def put_spec_def)
qed

lemma try_pop_refines:
  assumes inv: "evqs_inv st A"
  shows "fst (eventq_try_pop q st) = (case A q of [] \<Rightarrow> NULL | x # _ \<Rightarrow> x)"
    and "evqs_inv (snd (eventq_try_pop q st)) (A(q := tl (A q)))"
proof -
  note ch = evqs_invD(1) [OF inv, of q]
  show "fst (eventq_try_pop q st) = (case A q of [] \<Rightarrow> NULL | x # _ \<Rightarrow> x)"
    using ch by (cases "A q") (auto simp: eventq_try_pop_def Let_def)
  show "evqs_inv (snd (eventq_try_pop q st)) (A(q := tl (A q)))"
  proof (cases "A q")
    case Nil
    then have "A(q := tl (A q)) = A" by auto
    with ch inv Nil show ?thesis by (simp add: eventq_try_pop_def)
  next
    case (Cons x xs)
    let ?st' = "snd (eventq_try_pop q st)"
    have hd: "eq_head (eventqs st q) = x" "x \<noteq> NULL" and tl: "chain (\<lambda>p. ev_next (events st p)) (ev_next (events st x)) xs NULL"
      using ch Cons by auto
    have fresh: "x \<notin> set xs" using chain_distinct [OF ch] Cons by simp
    have other: "x \<notin> set (A r)" if "r \<noteq> q" for r
      using evqs_invD(5) [OF inv that] Cons by auto
    note pop = try_pop_next [OF hd] try_pop_queued [OF hd] try_pop_eventqs [OF hd]
    have "evq_rep ?st' q xs"
      using tl fresh Cons evqs_invD(2,3) [OF inv, of q] evqs_invD(4) [OF inv, of _ q] chain_empty_iff [OF tl]
      by (auto simp: evq_rep_def pop split: if_splits)
    moreover have "evq_rep ?st' r (A r)" if "r \<noteq> q" for r
    proof (rule evq_rep_frame [where st = st])
      show "evq_rep st r (A r)" using inv by (simp add: evqs_inv_def)
      show "eventqs ?st' r = eventqs st r" using that by (simp add: pop)
      fix y assume y: "y \<in> set (A r)"
      with other [OF that] have "y \<noteq> x" by auto
      then show "ev_next (events ?st' y) = ev_next (events st y)"
        using fun_cong [OF pop(1), of y] by simp
      from \<open>y \<noteq> x\<close> show "ev_queued (events ?st' y)"
        using evqs_invD(4) [OF inv y] by (simp add: pop)
    qed
    moreover have "set xs \<inter> set (A r) = {}" if "r \<noteq> q" for r
      using evqs_invD(5) [OF inv that] Cons by auto
    ultimately show ?thesis
      using evqs_inv_upd [OF inv, of ?st' q xs] Cons by simp
  qed
qed

lemma remove_absent:
  assumes "evqs_inv st A" and "ev \<notin> set (A q)"
  shows "ble_npl_eventq_remove q ev st = Some st"
  using seek_absent [OF evqs_invD(1) [OF assms(1), of q] assms(2)]
  by (simp add: ble_npl_eventq_remove_def)

lemma remove_present:
  assumes inv: "evqs_inv st A" and A: "A q = xs @ ev # zs"
  defines "nx \<equiv> \<lambda>p. ev_next (events st p)"
  shows "\<exists>st'. ble_npl_eventq_remove q ev st = Some st' \<and>
     (\<lambda>p. ev_next (events st' p)) =
        (if xs = [] then nx(ev := NULL) else nx(last xs := nx ev, ev := NULL)) \<and>
     (\<forall>p. ev_queued (events st' p) \<longleftrightarrow> p \<noteq> ev \<and> ev_queued (events st p)) \<and>
     eventqs st' = (eventqs st)(q := (eventqs st q)\<lparr>
        eq_head := if xs = [] then nx ev else eq_head (eventqs st q),
        eq_tail := if zs = [] then (if xs = [] then NULL else last xs) else eq_tail (eventqs st q)\<rparr>)"
proof -
  note ch = evqs_invD(1) [OF inv, of q, folded nx_def]
  have d: "distinct (xs @ ev # zs)" and nn: "NULL \<notin> set (xs @ ev # zs)"
    using chain_distinct [OF ch] chain_nonnull [OF ch] A by simp_all
  have front: "chain nx (eq_head (eventqs st q)) xs ev" using ch A by auto
  have queued: "ev_queued (events st ev)" using evqs_invD(4) [OF inv, of ev q] A by simp
  have tail: "eq_tail (eventqs st q) = (if zs = [] then ev else last zs)"
    using evqs_invD(2) [OF inv, of q] A by simp
  have last_ne: "xs \<noteq> [] \<Longrightarrow> last xs \<noteq> NULL \<and> last xs \<noteq> ev" "zs \<noteq> [] \<Longrightarrow> last zs \<noteq> ev"
    using d nn by (metis UnCI disjoint_iff distinct.simps(2) distinct_append last_in_set list.set_intros(1) set_append)
      (use d in auto)
  have "seek nx ev NULL (eq_head (eventqs st q)) = Some (Some (if xs = [] then NULL else last xs))"
    using seek_found [OF front] d nn by simp
  then show ?thesis
    using queued tail last_ne
    by (cases "xs = []"; cases "zs = []")
      (auto simp: ble_npl_eventq_remove_def Let_def heap_simps fun_eq_iff nx_def)
qed

lemma remove_refines:
  assumes inv: "evqs_inv st A"
  shows "\<exists>st'. ble_npl_eventq_remove q ev st = Some st' \<and>
     evqs_inv st' (A(q := removeAll ev (A q))) \<and>
     (\<forall>p. ev_queued (events st' p) \<longleftrightarrow> ev_queued (events st p) \<and> \<not> (p = ev \<and> ev \<in> set (A q)))"
proof (cases "ev \<in> set (A q)")
  case False
  then have "A(q := removeAll ev (A q)) = A" by (simp add: removeAll_id)
  with remove_absent [OF inv False] inv False show ?thesis by auto
next
  case True
  then obtain xs zs where A: "A q = xs @ ev # zs" by (auto simp: in_set_conv_decomp)
  let ?nx = "\<lambda>p. ev_next (events st p)"
  note ch = evqs_invD(1) [OF inv, of q]
  have d: "distinct (xs @ ev # zs)" using chain_distinct [OF ch] A by simp
  from remove_present [OF inv A] obtain st' where
    rm: "ble_npl_eventq_remove q ev st = Some st'" and
    nx: "(\<lambda>p. ev_next (events st' p)) = (if xs = [] then ?nx(ev := NULL) else ?nx(last xs := ?nx ev, ev := NULL))" and
    qd: "\<And>p. ev_queued (events st' p) \<longleftrightarrow> p \<noteq> ev \<and> ev_queued (events st p)" and
    qs: "eventqs st' = (eventqs st)(q := (eventqs st q)\<lparr>
        eq_head := if xs = [] then ?nx ev else eq_head (eventqs st q),
        eq_tail := if zs = [] then (if xs = [] then NULL else last xs) else eq_tail (eventqs st q)\<rparr>)"
    by auto
  have rest: "removeAll ev (A q) = xs @ zs" using d A by simp
  have "evq_rep st' q (xs @ zs)"
    using chain_unlink [of ?nx _ xs ev zs] ch A evqs_invD(2,3) [OF inv, of q] evqs_invD(4) [OF inv, of _ q] d
    by (auto simp: evq_rep_def nx qd qs)
  moreover have "evq_rep st' r (A r)" if "r \<noteq> q" for r
  proof (rule evq_rep_frame [where st = st])
    show "evq_rep st r (A r)" using inv by (simp add: evqs_inv_def)
    show "eventqs st' r = eventqs st r" using that by (simp add: qs)
    fix x assume x: "x \<in> set (A r)"
    with evqs_invD(5) [OF inv that] A have "x \<noteq> ev" "xs \<noteq> [] \<Longrightarrow> x \<noteq> last xs"
      by (auto simp: disjoint_iff)
    then show "ev_next (events st' x) = ev_next (events st x)" and "ev_queued (events st' x)"
      using fun_cong [OF nx, of x] evqs_invD(4) [OF inv x] by (auto simp: qd split: if_splits)
  qed
  moreover have "set (xs @ zs) \<inter> set (A r) = {}" if "r \<noteq> q" for r
    using evqs_invD(5) [OF inv that] A by auto
  ultimately have "evqs_inv st' (A(q := removeAll ev (A q)))"
    unfolding rest by (intro evqs_inv_upd [OF inv])
  with rm qd True show ?thesis by auto
qed

lemma poll_refines:
  assumes inv: "evqs_inv st A"
  shows "A q \<noteq> [] \<Longrightarrow> eventq_poll q w st = (Some (hd (A q)), snd (eventq_try_pop q st))"
    and "A q = [] \<Longrightarrow> eventq_poll q w st = (None, upd_eventq q (\<lambda>e. e\<lparr>eq_waker := Some w\<rparr>) st)"
  using chain_empty_iff [OF evqs_invD(1) [OF inv, of q]] try_pop_refines(1) [OF inv, of q]
  by (auto simp: eventq_poll_def Let_def case_prod_beta split: list.splits)

lemma evqs_inv_waker: "evqs_inv (upd_eventq q (\<lambda>e. e\<lparr>eq_waker := w\<rparr>) st) A \<longleftrightarrow> evqs_inv st A"
proof -
  have "evq_rep (upd_eventq q (\<lambda>e. e\<lparr>eq_waker := w\<rparr>) st) r xs = evq_rep st r xs" for r xs
    by (simp add: evq_rep_def heap_simps)
  then show ?thesis by (simp add: evqs_inv_def)
qed

lemma eventq_init_refines:
  assumes "evqs_inv st A" and "q \<noteq> NULL"
  shows "evqs_inv (ble_npl_eventq_init q st) (A(q := []))"
  using assms by (auto simp: evqs_inv_def evq_rep_def ble_npl_eventq_init_def heap_simps)

lemma eventq_deinit_refines:
  assumes "evqs_inv st A"
  shows "evqs_inv (ble_npl_eventq_deinit q st) (A(q := []))"
  using assms by (auto simp: evqs_inv_def evq_rep_def ble_npl_eventq_deinit_def heap_simps)

lemma evqs_inv_event_frame:
  assumes inv: "evqs_inv st A" and out: "\<And>q. ev \<notin> set (A q)"
  shows "evqs_inv (upd_event ev f st) A"
proof -
  have "evq_rep (upd_event ev f st) q (A q)" for q
  proof (rule evq_rep_frame [where st = st])
    show "evq_rep st q (A q)" using inv by (simp add: evqs_inv_def)
    show "eventqs (upd_event ev f st) q = eventqs st q" by (simp add: heap_simps)
    fix x assume x: "x \<in> set (A q)"
    with out [of q] have "x \<noteq> ev" by auto
    then show "ev_next (events (upd_event ev f st) x) = ev_next (events st x)"
      and "ev_queued (events (upd_event ev f st) x)"
      using evqs_invD(4) [OF inv x] by (simp_all add: heap_simps)
  qed
  with inv show ?thesis by (simp add: evqs_inv_def)
qed

lemma event_init_refines:
  "evqs_inv st A \<Longrightarrow> (\<And>q. ev \<notin> set (A q)) \<Longrightarrow> evqs_inv (ble_npl_event_init ev func arg st) A"
  unfolding ble_npl_event_init_def by (rule evqs_inv_event_frame)

lemma event_deinit_refines:
  "evqs_inv st A \<Longrightarrow> (\<And>q. ev \<notin> set (A q)) \<Longrightarrow> evqs_inv (ble_npl_event_deinit ev st) A"
  unfolding ble_npl_event_deinit_def by (rule evqs_inv_event_frame)

lemma event_set_arg_refines:
  assumes inv: "evqs_inv st A"
  shows "evqs_inv (ble_npl_event_set_arg ev arg st) A"
proof -
  have "evq_rep (ble_npl_event_set_arg ev arg st) q (A q)" for q
  proof (rule evq_rep_frame [where st = st])
    show "evq_rep st q (A q)" using inv by (simp add: evqs_inv_def)
    show "eventqs (ble_npl_event_set_arg ev arg st) q = eventqs st q"
      by (simp add: ble_npl_event_set_arg_def heap_simps)
    fix x assume "x \<in> set (A q)"
    then have "ev_queued (events st x)" by (rule evqs_invD(4) [OF inv])
    then show "ev_next (events (ble_npl_event_set_arg ev arg st) x) = ev_next (events st x)"
      and "ev_queued (events (ble_npl_event_set_arg ev arg st) x)"
      by (auto simp: ble_npl_event_set_arg_def heap_simps)
  qed
  with inv show ?thesis by (simp add: evqs_inv_def)
qed

section \<open>The contract of the event queues\<close>

text \<open>What a client of the queues does: put several events, pop several times.\<close>

definition puts :: "(ptr \<Rightarrow> ptr \<Rightarrow> 's \<Rightarrow> 's) \<Rightarrow> ptr \<Rightarrow> ptr list \<Rightarrow> 's \<Rightarrow> 's" where
  "puts put q evs = fold (put q) evs"

primrec pops :: "(ptr \<Rightarrow> 's \<Rightarrow> ptr \<times> 's) \<Rightarrow> ptr \<Rightarrow> nat \<Rightarrow> 's \<Rightarrow> ptr list \<times> 's" where
  "pops pop q 0 st = ([], st)"
| "pops pop q (Suc n) st =
     (let (ev, st1) = pop q st; (evs, st2) = pops pop q n st1 in (ev # evs, st2))"

locale event_queues =
  fixes rep :: "'s \<Rightarrow> (ptr \<Rightarrow> ptr list) \<Rightarrow> bool"
    and accepted :: "'s \<Rightarrow> ptr \<Rightarrow> ptr \<Rightarrow> bool"
    and put :: "ptr \<Rightarrow> ptr \<Rightarrow> 's \<Rightarrow> 's"
    and pop :: "ptr \<Rightarrow> 's \<Rightarrow> ptr \<times> 's"
    and remove :: "ptr \<Rightarrow> ptr \<Rightarrow> 's \<Rightarrow> 's option"
  assumes put_rep: "rep st A \<Longrightarrow> ev \<noteq> NULL \<Longrightarrow> rep (put q ev st) (put_spec (accepted st q ev) q ev A)"
    and put_accepted: "accepted st q ev \<Longrightarrow> accepted (put q ev st) q ev' \<longleftrightarrow> accepted st q ev' \<and> ev' \<noteq> ev"
    and pop_result: "rep st A \<Longrightarrow> fst (pop q st) = (case A q of [] \<Rightarrow> NULL | x # _ \<Rightarrow> x)"
    and pop_rep: "rep st A \<Longrightarrow> rep (snd (pop q st)) (A(q := tl (A q)))"
    and remove_rep: "rep st A \<Longrightarrow> \<exists>st'. remove q ev st = Some st' \<and> rep st' (A(q := removeAll ev (A q)))"
    and rep_distinct: "rep st A \<Longrightarrow> distinct (A q) \<and> NULL \<notin> set (A q)"
begin

lemma puts_rep:
  "rep st A \<Longrightarrow> distinct evs \<Longrightarrow> NULL \<notin> set evs \<Longrightarrow> (\<And>ev. ev \<in> set evs \<Longrightarrow> accepted st q ev) \<Longrightarrow>
   rep (puts put q evs st) (A(q := A q @ evs))"
proof (induction evs arbitrary: st A)
  case Nil
  then show ?case by (simp add: puts_def)
next
  case (Cons ev evs)
  have acc: "accepted st q ev" using Cons.prems by simp
  have "rep (put q ev st) (A(q := A q @ [ev]))"
    using put_rep [OF Cons.prems(1), of ev q] Cons.prems(3) acc by (simp add: put_spec_def)
  then have "rep (puts put q evs (put q ev st)) (A(q := A q @ [ev], q := (A(q := A q @ [ev])) q @ evs))"
    by (rule Cons.IH) (use Cons.prems put_accepted [OF acc] in auto)
  then have "rep (puts put q (ev # evs) st) (A(q := A q @ ev # evs))" by (simp add: puts_def)
  then show ?case .
qed

lemma pops_rep:
  "rep st A \<Longrightarrow> fst (pops pop q n st) = take n (A q) @ replicate (n - length (A q)) NULL \<and>
   rep (snd (pops pop q n st)) (A(q := drop n (A q)))"
proof (induction n arbitrary: st A)
  case 0
  then show ?case by simp
next
  case (Suc n)
  obtain ev st1 where pop: "pop q st = (ev, st1)" by (cases "pop q st")
  have "rep st1 (A(q := tl (A q)))" using pop_rep [OF Suc.prems, of q] pop by simp
  note IH = Suc.IH [OF this, unfolded fun_upd_same fun_upd_upd]
  have "snd (pops pop q (Suc n) st) = snd (pops pop q n st1)"
    using pop by (simp add: case_prod_beta)
  moreover have "fst (pops pop q (Suc n) st) = ev # fst (pops pop q n st1)"
    using pop by (simp add: case_prod_beta)
  ultimately show ?case
    using IH pop pop_result [OF Suc.prems, of q] by (cases "A q") (simp_all add: drop_Suc)
qed

text \<open>First in, first out: what was put comes out behind what was queued, in order.\<close>

lemma fifo:
  assumes "rep st A" and "distinct evs" and "NULL \<notin> set evs"
    and "\<And>ev. ev \<in> set evs \<Longrightarrow> accepted st q ev"
  shows "fst (pops pop q (length (A q) + length evs) (puts put q evs st)) = A q @ evs"
    and "rep (snd (pops pop q (length (A q) + length evs) (puts put q evs st))) (A(q := []))"
  using pops_rep [OF puts_rep [OF assms], of q "length (A q) + length evs"] by simp_all

text \<open>An event that was removed is not popped, however often the queue is popped.\<close>

lemma removed_never_popped:
  assumes "rep st A" and "ev \<noteq> NULL"
  shows "\<exists>st'. remove q ev st = Some st' \<and> ev \<notin> set (fst (pops pop q n st'))"
proof -
  obtain st' where rm: "remove q ev st = Some st'" and r: "rep st' (A(q := removeAll ev (A q)))"
    using remove_rep [OF assms(1)] by blast
  have "ev \<notin> set (fst (pops pop q n st'))"
    using pops_rep [OF r, of q n] assms(2) by (auto dest: in_set_takeD)
  with rm show ?thesis by blast
qed

end

text \<open>The model's queues keep the contract.\<close>

lemma put_accepts:
  "accepts st q ev \<Longrightarrow> accepts (ble_npl_eventq_put q ev st) q ev' \<longleftrightarrow> accepts st q ev' \<and> ev' \<noteq> ev"
  by (auto simp: accepts_def [of "ble_npl_eventq_put q ev st"] put_queued put_eventqs) (auto simp: accepts_def)

interpretation npl_queues: event_queues evqs_inv accepts ble_npl_eventq_put eventq_try_pop ble_npl_eventq_remove
proof (unfold_locales, goal_cases)
  case 1 then show ?case by (rule put_refines)
next
  case 2 then show ?case by (rule put_accepts)
next
  case 3 then show ?case by (rule try_pop_refines(1))
next
  case 4 then show ?case by (rule try_pop_refines(2))
next
  case 5 then show ?case using remove_refines by blast
next
  case 6 then show ?case using chain_distinct chain_nonnull evqs_invD(1) by blast
qed

section \<open>Properties\<close>

text \<open>Zeroed memory, in which no queue is initialised.\<close>

definition ev_mem0 :: ev_state where
  "ev_mem0 = \<lparr>events = \<lambda>_. \<lparr>ev_next = NULL, ev_func = None, ev_arg = NULL, ev_queued = False\<rparr>,
     eventqs = \<lambda>_. \<lparr>eq_init_tag = NULL, eq_head = NULL, eq_tail = NULL, eq_waker = None\<rparr>, woken = []\<rparr>"

lemma evqs_inv_mem0: "evqs_inv ev_mem0 (\<lambda>_. [])"
  by (simp add: evqs_inv_def evq_rep_def ev_mem0_def)

text \<open>
  C1: putting an event appends it to the queue, in memory and whatever the queue held, and
  wakes the waker registered there, once; the registration is consumed. An event that is
  already queued anywhere, and a queue that is not initialised, leave the state as it was.
\<close>

theorem eventq_put_correct:
  assumes "evqs_inv st A" and "ev \<noteq> NULL"
  shows "evqs_inv (ble_npl_eventq_put q ev st)
           (if ev_queued (events st ev) \<or> eq_init_tag (eventqs st q) = NULL then A else A(q := A q @ [ev])) \<and>
         (if ev_queued (events st ev) \<or> eq_init_tag (eventqs st q) = NULL
          then ble_npl_eventq_put q ev st = st
          else ev_queued (events (ble_npl_eventq_put q ev st) ev) \<and>
            eq_waker (eventqs (ble_npl_eventq_put q ev st) q) = None \<and>
            woken (ble_npl_eventq_put q ev st) =
              woken st @ (case eq_waker (eventqs st q) of None \<Rightarrow> [] | Some w \<Rightarrow> [w]))"
proof (cases "accepts st q ev")
  case True
  then show ?thesis
    using put_refines [OF assms, of q]
    by (simp add: put_spec_def put_queued put_eventqs put_woken) (simp add: accepts_def)
next
  case False
  then show ?thesis
    using put_refines [OF assms, of q]
    by (simp add: put_spec_def put_rejected) (simp add: accepts_def)
qed

theorem eventq_put_correct_witness:
  "let st = ble_npl_eventq_init 1000 ev_mem0; st' = ble_npl_eventq_put 1000 8 st
   in evqs_inv st ((\<lambda>_. [])(1000 := [])) \<and> evqs_inv st' ((\<lambda>_. [])(1000 := [8])) \<and> eq_head (eventqs st' 1000) = 8"
  using eventq_put_correct [OF eventq_init_refines [OF evqs_inv_mem0, of 1000], of 8 1000]
    eventq_init_refines [OF evqs_inv_mem0, of 1000]
  by (simp add: Let_def ble_npl_eventq_init_def ev_mem0_def ble_npl_eventq_put_def heap_simps)

text \<open>
  C3: polling a queue returns its oldest event, takes it off the list and clears its queued
  flag; on an empty queue it returns pending and registers the caller's waker, which the
  next put wakes. Nothing is woken by polling itself.
\<close>

theorem eventq_poll_correct:
  assumes "evqs_inv st A"
  shows "(case A q of
      [] \<Rightarrow> fst (eventq_poll q w st) = None \<and> eq_waker (eventqs (snd (eventq_poll q w st)) q) = Some w
    | ev # evs \<Rightarrow> fst (eventq_poll q w st) = Some ev \<and> \<not> ev_queued (events (snd (eventq_poll q w st)) ev)) \<and>
    evqs_inv (snd (eventq_poll q w st)) (A(q := tl (A q))) \<and>
    woken (snd (eventq_poll q w st)) = woken st"
proof (cases "A q")
  case Nil
  then have "A(q := tl (A q)) = A" by auto
  with Nil poll_refines(2) [OF assms Nil, of w] assms show ?thesis
    by (simp add: evqs_inv_waker heap_simps)
next
  case (Cons ev evs)
  then have hd: "eq_head (eventqs st q) = ev" "ev \<noteq> NULL"
    using evqs_invD(1) [OF assms, of q] by auto
  have "woken (snd (eventq_try_pop q st)) = woken st"
    by (simp add: eventq_try_pop_def Let_def heap_simps)
  with Cons show ?thesis
    using poll_refines(1) [OF assms, of q w] try_pop_refines(2) [OF assms, of q]
    by (simp add: try_pop_queued [OF hd])
qed

theorem eventq_poll_correct_witness:
  "let st = ble_npl_eventq_put 1000 8 (ble_npl_eventq_init 1000 ev_mem0)
   in evqs_inv st ((\<lambda>_. [])(1000 := [8])) \<and> fst (eventq_poll 1000 7 st) = Some 8"
proof -
  have "evqs_inv (ble_npl_eventq_put 1000 8 (ble_npl_eventq_init 1000 ev_mem0)) ((\<lambda>_. [])(1000 := [8]))"
    using put_refines [OF eventq_init_refines [OF evqs_inv_mem0, of 1000], of 8 1000]
    by (simp add: put_spec_def accepts_def ble_npl_eventq_init_def ev_mem0_def heap_simps)
  from eventq_poll_correct [OF this, of 1000 7] this show ?thesis by simp
qed

text \<open>
  C2: removing an event returns (the search loop ends), deletes the event from the queue
  and keeps the order of the others; an event on another queue, or on none, is left alone,
  its queued flag included.
\<close>

theorem eventq_remove_correct:
  assumes "evqs_inv st A"
  shows "\<exists>st'. ble_npl_eventq_remove q ev st = Some st' \<and>
     evqs_inv st' (A(q := removeAll ev (A q))) \<and>
     (\<forall>p. ev_queued (events st' p) \<longleftrightarrow> ev_queued (events st p) \<and> \<not> (p = ev \<and> ev \<in> set (A q)))"
  by (rule remove_refines [OF assms])

theorem eventq_remove_correct_witness:
  "let st = puts ble_npl_eventq_put 1000 [8, 16, 24] (ble_npl_eventq_init 1000 ev_mem0)
   in \<exists>st'. ble_npl_eventq_remove 1000 16 st = Some st' \<and> evqs_inv st' ((\<lambda>_. [])(1000 := [8, 24]))"
proof -
  have "evqs_inv (puts ble_npl_eventq_put 1000 [8, 16, 24] (ble_npl_eventq_init 1000 ev_mem0))
      ((\<lambda>_. [])(1000 := [8, 16, 24]))"
    using npl_queues.puts_rep [OF eventq_init_refines [OF evqs_inv_mem0, of 1000], of "[8, 16, 24]" 1000]
    by (simp add: accepts_def ble_npl_eventq_init_def ev_mem0_def heap_simps)
  from eventq_remove_correct [OF this, of 1000 16] show ?thesis by auto
qed

text \<open>
  C4: events put on a queue come out in the order they were put, each exactly once, behind
  the events that were there before, and the queue is empty afterwards.
\<close>

theorem eventq_fifo:
  assumes "evqs_inv st A" and "distinct evs" and "NULL \<notin> set evs"
    and "\<forall>ev \<in> set evs. \<not> ev_queued (events st ev)" and "eq_init_tag (eventqs st q) \<noteq> NULL"
  shows "fst (pops eventq_try_pop q (length (A q) + length evs) (puts ble_npl_eventq_put q evs st)) = A q @ evs \<and>
    evqs_inv (snd (pops eventq_try_pop q (length (A q) + length evs) (puts ble_npl_eventq_put q evs st))) (A(q := []))"
  using npl_queues.fifo [OF assms(1-3), of q] assms(4,5) by (simp add: accepts_def)

theorem eventq_fifo_witness:
  "fst (pops eventq_try_pop 1000 3 (puts ble_npl_eventq_put 1000 [8, 16, 24] (ble_npl_eventq_init 1000 ev_mem0))) =
     [8, 16, 24]"
proof -
  have len: "length (((\<lambda>_. [])(1000 := [])) (1000::ptr)) + length [8, 16, 24::ptr] = 3" by simp
  show ?thesis
    using eventq_fifo [OF eventq_init_refines [OF evqs_inv_mem0, of 1000], of "[8, 16, 24]" 1000, unfolded len]
    by (simp del: pops.simps add: ble_npl_eventq_init_def ev_mem0_def heap_simps)
qed

end
