(* ===== verification/Npl_Parker.thy ===== *)
theory Npl_Parker
  imports Nimble_Prelude
begin

text \<open>
  The waiting primitive (\<open>nimble-rs/src/npl/parker.rs\<close>): the \<open>Parker\<close> trait, its three
  implementations and the process-wide active parker.

  The platform state is what the implementations sleep on: the clock, the park permit of
  each thread (\<open>std::thread::park\<close>) and the one-bit event register of an ARM core (WFE and
  SEV). A trait object is a record of its three methods; a context is named by the
  address of its thread-local. \<open>pk_park p t dl s = None\<close> means that context \<open>t\<close> sleeps in
  platform state \<open>s\<close>; it tries again whenever the state changes.

  The locale \<open>parker\<close> is the contract of the trait that the wait loop relies on, and
  \<open>timed_parker\<close> adds that the deadline bounds the sleep.
\<close>

section \<open>Platform and trait\<close>

record plat =
  pl_clock :: instant
  pl_permit :: "nat \<Rightarrow> bool"
  pl_event :: bool

datatype waker_impl = NoopWaker | ThreadWaker nat | SevWaker

definition wake_impl :: "waker_impl \<Rightarrow> plat \<Rightarrow> plat" where
  "wake_impl w s =
     (case w of
        NoopWaker \<Rightarrow> s
      | ThreadWaker t \<Rightarrow> s\<lparr>pl_permit := (pl_permit s)(t := True)\<rparr>
      | SevWaker \<Rightarrow> s\<lparr>pl_event := True\<rparr>)"

record parker_obj =
  pk_ctx_id :: "nat \<Rightarrow> nat"
  pk_waker :: "nat \<Rightarrow> waker_impl"
  pk_park :: "nat \<Rightarrow> instant option \<Rightarrow> plat \<Rightarrow> plat option"

text \<open>\<open>impl Parker for &P\<close>: every method delegates.\<close>

definition ref_parker :: "parker_obj \<Rightarrow> parker_obj" where
  "ref_parker p = \<lparr>pk_ctx_id = (\<lambda>t. pk_ctx_id p t), pk_waker = (\<lambda>t. pk_waker p t),
     pk_park = (\<lambda>t dl s. pk_park p t dl s)\<rparr>"

section \<open>The three implementations\<close>

definition SpinParker :: parker_obj where
  "SpinParker = \<lparr>pk_ctx_id = (\<lambda>_. 1), pk_waker = (\<lambda>_. NoopWaker), pk_park = (\<lambda>_ _ s. Some s)\<rparr>"

text \<open>
  \<open>thread::park\<close> and \<open>thread::park_timeout\<close>: return when the permit is there, and take it;
  the timed form also returns once the remaining time has passed.
\<close>

definition std_park :: "nat \<Rightarrow> instant option \<Rightarrow> plat \<Rightarrow> plat option" where
  "std_park t dl s =
     (let thread_park = (if pl_permit s t then Some (s\<lparr>pl_permit := (pl_permit s)(t := False)\<rparr>) else None)
      in case dl of
           Some d \<Rightarrow> if d > pl_clock s then thread_park else Some s
         | None \<Rightarrow> thread_park)"

definition StdParker :: parker_obj where
  "StdParker = \<lparr>pk_ctx_id = (\<lambda>t. t), pk_waker = ThreadWaker, pk_park = std_park\<rparr>"

definition WfeParker :: parker_obj where
  "WfeParker = \<lparr>pk_ctx_id = (\<lambda>_. 1), pk_waker = (\<lambda>_. SevWaker),
     pk_park = (\<lambda>_ _ s. if pl_event s then Some (s\<lparr>pl_event := False\<rparr>) else None)\<rparr>"

section \<open>The active parker\<close>

text \<open>The build configuration: the \<open>std\<close> feature, and a bare-metal ARM target.\<close>

record target =
  tg_std :: bool
  tg_arm_none :: bool

definition default_parker :: "target \<Rightarrow> parker_obj" where
  "default_parker tg = (if tg_std tg then StdParker else if tg_arm_none tg then WfeParker else SpinParker)"

type_synonym active_slot = "parker_obj option"

definition set_active :: "parker_obj option \<Rightarrow> active_slot \<Rightarrow> active_slot" where
  "set_active p _ = p"

definition active :: "target \<Rightarrow> active_slot \<Rightarrow> parker_obj" where
  "active tg slot = (case slot of None \<Rightarrow> default_parker tg | Some p \<Rightarrow> p)"

definition ctx_id :: "target \<Rightarrow> active_slot \<Rightarrow> nat \<Rightarrow> nat" where
  "ctx_id tg slot t = pk_ctx_id (active tg slot) t"

definition current_waker :: "target \<Rightarrow> active_slot \<Rightarrow> nat \<Rightarrow> waker_impl" where
  "current_waker tg slot t = pk_waker (active tg slot) t"

definition park :: "target \<Rightarrow> active_slot \<Rightarrow> nat \<Rightarrow> instant option \<Rightarrow> plat \<Rightarrow> plat option" where
  "park tg slot t dl s = pk_park (active tg slot) t dl s"

section \<open>The contract of the trait\<close>

lemma wake_impl_simps [simp]:
  "wake_impl NoopWaker s = s"
  "wake_impl (ThreadWaker t) s = s\<lparr>pl_permit := (pl_permit s)(t := True)\<rparr>"
  "wake_impl SevWaker s = s\<lparr>pl_event := True\<rparr>"
  by (simp_all add: wake_impl_def)

lemmas parker_defs = SpinParker_def StdParker_def WfeParker_def std_park_def ref_parker_def

text \<open>
  A wake-up is latched: a park that follows the wake returns at once, no other wake-up
  takes the latch away, and the clock never puts a context to sleep.
\<close>

locale parker =
  fixes p :: parker_obj
  assumes ctx_id_pos: "t \<noteq> 0 \<Longrightarrow> pk_ctx_id p t \<noteq> 0"
    and wake_latched: "pk_park p t dl (wake_impl (pk_waker p t) s) \<noteq> None"
    and wake_keeps: "pk_park p t dl s \<noteq> None \<Longrightarrow> pk_park p t dl (wake_impl w s) \<noteq> None"
    and time_keeps: "pk_park p t dl s \<noteq> None \<Longrightarrow> c \<ge> pl_clock s \<Longrightarrow> pk_park p t dl (s\<lparr>pl_clock := c\<rparr>) \<noteq> None"
begin

text \<open>However many wake-ups of others follow, the wake-up is not lost.\<close>

lemma wake_survives: "pk_park p t dl (fold wake_impl ws (wake_impl (pk_waker p t) s)) \<noteq> None"
proof -
  have "pk_park p t dl s' \<noteq> None \<Longrightarrow> pk_park p t dl (fold wake_impl ws s') \<noteq> None" for s'
    using wake_keeps by (induction ws arbitrary: s') auto
  with wake_latched show ?thesis by blast
qed

end

locale timed_parker = parker +
  assumes deadline_bounds: "d \<le> pl_clock s \<Longrightarrow> pk_park p t (Some d) s \<noteq> None"
begin

lemma deadline_reached: "d \<le> c \<Longrightarrow> pk_park p t (Some d) (s\<lparr>pl_clock := c\<rparr>) \<noteq> None"
  by (rule deadline_bounds) simp

end

interpretation spin: timed_parker SpinParker
  by unfold_locales (auto simp: parker_defs)

interpretation std: timed_parker StdParker
proof (unfold_locales, goal_cases)
  case (3 t dl s w)
  then show ?case by (cases w) (auto simp: parker_defs Let_def split: option.splits if_splits)
qed (auto simp: parker_defs Let_def split: option.splits if_splits)

interpretation wfe: parker WfeParker
proof (unfold_locales, goal_cases)
  case (3 t dl s w)
  then show ?case by (cases w) (auto simp: parker_defs split: if_splits)
qed (auto simp: parker_defs split: if_splits)

text \<open>A reference to a parker keeps whatever contract the parker keeps.\<close>

lemma ref_parker_id: "ref_parker p = p"
  by (simp add: ref_parker_def)

text \<open>Whatever the target, the parker that is used by default keeps the trait's contract.\<close>

lemma default_parker_contract: "parker (default_parker tg)"
  by (simp add: default_parker_def spin.parker_axioms std.parker_axioms wfe.parker_axioms)

text \<open>
  On every target, a context woken through the waker it handed out does not sleep in the
  next park, even when other wake-ups come in between and with whatever deadline: the
  default parker loses no wake-up. Its identity of a context is never 0.
\<close>

theorem default_parker_no_lost_wake:
  assumes "t \<noteq> 0"
  shows "park tg None t dl (fold wake_impl ws (wake_impl (current_waker tg None t) s)) \<noteq> None \<and>
         ctx_id tg None t \<noteq> 0"
  using parker.wake_survives [OF default_parker_contract, of tg t dl ws s]
    parker.ctx_id_pos [OF default_parker_contract assms]
  by (simp add: park_def current_waker_def ctx_id_def active_def)

theorem default_parker_no_lost_wake_witness:
  "park \<lparr>tg_std = True, tg_arm_none = False\<rparr> None 5 None
     (fold wake_impl [SevWaker] (wake_impl (ThreadWaker 5) \<lparr>pl_clock = 0, pl_permit = (\<lambda>_. False), pl_event = False\<rparr>)) \<noteq> None"
  using default_parker_no_lost_wake [of 5 "\<lparr>tg_std = True, tg_arm_none = False\<rparr>" None "[SevWaker]"
      "\<lparr>pl_clock = 0, pl_permit = (\<lambda>_. False), pl_event = False\<rparr>"]
  by (simp add: current_waker_def active_def default_parker_def StdParker_def)

text \<open>
  The deadline bounds a park under the hosted and the spinning parker, but not under the
  WFE one, which sleeps on past it until an event comes.
\<close>

theorem park_deadline_bound:
  "d \<le> pl_clock s \<Longrightarrow>
     (park tg None t (Some d) s = None \<longleftrightarrow> \<not> tg_std tg \<and> tg_arm_none tg \<and> \<not> pl_event s)"
  using spin.deadline_bounds std.deadline_bounds
  by (auto simp: park_def active_def default_parker_def WfeParker_def)

theorem park_deadline_bound_witness:
  "park \<lparr>tg_std = False, tg_arm_none = True\<rparr> None 1 (Some 3) \<lparr>pl_clock = 9, pl_permit = (\<lambda>_. False), pl_event = False\<rparr> = None"
  using park_deadline_bound [of 3 "\<lparr>pl_clock = 9, pl_permit = (\<lambda>_. False), pl_event = False\<rparr>"
      "\<lparr>tg_std = False, tg_arm_none = True\<rparr>" 1]
  by simp

end
