(* ===== verification/Npl_Sync.thy ===== *)
theory Npl_Sync
  imports Npl_Event Npl_Parker
begin

text \<open>
  The blocking operations of the porting layer (\<open>nimble-rs/src/npl.rs\<close>): deadlines and the
  pump-while-pending loop \<open>wait_until\<close>, \<open>ble_npl_eventq_get\<close>, mutexes, semaphores, the time
  functions and the critical section.

  \<open>wait_until\<close> is polymorphic in the state. What it calls outside this file is the record
  \<open>wait_env\<close>: the clock, the calling context and its waker, the HCI pump and the parker;
  each may change the state, and the pump and the parker may not return (\<open>None\<close>). What
  \<open>ready\<close> and \<open>register\<close> do is given by the caller.

  Interleaving of several contexts is a step relation: \<open>mutex_step\<close> and \<open>sem_step\<close> let every
  context take its atomic steps (the critical sections of the source) in any order.
\<close>

section \<open>Environment and deadlines\<close>

record 's wait_env =
  we_now :: "'s \<Rightarrow> instant"
  we_from_millis :: "nat \<Rightarrow> nat"
  we_as_millis :: "instant \<Rightarrow> nat"
  we_ctx_id :: nat
  we_waker :: waker
  we_pump :: "waker \<Rightarrow> 's \<Rightarrow> 's option"
  we_park :: "instant option \<Rightarrow> 's \<Rightarrow> 's option"

datatype npl_error = NPL_OK | NPL_EINVAL | NPL_TIMEOUT

abbreviation FOREVER :: u32 where "FOREVER \<equiv> - 1"

definition deadline :: "'s wait_env \<Rightarrow> u32 \<Rightarrow> 's \<Rightarrow> instant option" where
  "deadline env ticks st =
     (if ticks \<noteq> FOREVER then Some (we_now env st + we_from_millis env (unat ticks)) else None)"

section \<open>The wait loop\<close>

definition expired :: "'s wait_env \<Rightarrow> instant option \<Rightarrow> 's \<Rightarrow> bool" where
  "expired env dl st = (case dl of None \<Rightarrow> False | Some d \<Rightarrow> we_now env st \<ge> d)"

partial_function (option) wait_until ::
  "'s wait_env \<Rightarrow> instant option \<Rightarrow> ('s \<Rightarrow> (bool \<times> 's) option) \<Rightarrow> (waker \<Rightarrow> 's \<Rightarrow> 's) \<Rightarrow> 's \<Rightarrow> (bool \<times> 's) option" where
  "wait_until env dl ready register st = do {
     (r1, st1) \<leftarrow> ready st;
     if r1 then Some (True, st1)
     else if expired env dl st1 then Some (False, st1)
     else do {
       (r2, st2) \<leftarrow> ready (register (we_waker env) st1);
       if r2 then Some (True, st2)
       else do {
         st3 \<leftarrow> we_pump env (we_waker env) st2;
         (r3, st4) \<leftarrow> ready st3;
         if r3 then Some (True, st4)
         else do {
           st5 \<leftarrow> we_park env dl st4;
           wait_until env dl ready register st5
         }
       }
     }
   }"

definition ble_npl_eventq_get ::
  "'a ev_state_scheme wait_env \<Rightarrow> ptr \<Rightarrow> u32 \<Rightarrow> 'a ev_state_scheme \<Rightarrow> (ptr \<times> 'a ev_state_scheme) option" where
  "ble_npl_eventq_get env evq tmo st =
     (let (ev, st1) = eventq_try_pop evq st
      in if ev = NULL \<and> tmo \<noteq> 0 then
           (let senv = \<lparr>we_now = (\<lambda>(_, s). we_now env s), we_from_millis = we_from_millis env,
                  we_as_millis = we_as_millis env, we_ctx_id = we_ctx_id env, we_waker = we_waker env,
                  we_pump = (\<lambda>w (e, s). do { s' \<leftarrow> we_pump env w s; Some (e, s') }),
                  we_park = (\<lambda>dl (e, s). do { s' \<leftarrow> we_park env dl s; Some (e, s') })\<rparr>
            in do {
              (_, ev', st2) \<leftarrow> wait_until senv (deadline env tmo st1)
                 (\<lambda>(_, s). let (e, s') = eventq_try_pop evq s in Some (e \<noteq> NULL, e, s'))
                 (\<lambda>w (e, s). (e, upd_eventq evq (\<lambda>q. q\<lparr>eq_waker := Some w\<rparr>) s))
                 (ev, st1);
              Some (ev', st2)
            })
         else Some (ev, st1))"

section \<open>Mutexes\<close>

record mutex =
  mu_owner :: nat
  mu_count :: u32

record sem =
  sem_count :: u16
  sem_waker :: "waker option"

record sync_state = ev_state +
  mutexes :: "ptr \<Rightarrow> mutex"
  sems :: "ptr \<Rightarrow> sem"

definition set_mutex :: "ptr \<Rightarrow> mutex \<Rightarrow> 'a sync_state_scheme \<Rightarrow> 'a sync_state_scheme" where
  "set_mutex mu m st = st\<lparr>mutexes := (mutexes st)(mu := m)\<rparr>"

definition set_sem :: "ptr \<Rightarrow> sem \<Rightarrow> 'a sync_state_scheme \<Rightarrow> 'a sync_state_scheme" where
  "set_sem s x st = st\<lparr>sems := (sems st)(s := x)\<rparr>"

definition ble_npl_mutex_init :: "ptr \<Rightarrow> 'a sync_state_scheme \<Rightarrow> npl_error \<times> 'a sync_state_scheme" where
  "ble_npl_mutex_init mu st = (NPL_OK, set_mutex mu \<lparr>mu_owner = 0, mu_count = 0\<rparr> st)"

definition ble_npl_mutex_deinit :: "ptr \<Rightarrow> 'a sync_state_scheme \<Rightarrow> npl_error \<times> 'a sync_state_scheme" where
  "ble_npl_mutex_deinit mu st = (NPL_OK, set_mutex mu \<lparr>mu_owner = 0, mu_count = 0\<rparr> st)"

text \<open>The closure of \<open>ble_npl_mutex_pend\<close>, on the mutex alone.\<close>

definition try_lock :: "bool \<Rightarrow> nat \<Rightarrow> mutex \<Rightarrow> (bool \<times> mutex) option" where
  "try_lock checks me m =
     (if mu_owner m = 0 then Some (True, \<lparr>mu_owner = me, mu_count = 1\<rparr>)
      else if mu_owner m = me then do {
        c \<leftarrow> rust_inc checks (mu_count m);
        Some (True, m\<lparr>mu_count := c\<rparr>)
      }
      else Some (False, m))"

definition try_lock_at :: "bool \<Rightarrow> nat \<Rightarrow> ptr \<Rightarrow> 'a sync_state_scheme \<Rightarrow> (bool \<times> 'a sync_state_scheme) option" where
  "try_lock_at checks me mu st = do {
     (r, m) \<leftarrow> try_lock checks me (mutexes st mu);
     Some (r, set_mutex mu m st)
   }"

definition ble_npl_mutex_pend ::
  "bool \<Rightarrow> 'a sync_state_scheme wait_env \<Rightarrow> ptr \<Rightarrow> u32 \<Rightarrow> 'a sync_state_scheme \<Rightarrow>
   (npl_error \<times> 'a sync_state_scheme) option" where
  "ble_npl_mutex_pend checks env mu tmo st = do {
     (r, st1) \<leftarrow> try_lock_at checks (we_ctx_id env) mu st;
     if r then Some (NPL_OK, st1)
     else do {
       (r', st2) \<leftarrow> wait_until env (deadline env tmo st1) (try_lock_at checks (we_ctx_id env) mu) (\<lambda>_ s. s) st1;
       Some (if r' then NPL_OK else NPL_TIMEOUT, st2)
     }
   }"

definition mutex_release :: "nat \<Rightarrow> mutex \<Rightarrow> npl_error \<times> mutex" where
  "mutex_release me m =
     (if mu_owner m \<noteq> me \<or> mu_count m = 0 then (NPL_EINVAL, m)
      else (let c = mu_count m - 1
            in (NPL_OK, if c = 0 then \<lparr>mu_owner = 0, mu_count = c\<rparr> else m\<lparr>mu_count := c\<rparr>)))"

definition ble_npl_mutex_release :: "nat \<Rightarrow> ptr \<Rightarrow> 'a sync_state_scheme \<Rightarrow> npl_error \<times> 'a sync_state_scheme" where
  "ble_npl_mutex_release me mu st =
     (let (e, m) = mutex_release me (mutexes st mu) in (e, set_mutex mu m st))"

section \<open>Semaphores\<close>

definition ble_npl_sem_init :: "ptr \<Rightarrow> u16 \<Rightarrow> 'a sync_state_scheme \<Rightarrow> npl_error \<times> 'a sync_state_scheme" where
  "ble_npl_sem_init s tokens st = (NPL_OK, set_sem s \<lparr>sem_count = tokens, sem_waker = None\<rparr> st)"

definition ble_npl_sem_deinit :: "ptr \<Rightarrow> 'a sync_state_scheme \<Rightarrow> npl_error \<times> 'a sync_state_scheme" where
  "ble_npl_sem_deinit s st = (NPL_OK, set_sem s ((sems st s)\<lparr>sem_count := 0, sem_waker := None\<rparr>) st)"

definition ble_npl_sem_get_count :: "ptr \<Rightarrow> 'a sync_state_scheme \<Rightarrow> u16" where
  "ble_npl_sem_get_count s st = sem_count (sems st s)"

text \<open>The critical section of \<open>ble_npl_sem_release\<close>: the new semaphore and the waker taken.\<close>

definition sem_release :: "bool \<Rightarrow> sem \<Rightarrow> (waker option \<times> sem) option" where
  "sem_release checks x = do {
     c \<leftarrow> rust_inc checks (sem_count x);
     Some (sem_waker x, \<lparr>sem_count = c, sem_waker = None\<rparr>)
   }"

definition ble_npl_sem_release :: "bool \<Rightarrow> ptr \<Rightarrow> 'a sync_state_scheme \<Rightarrow> (npl_error \<times> 'a sync_state_scheme) option" where
  "ble_npl_sem_release checks s st = do {
     (w, x) \<leftarrow> sem_release checks (sems st s);
     Some (NPL_OK, wake w (set_sem s x st))
   }"

definition try_take :: "sem \<Rightarrow> bool \<times> sem" where
  "try_take x = (if sem_count x > 0 then (True, x\<lparr>sem_count := sem_count x - 1\<rparr>) else (False, x))"

definition try_take_at :: "ptr \<Rightarrow> 'a sync_state_scheme \<Rightarrow> (bool \<times> 'a sync_state_scheme) option" where
  "try_take_at s st = (let (r, x) = try_take (sems st s) in Some (r, set_sem s x st))"

definition ble_npl_sem_pend ::
  "'a sync_state_scheme wait_env \<Rightarrow> ptr \<Rightarrow> u32 \<Rightarrow> 'a sync_state_scheme \<Rightarrow> (npl_error \<times> 'a sync_state_scheme) option" where
  "ble_npl_sem_pend env s tmo st = do {
     (r, st1) \<leftarrow> try_take_at s st;
     if r then Some (NPL_OK, st1)
     else if tmo = 0 then Some (NPL_TIMEOUT, st1)
     else do {
       (r', st2) \<leftarrow> wait_until env (deadline env tmo st1) (try_take_at s)
          (\<lambda>w t. set_sem s ((sems t s)\<lparr>sem_waker := Some w\<rparr>) t) st1;
       Some (if r' then NPL_OK else NPL_TIMEOUT, st2)
     }
   }"

section \<open>Time\<close>

definition ble_npl_time_get :: "'s wait_env \<Rightarrow> 's \<Rightarrow> u32" where
  "ble_npl_time_get env st = of_nat (we_as_millis env (we_now env st))"

definition ble_npl_time_ms_to_ticks :: "u32 \<Rightarrow> npl_error \<times> u32" where
  "ble_npl_time_ms_to_ticks ms = (NPL_OK, ms)"

definition ble_npl_time_ticks_to_ms :: "u32 \<Rightarrow> npl_error \<times> u32" where
  "ble_npl_time_ticks_to_ms ticks = (NPL_OK, ticks)"

definition ble_npl_time_ms_to_ticks32 :: "u32 \<Rightarrow> u32" where
  "ble_npl_time_ms_to_ticks32 ms = ms"

definition ble_npl_time_ticks_to_ms32 :: "u32 \<Rightarrow> u32" where
  "ble_npl_time_ticks_to_ms32 ticks = ticks"

definition ble_npl_time_delay :: "'s wait_env \<Rightarrow> u32 \<Rightarrow> 's \<Rightarrow> 's option" where
  "ble_npl_time_delay env ticks st = do {
     (_, st1) \<leftarrow> wait_until env (deadline env ticks st) (\<lambda>s. Some (False, s)) (\<lambda>_ s. s) st;
     Some st1
   }"

section \<open>The critical section\<close>

text \<open>
  \<open>critical_section::acquire\<close> and \<open>release\<close> are outside the repository: \<open>cs_lock\<close> is whether
  the lock they manage is held, and a restore state is a token. Acquiring a held lock
  waits, which is \<open>None\<close> here: the call does not return in this state.
\<close>

record cs_state =
  cs_owner :: nat
  cs_depth :: u32
  cs_restore :: "nat option"
  cs_lock :: bool

definition cs_init :: cs_state where
  "cs_init = \<lparr>cs_owner = 0, cs_depth = 0, cs_restore = None, cs_lock = False\<rparr>"

definition cs_acquire :: "nat \<Rightarrow> cs_state \<Rightarrow> (nat \<times> cs_state) option" where
  "cs_acquire token st = (if cs_lock st then None else Some (token, st\<lparr>cs_lock := True\<rparr>))"

definition cs_release :: "nat \<Rightarrow> cs_state \<Rightarrow> cs_state" where
  "cs_release _ st = st\<lparr>cs_lock := False\<rparr>"

definition ble_npl_hw_enter_critical :: "bool \<Rightarrow> nat \<Rightarrow> nat \<Rightarrow> cs_state \<Rightarrow> (u32 \<times> cs_state) option" where
  "ble_npl_hw_enter_critical checks token me st =
     (if cs_owner st = me then do {
        d \<leftarrow> rust_inc checks (cs_depth st);
        Some (0, st\<lparr>cs_depth := d\<rparr>)
      }
      else do {
        (restore, st1) \<leftarrow> cs_acquire token st;
        Some (0, st1\<lparr>cs_owner := me, cs_depth := 1, cs_restore := Some restore\<rparr>)
      })"

definition ble_npl_hw_exit_critical :: "bool \<Rightarrow> nat \<Rightarrow> u32 \<Rightarrow> cs_state \<Rightarrow> cs_state option" where
  "ble_npl_hw_exit_critical checks me _ st =
     (if checks \<and> \<not> (cs_owner st = me \<and> cs_depth st > 0) then None
      else do {
        d \<leftarrow> rust_dec checks (cs_depth st);
        Some (if d = 0 then
                (let st1 = st\<lparr>cs_depth := d, cs_owner := 0, cs_restore := None\<rparr>
                 in case cs_restore st of None \<Rightarrow> st1 | Some restore \<Rightarrow> cs_release restore st1)
              else st\<lparr>cs_depth := d\<rparr>)
      })"

definition ble_npl_hw_is_in_critical :: "nat \<Rightarrow> cs_state \<Rightarrow> bool" where
  "ble_npl_hw_is_in_critical me st \<longleftrightarrow> cs_owner st = me"

text \<open>\<open>unreachable!\<close>: the call panics.\<close>

definition ble_npl_hw_set_isr :: "int \<Rightarrow> u32 \<Rightarrow> unit option" where
  "ble_npl_hw_set_isr _ _ = None"

definition ble_npl_os_started :: bool where
  "ble_npl_os_started = True"

definition ble_npl_get_current_task_id :: "nat \<Rightarrow> ptr" where
  "ble_npl_get_current_task_id me = me"

section \<open>The wait loop, pass by pass\<close>

text \<open>One pass of the loop: \<open>Inl\<close> is a return, \<open>Inr\<close> the state in which the next pass starts.\<close>

definition wait_pass ::
  "'s wait_env \<Rightarrow> instant option \<Rightarrow> ('s \<Rightarrow> (bool \<times> 's) option) \<Rightarrow> (waker \<Rightarrow> 's \<Rightarrow> 's) \<Rightarrow> 's \<Rightarrow> ((bool \<times> 's) + 's) option" where
  "wait_pass env dl ready register st = do {
     (r1, st1) \<leftarrow> ready st;
     if r1 then Some (Inl (True, st1))
     else if expired env dl st1 then Some (Inl (False, st1))
     else do {
       (r2, st2) \<leftarrow> ready (register (we_waker env) st1);
       if r2 then Some (Inl (True, st2))
       else do {
         st3 \<leftarrow> we_pump env (we_waker env) st2;
         (r3, st4) \<leftarrow> ready st3;
         if r3 then Some (Inl (True, st4))
         else do { st5 \<leftarrow> we_park env dl st4; Some (Inr st5) }
       }
     }
   }"

primrec wait_passes ::
  "nat \<Rightarrow> 's wait_env \<Rightarrow> instant option \<Rightarrow> ('s \<Rightarrow> (bool \<times> 's) option) \<Rightarrow> (waker \<Rightarrow> 's \<Rightarrow> 's) \<Rightarrow> 's \<Rightarrow> 's option" where
  "wait_passes 0 env dl ready register st = Some st"
| "wait_passes (Suc n) env dl ready register st =
     (case wait_pass env dl ready register st of
        Some (Inr st') \<Rightarrow> wait_passes n env dl ready register st'
      | _ \<Rightarrow> None)"

lemma wait_until_pass:
  "wait_until env dl ready register st =
     (case wait_pass env dl ready register st of
        None \<Rightarrow> None | Some (Inl r) \<Rightarrow> Some r | Some (Inr st') \<Rightarrow> wait_until env dl ready register st')"
  by (subst wait_until.simps) (auto simp: wait_pass_def split: Option.bind_splits)

text \<open>The loop returns \<open>r\<close> exactly when some pass, after finitely many full ones, returns \<open>r\<close>.\<close>

lemma wait_until_passes_intro:
  "wait_passes n env dl ready register st = Some st' \<Longrightarrow> wait_pass env dl ready register st' = Some (Inl r) \<Longrightarrow>
   wait_until env dl ready register st = Some r"
proof (induction n arbitrary: st)
  case 0
  then show ?case by (simp add: wait_until_pass)
next
  case (Suc n)
  then show ?case by (subst wait_until_pass) (auto split: option.splits sum.splits)
qed

lemma wait_until_passes_elim:
  "wait_until env dl ready register st = Some r \<Longrightarrow>
   \<exists>n st'. wait_passes n env dl ready register st = Some st' \<and> wait_pass env dl ready register st' = Some (Inl r)"
proof (induction env dl ready register st r rule: wait_until.raw_induct [rotated -1, consumes 1])
  case (1 wait env dl ready register st r)
  then have "(case wait_pass env dl ready register st of
        None \<Rightarrow> None | Some (Inl r) \<Rightarrow> Some r | Some (Inr st') \<Rightarrow> wait env dl ready register st') = Some r"
    by (auto simp: wait_pass_def split: Option.bind_splits)
  then consider "wait_pass env dl ready register st = Some (Inl r)"
    | st' where "wait_pass env dl ready register st = Some (Inr st')" "wait env dl ready register st' = Some r"
    by (auto split: option.splits sum.splits)
  then show ?case
  proof cases
    case 1
    then have "wait_passes 0 env dl ready register st = Some st \<and> wait_pass env dl ready register st = Some (Inl r)"
      by simp
    then show ?thesis by blast
  next
    case (2 st')
    then obtain n st'' where "wait_passes n env dl ready register st' = Some st''"
      "wait_pass env dl ready register st'' = Some (Inl r)"
      using "local.1.IH" by blast
    with 2 have "wait_passes (Suc n) env dl ready register st = Some st'' \<and>
        wait_pass env dl ready register st'' = Some (Inl r)" by simp
    then show ?thesis by blast
  qed
qed

lemma wait_passes_add:
  "wait_passes (m + n) env dl ready register st =
     do { st' \<leftarrow> wait_passes m env dl ready register st; wait_passes n env dl ready register st' }"
  by (induction m arbitrary: st) (auto split: option.splits sum.splits)

text \<open>What a returning pass means.\<close>

lemma wait_pass_result:
  assumes "wait_pass env dl ready register st = Some (Inl (b, st'))"
  shows "(\<exists>t. ready t = Some (b, st')) \<and> (\<not> b \<longrightarrow> expired env dl st')"
proof -
  from assms obtain r1 st1 where r1: "ready st = Some (r1, st1)"
    by (auto simp: wait_pass_def bind_eq_Some_conv)
  show ?thesis
  proof (cases "r1 \<or> expired env dl st1")
    case True
    with assms r1 show ?thesis by (cases r1) (auto simp: wait_pass_def)
  next
    case False
    with assms r1 obtain r2 st2 where r2: "ready (register (we_waker env) st1) = Some (r2, st2)"
      by (auto simp: wait_pass_def bind_eq_Some_conv)
    show ?thesis
    proof (cases r2)
      case True
      with assms r1 r2 False show ?thesis by (auto simp: wait_pass_def)
    next
      case r2f: False
      with assms r1 r2 False obtain st3 st4 where "ready st3 = Some (True, st4)" "b" "st' = st4"
        by (auto simp: wait_pass_def bind_eq_Some_conv split: if_splits)
      then show ?thesis by auto
    qed
  qed
qed

lemma wait_pass_total:
  assumes "\<And>s. ready s \<noteq> None" "\<And>w s. we_pump env w s \<noteq> None" "\<And>s. we_park env dl s \<noteq> None"
  shows "\<exists>y. wait_pass env dl ready register s = Some y"
proof -
  define f where "f s = the (ready s)" for s
  define g where "g w s = the (we_pump env w s)" for w s
  define h where "h s = the (we_park env dl s)" for s
  have "ready s = Some (f s)" "we_pump env w s = Some (g w s)" "we_park env dl s = Some (h s)" for s w
    using assms by (simp_all add: f_def g_def h_def)
  then show ?thesis by (simp add: wait_pass_def case_prod_beta)
qed

lemma wait_until_result:
  assumes "wait_until env dl ready register st = Some (b, st')"
  shows "(\<exists>t. ready t = Some (b, st')) \<and> (\<not> b \<longrightarrow> expired env dl st')"
proof -
  obtain t where "wait_pass env dl ready register t = Some (Inl (b, st'))"
    using wait_until_passes_elim [OF assms] by blast
  then show ?thesis by (rule wait_pass_result)
qed

text \<open>When every pass returns or goes on, a run that is not full has returned.\<close>

lemma wait_passes_None_returns:
  assumes pass: "\<And>s. \<exists>y. wait_pass env dl ready register s = Some y"
    and "wait_passes n env dl ready register st = None"
  shows "\<exists>r. wait_until env dl ready register st = Some r"
  using assms(2)
proof (induction n arbitrary: st)
  case 0
  then show ?case by simp
next
  case (Suc n)
  obtain y where "wait_pass env dl ready register st = Some y" using pass by blast
  with Suc show ?case by (subst wait_until_pass) (cases y; simp)
qed

lemma wait_until_after_passes:
  "wait_passes n env dl ready register st = Some st' \<Longrightarrow>
   wait_until env dl ready register st = wait_until env dl ready register st'"
proof (induction n arbitrary: st)
  case 0
  then show ?case by simp
next
  case (Suc n)
  then show ?case by (subst wait_until_pass) (simp split: option.splits sum.splits)
qed

text \<open>
  The loop returns by its deadline, when every call in it returns and the clock is seen to
  advance after finitely many passes.
\<close>

lemma wait_until_returns:
  assumes total: "\<And>s. ready s \<noteq> None" "\<And>w s. we_pump env w s \<noteq> None" "\<And>s. we_park env (Some d) s \<noteq> None"
    and advance: "\<And>s. \<exists>n. \<forall>s'. wait_passes n env (Some d) ready register s = Some s' \<longrightarrow> we_now env s' > we_now env s"
    and steady: "\<And>s r s'. ready s = Some (r, s') \<Longrightarrow> we_now env s' \<ge> we_now env s"
  shows "\<exists>r. wait_until env (Some d) ready register st = Some r"
proof (induction "d - we_now env st" arbitrary: st rule: less_induct)
  case less
  obtain r st1 where st1: "ready st = Some (r, st1)" using total(1) [of st] by (cases "ready st") auto
  show ?case
  proof (cases "we_now env st \<ge> d")
    case True
    then have "expired env (Some d) st1" using steady [OF st1] by (simp add: expired_def)
    with st1 show ?thesis by (subst wait_until.simps) (cases r; auto)
  next
    case False
    obtain n where n: "\<forall>s'. wait_passes n env (Some d) ready register st = Some s' \<longrightarrow> we_now env s' > we_now env st"
      using advance by blast
    show ?thesis
    proof (cases "wait_passes n env (Some d) ready register st")
      case None
      then show ?thesis by (rule wait_passes_None_returns [OF wait_pass_total [OF total]])
    next
      case (Some s')
      with n False have "d - we_now env s' < d - we_now env st" by auto
      from less.hyps [OF this] wait_until_after_passes [OF Some] show ?thesis by simp
    qed
  qed
qed

section \<open>Mutexes under any interleaving\<close>

text \<open>
  The lock attempts and releases of any number of contexts, in any order. \<open>h c\<close> counts the
  successful attempts of context \<open>c\<close> less its successful releases. An unchecked build lets
  the counter wrap after \<open>2 ^ 32\<close> nested attempts of one context; they are left out.
\<close>

inductive mutex_step :: "bool \<Rightarrow> mutex \<times> (nat \<Rightarrow> nat) \<Rightarrow> mutex \<times> (nat \<Rightarrow> nat) \<Rightarrow> bool" for checks where
  lock: "c \<noteq> 0 \<Longrightarrow> checks \<or> h c < 2 ^ 32 - 1 \<Longrightarrow> try_lock checks c m = Some (r, m') \<Longrightarrow>
    mutex_step checks (m, h) (m', if r then h(c := Suc (h c)) else h)"
| release: "c \<noteq> 0 \<Longrightarrow> mutex_release c m = (e, m') \<Longrightarrow>
    mutex_step checks (m, h) (m', if e = NPL_OK then h(c := h c - 1) else h)"

definition mutex_inv :: "mutex \<times> (nat \<Rightarrow> nat) \<Rightarrow> bool" where
  "mutex_inv = (\<lambda>(m, h).
     if mu_owner m = 0 then mu_count m = 0 \<and> (\<forall>c. h c = 0)
     else h (mu_owner m) = unat (mu_count m) \<and> mu_count m \<noteq> 0 \<and> (\<forall>c. c \<noteq> mu_owner m \<longrightarrow> h c = 0))"

lemma unat_max32: "unat (- 1 :: u32) = 4294967295"
  by (simp add: unsigned_minus_1_eq_mask mask_eq_exp_minus_1)

lemma not_max32: "unat x < 2 ^ 32 - 1 \<Longrightarrow> x \<noteq> - 1" for x :: u32
  using unat_max32 by auto

lemma try_lock_inv:
  assumes "mutex_inv (m, h)" and "c \<noteq> 0" and "checks \<or> h c < 2 ^ 32 - 1" and "try_lock checks c m = Some (r, m')"
  shows "mutex_inv (m', if r then h(c := Suc (h c)) else h)"
proof (cases "mu_owner m = c")
  case True
  with assms have "mu_count m \<noteq> - 1"
    by (auto simp: try_lock_def rust_inc_def mutex_inv_def unat_max32 split: if_splits)
  with True assms show ?thesis
    by (auto simp: try_lock_def mutex_inv_def unat_succ unat_eq_zero [symmetric] split: if_splits)
next
  case False
  with assms show ?thesis by (auto simp: try_lock_def mutex_inv_def split: if_splits)
qed

lemma mutex_release_inv:
  assumes "mutex_inv (m, h)" and "c \<noteq> 0" and "mutex_release c m = (e, m')"
  shows "mutex_inv (m', if e = NPL_OK then h(c := h c - 1) else h)"
  using assms
  by (auto simp: mutex_release_def mutex_inv_def Let_def unat_pred unat_eq_zero [symmetric] split: if_splits)

lemma mutex_step_inv:
  assumes "mutex_step checks s s'" and "mutex_inv s"
  shows "mutex_inv s'"
  using assms
proof (induction rule: mutex_step.induct)
  case (lock c h m r m')
  then show ?case by (intro try_lock_inv) auto
next
  case (release c m e m' h)
  then show ?case by (intro mutex_release_inv) auto
qed

section \<open>A waiting context and the releases of a semaphore\<close>

text \<open>
  One context waits for the semaphore in \<open>wait_until\<close>, with the parker \<open>p\<close>; any number of
  others release it, take from it without waiting, wake wakers and let time pass. A release
  is the two steps of the source: the critical section, and then the wake-up of the waker
  taken there, which until then is in \<open>ss_pending\<close>. The pump is one step of the waiting
  context; what it delivers arrives as releases.
\<close>

datatype wait_pc = Check1 | Register | Check2 | Pump | Check3 | Park | Done

record sem_sys =
  ss_pc :: wait_pc
  ss_sem :: sem
  ss_pending :: "waker list"
  ss_plat :: plat
  ss_released :: nat
  ss_taken :: nat

inductive sem_step :: "bool \<Rightarrow> parker_obj \<Rightarrow> nat \<Rightarrow> waker \<Rightarrow> (waker \<Rightarrow> waker_impl) \<Rightarrow> instant option \<Rightarrow> sem_sys \<Rightarrow> sem_sys \<Rightarrow> bool"
  for checks p me w impl dl where
  take: "ss_pc s \<in> {Check1, Check2, Check3} \<Longrightarrow> try_take (ss_sem s) = (True, x) \<Longrightarrow>
    sem_step checks p me w impl dl s (s\<lparr>ss_pc := Done, ss_sem := x, ss_taken := Suc (ss_taken s)\<rparr>)"
| fail1: "ss_pc s = Check1 \<Longrightarrow> try_take (ss_sem s) = (False, x) \<Longrightarrow>
    sem_step checks p me w impl dl s (s\<lparr>ss_pc := Register, ss_sem := x\<rparr>)"
| timeout: "ss_pc s = Register \<Longrightarrow> dl = Some d \<Longrightarrow> pl_clock (ss_plat s) \<ge> d \<Longrightarrow>
    sem_step checks p me w impl dl s (s\<lparr>ss_pc := Done\<rparr>)"
| register: "ss_pc s = Register \<Longrightarrow>
    sem_step checks p me w impl dl s (s\<lparr>ss_pc := Check2, ss_sem := (ss_sem s)\<lparr>sem_waker := Some w\<rparr>\<rparr>)"
| fail2: "ss_pc s = Check2 \<Longrightarrow> try_take (ss_sem s) = (False, x) \<Longrightarrow>
    sem_step checks p me w impl dl s (s\<lparr>ss_pc := Pump, ss_sem := x\<rparr>)"
| pump: "ss_pc s = Pump \<Longrightarrow> sem_step checks p me w impl dl s (s\<lparr>ss_pc := Check3\<rparr>)"
| fail3: "ss_pc s = Check3 \<Longrightarrow> try_take (ss_sem s) = (False, x) \<Longrightarrow>
    sem_step checks p me w impl dl s (s\<lparr>ss_pc := Park, ss_sem := x\<rparr>)"
| park: "ss_pc s = Park \<Longrightarrow> pk_park p me dl (ss_plat s) = Some pl \<Longrightarrow>
    sem_step checks p me w impl dl s (s\<lparr>ss_pc := Check1, ss_plat := pl\<rparr>)"
| release: "sem_release checks (ss_sem s) = Some (v, x) \<Longrightarrow> checks \<or> sem_count (ss_sem s) \<noteq> - 1 \<Longrightarrow>
    sem_step checks p me w impl dl s
      (s\<lparr>ss_sem := x, ss_pending := ss_pending s @ (case v of None \<Rightarrow> [] | Some u \<Rightarrow> [u]),
         ss_released := Suc (ss_released s)\<rparr>)"
| deliver: "ss_pending s = us @ u # vs \<Longrightarrow>
    sem_step checks p me w impl dl s (s\<lparr>ss_pending := us @ vs, ss_plat := wake_impl (impl u) (ss_plat s)\<rparr>)"
| other_take: "try_take (ss_sem s) = (True, x) \<Longrightarrow>
    sem_step checks p me w impl dl s (s\<lparr>ss_sem := x, ss_taken := Suc (ss_taken s)\<rparr>)"
| other_wake: "sem_step checks p me w impl dl s (s\<lparr>ss_plat := wake_impl v (ss_plat s)\<rparr>)"
| tick: "c \<ge> pl_clock (ss_plat s) \<Longrightarrow>
    sem_step checks p me w impl dl s (s\<lparr>ss_plat := (ss_plat s)\<lparr>pl_clock := c\<rparr>\<rparr>)"

definition sem_start :: "u16 \<Rightarrow> plat \<Rightarrow> sem_sys" where
  "sem_start tokens pl = \<lparr>ss_pc = Check1, ss_sem = \<lparr>sem_count = tokens, sem_waker = None\<rparr>, ss_pending = [],
     ss_plat = pl, ss_released = 0, ss_taken = 0\<rparr>"

text \<open>The wake-up of the waiting context is armed, on its way or latched.\<close>

definition wake_ahead :: "parker_obj \<Rightarrow> nat \<Rightarrow> waker \<Rightarrow> instant option \<Rightarrow> sem_sys \<Rightarrow> bool" where
  "wake_ahead p me w dl s \<longleftrightarrow> w \<in> set (ss_pending s) \<or> pk_park p me dl (ss_plat s) \<noteq> None"

definition sem_inv :: "parker_obj \<Rightarrow> nat \<Rightarrow> waker \<Rightarrow> instant option \<Rightarrow> nat \<Rightarrow> sem_sys \<Rightarrow> bool" where
  "sem_inv p me w dl tokens s \<longleftrightarrow>
     unat (sem_count (ss_sem s)) + ss_taken s = tokens + ss_released s \<and>
     (ss_pc s \<in> {Check2, Pump, Check3, Park} \<longrightarrow> sem_waker (ss_sem s) = Some w \<or> wake_ahead p me w dl s) \<and>
     (ss_pc s = Park \<longrightarrow> sem_count (ss_sem s) \<noteq> 0 \<longrightarrow> wake_ahead p me w dl s)"

lemma try_takeD:
  "try_take x = (True, x') \<Longrightarrow> sem_waker x' = sem_waker x \<and> unat (sem_count x) = Suc (unat (sem_count x'))"
  "try_take x = (False, x') \<Longrightarrow> x' = x \<and> sem_count x = 0"
  by (auto simp: try_take_def unat_pred word_gt_0 unat_gt_0 split: if_splits)

lemma sem_releaseD:
  assumes "sem_release checks x = Some (v, x')" and "checks \<or> sem_count x \<noteq> - 1"
  shows "v = sem_waker x \<and> sem_waker x' = None \<and> unat (sem_count x') = Suc (unat (sem_count x))"
  using assms by (auto simp: sem_release_def rust_inc_def unat_succ split: if_splits)

context parker
begin

lemma sem_step_inv:
  assumes "sem_step checks p me w impl dl s s'" and "sem_inv p me w dl tokens s" and "impl w = pk_waker p me"
  shows "sem_inv p me w dl tokens s'"
  using assms
proof (induction rule: sem_step.induct)
  case (take s x)
  then show ?case by (auto simp: sem_inv_def dest: try_takeD)
next
  case (fail1 s x)
  then show ?case by (auto simp: sem_inv_def dest: try_takeD)
next
  case (timeout s d)
  then show ?case by (auto simp: sem_inv_def)
next
  case (register s)
  then show ?case by (auto simp: sem_inv_def)
next
  case (fail2 s x)
  then show ?case by (auto simp: sem_inv_def wake_ahead_def dest: try_takeD)
next
  case (pump s)
  then show ?case by (auto simp: sem_inv_def wake_ahead_def)
next
  case (fail3 s x)
  then show ?case by (auto simp: sem_inv_def wake_ahead_def dest: try_takeD)
next
  case (park s pl)
  then show ?case by (auto simp: sem_inv_def)
next
  case (release s v x)
  note rel = sem_releaseD [OF release.hyps]
  show ?case
  proof (cases "sem_waker (ss_sem s)")
    case None
    with rel release.prems show ?thesis by (simp add: sem_inv_def wake_ahead_def)
  next
    case (Some u)
    with rel release.prems show ?thesis by (simp add: sem_inv_def wake_ahead_def) blast
  qed
next
  case (deliver s us u vs)
  let ?t = "s\<lparr>ss_pending := us @ vs, ss_plat := wake_impl (impl u) (ss_plat s)\<rparr>"
  have "wake_ahead p me w dl ?t" if "wake_ahead p me w dl s"
  proof (cases "u = w")
    case True
    then show ?thesis using wake_latched deliver.prems(2) by (simp add: wake_ahead_def)
  next
    case False
    with that deliver.hyps show ?thesis using wake_keeps by (fastforce simp: wake_ahead_def)
  qed
  with deliver.prems(1) show ?case by (simp add: sem_inv_def) blast
next
  case (other_take s x)
  then have "ss_pc s = Park \<Longrightarrow> sem_count x \<noteq> 0 \<Longrightarrow> sem_count (ss_sem s) \<noteq> 0"
    by (auto simp: try_take_def split: if_splits)
  with other_take.prems try_takeD(1) [OF other_take.hyps] show ?case by (auto simp: sem_inv_def wake_ahead_def)
next
  case (other_wake s v)
  then show ?case using wake_keeps [of me dl "ss_plat s" v] by (auto simp: sem_inv_def wake_ahead_def)
next
  case (tick c s)
  then show ?case using time_keeps [of me dl "ss_plat s" c] by (auto simp: sem_inv_def wake_ahead_def)
qed

lemma sem_reachable_inv:
  assumes "(sem_step checks p me w impl dl)\<^sup>*\<^sup>* (sem_start tokens pl) s" and "impl w = pk_waker p me"
  shows "sem_inv p me w dl (unat tokens) s"
  using assms
proof (induction rule: rtranclp_induct)
  case base
  show ?case by (simp add: sem_inv_def sem_start_def)
next
  case (step y z)
  then show ?case using sem_step_inv by blast
qed

text \<open>A context that sleeps while a token is there has a wake-up on its way.\<close>

lemma sem_no_lost_wakeup:
  assumes "(sem_step checks p me w impl dl)\<^sup>*\<^sup>* (sem_start tokens pl) s" and "impl w = pk_waker p me"
    and "ss_pc s = Park" and "sem_count (ss_sem s) \<noteq> 0" and "ss_pending s = []"
  shows "\<exists>pl'. pk_park p me dl (ss_plat s) = Some pl'"
  using sem_reachable_inv [OF assms(1,2)] assms(3-) by (auto simp: sem_inv_def wake_ahead_def)

end

section \<open>Nesting of the critical section\<close>

primrec cs_times :: "nat \<Rightarrow> (cs_state \<Rightarrow> cs_state option) \<Rightarrow> cs_state \<Rightarrow> cs_state option" where
  "cs_times 0 f st = Some st"
| "cs_times (Suc n) f st = do { st' \<leftarrow> cs_times n f st; f st' }"

definition cs_enter :: "bool \<Rightarrow> nat \<Rightarrow> nat \<Rightarrow> cs_state \<Rightarrow> cs_state option" where
  "cs_enter checks token me st = map_option snd (ble_npl_hw_enter_critical checks token me st)"

definition cs_held :: "nat \<Rightarrow> nat \<Rightarrow> nat \<Rightarrow> cs_state" where
  "cs_held token me n = \<lparr>cs_owner = me, cs_depth = of_nat n, cs_restore = Some token, cs_lock = True\<rparr>"

lemma of_nat_ne_max32: "n < 2 ^ 32 - 1 \<Longrightarrow> (of_nat n :: u32) \<noteq> - 1"
  by (rule not_max32) (simp add: unat_of_nat)

lemma of_nat_ne_0_32: "0 < n \<Longrightarrow> n < 2 ^ 32 \<Longrightarrow> (of_nat n :: u32) \<noteq> 0"
  by (auto simp: word_unat_eq_iff unat_of_nat)

lemma cs_enter_held:
  "0 < n \<Longrightarrow> Suc n < 2 ^ 32 \<Longrightarrow> cs_enter checks token me (cs_held token me n) = Some (cs_held token me (Suc n))"
  by (simp add: cs_enter_def ble_npl_hw_enter_critical_def cs_held_def of_nat_ne_max32)

lemma cs_enter_first: "me \<noteq> 0 \<Longrightarrow> cs_enter checks token me cs_init = Some (cs_held token me 1)"
  by (simp add: cs_enter_def ble_npl_hw_enter_critical_def cs_held_def cs_init_def cs_acquire_def)

lemma cs_exit_held:
  "Suc n < 2 ^ 32 \<Longrightarrow>
   ble_npl_hw_exit_critical checks me ctx (cs_held token me (Suc n)) = Some (if n = 0 then cs_init else cs_held token me n)"
  using of_nat_ne_0_32 [of "Suc n"] of_nat_ne_0_32 [of n]
  by (auto simp: ble_npl_hw_exit_critical_def cs_held_def cs_init_def cs_release_def word_gt_0)

lemma cs_enters: "me \<noteq> 0 \<Longrightarrow> 0 < n \<Longrightarrow> n < 2 ^ 32 \<Longrightarrow> cs_times n (cs_enter checks token me) cs_init = Some (cs_held token me n)"
proof (induction n)
  case (Suc n)
  then show ?case by (cases "n = 0") (simp_all add: cs_enter_first cs_enter_held)
qed simp

lemma cs_exits:
  "k < n \<Longrightarrow> n < 2 ^ 32 \<Longrightarrow> cs_times k (ble_npl_hw_exit_critical checks me ctx) (cs_held token me n) = Some (cs_held token me (n - k))"
proof (induction k)
  case (Suc k)
  then have "n - k = Suc (n - Suc k)" by simp
  with Suc show ?case using cs_exit_held [of "n - Suc k" checks me ctx token] by simp
qed simp

section \<open>Properties\<close>


definition sem_demo :: "wait_pc \<Rightarrow> u16 \<Rightarrow> waker option \<Rightarrow> waker list \<Rightarrow> bool \<Rightarrow> nat \<Rightarrow> sem_sys" where
  "sem_demo pc n w ws permit k = \<lparr>ss_pc = pc, ss_sem = \<lparr>sem_count = n, sem_waker = w\<rparr>, ss_pending = ws,
     ss_plat = \<lparr>pl_clock = 0, pl_permit = (\<lambda>_. False)(5 := permit), pl_event = False\<rparr>, ss_released = k, ss_taken = 0\<rparr>"

lemma sem_demo_run:
  defines "R \<equiv> sem_step True (default_parker \<lparr>tg_std = True, tg_arm_none = False\<rparr>) 5 7 (\<lambda>_. ThreadWaker 5) None"
  shows "R\<^sup>*\<^sup>* (sem_start 0 \<lparr>pl_clock = 0, pl_permit = \<lambda>_. False, pl_event = False\<rparr>) (sem_demo Park 1 None [] True 1)"
proof -
  have "R (sem_demo Check1 0 None [] False 0) (sem_demo Register 0 None [] False 0)"
    using sem_step.fail1 [of "sem_demo Check1 0 None [] False 0"]
    by (simp add: R_def sem_demo_def try_take_def)
  moreover have "R (sem_demo Register 0 None [] False 0) (sem_demo Check2 0 (Some 7) [] False 0)"
    using sem_step.register [of "sem_demo Register 0 None [] False 0"] by (simp add: R_def sem_demo_def)
  moreover have "R (sem_demo Check2 0 (Some 7) [] False 0) (sem_demo Pump 0 (Some 7) [] False 0)"
    using sem_step.fail2 [of "sem_demo Check2 0 (Some 7) [] False 0"] by (simp add: R_def sem_demo_def try_take_def)
  moreover have "R (sem_demo Pump 0 (Some 7) [] False 0) (sem_demo Check3 0 (Some 7) [] False 0)"
    using sem_step.pump [of "sem_demo Pump 0 (Some 7) [] False 0"] by (simp add: R_def sem_demo_def)
  moreover have "R (sem_demo Check3 0 (Some 7) [] False 0) (sem_demo Park 0 (Some 7) [] False 0)"
    using sem_step.fail3 [of "sem_demo Check3 0 (Some 7) [] False 0"] by (simp add: R_def sem_demo_def try_take_def)
  moreover have "R (sem_demo Park 0 (Some 7) [] False 0) (sem_demo Park 1 None [7] False 1)"
    using sem_step.release [of True "sem_demo Park 0 (Some 7) [] False 0" "Some 7" "\<lparr>sem_count = 1, sem_waker = None\<rparr>"]
    by (simp add: R_def sem_demo_def sem_release_def rust_inc_def)
  moreover have "R (sem_demo Park 1 None [7] False 1) (sem_demo Park 1 None [] True 1)"
    using sem_step.deliver [of "sem_demo Park 1 None [7] False 1" "[]" 7 "[]" _ _ _ _ "\<lambda>_. ThreadWaker 5"]
    by (simp add: R_def sem_demo_def)
  moreover have "sem_start 0 \<lparr>pl_clock = 0, pl_permit = \<lambda>_. False, pl_event = False\<rparr> = sem_demo Check1 0 None [] False 0"
    by (simp add: sem_start_def sem_demo_def fun_upd_idem)
  ultimately show ?thesis by simp
qed




text \<open>
  C9: mutual exclusion. Whatever attempts and releases the contexts make, and in whatever
  order, at most one context holds the mutex, the counter of the mutex is the nesting depth
  of that context, nobody else's attempt succeeds, and nobody else's release changes it.
\<close>

theorem mutex_mutual_exclusion:
  assumes "(mutex_step checks)\<^sup>*\<^sup>* (\<lparr>mu_owner = 0, mu_count = 0\<rparr>, \<lambda>_. 0) (m, h)" and "h c \<noteq> 0"
  shows "mu_owner m = c \<and> h c = unat (mu_count m) \<and>
    (\<forall>d. d \<noteq> c \<longrightarrow> h d = 0 \<and> try_lock checks d m = Some (False, m) \<and> mutex_release d m = (NPL_EINVAL, m))"
proof -
  have "mutex_inv (m, h)"
    using assms(1)
  proof (induction rule: rtranclp_induct2)
    case refl
    show ?case by (simp add: mutex_inv_def)
  next
    case (step m1 h1 m2 h2)
    then show ?case using mutex_step_inv by blast
  qed
  moreover from this assms(2) have "mu_owner m = c"
    by (cases "mu_owner m = c") (auto simp: mutex_inv_def split: if_splits)
  ultimately show ?thesis using assms(2) by (auto simp: mutex_inv_def try_lock_def mutex_release_def split: if_splits)
qed

theorem mutex_mutual_exclusion_witness:
  "mu_owner \<lparr>mu_owner = 3, mu_count = 1\<rparr> = 3 \<and> try_lock True 4 \<lparr>mu_owner = 3, mu_count = 1\<rparr> = Some (False, \<lparr>mu_owner = 3, mu_count = 1\<rparr>)"
proof -
  have "mutex_step True (\<lparr>mu_owner = 0, mu_count = 0\<rparr>, \<lambda>_. 0) (\<lparr>mu_owner = 3, mu_count = 1\<rparr>, (\<lambda>_. 0)(3 := 1))"
    using mutex_step.lock [of 3 True "\<lambda>_. 0" "\<lparr>mu_owner = 0, mu_count = 0\<rparr>" True] by (simp add: try_lock_def)
  then have "(mutex_step True)\<^sup>*\<^sup>* (\<lparr>mu_owner = 0, mu_count = 0\<rparr>, \<lambda>_. 0) (\<lparr>mu_owner = 3, mu_count = 1\<rparr>, (\<lambda>_. 0)(3 := 1))"
    by blast
  from mutex_mutual_exclusion [OF this, of 3] show ?thesis by simp
qed


definition demo_env :: "nat wait_env" where
  "demo_env = \<lparr>we_now = id, we_from_millis = id, we_as_millis = id, we_ctx_id = 1, we_waker = 7,
     we_pump = (\<lambda>_. Some), we_park = (\<lambda>_ s. Some (Suc s))\<rparr>"


text \<open>
  Pump while pending. When a semaphore is empty and the deadline is ahead, and the HCI pump
  delivers the packet whose handler releases the semaphore, \<open>ble_npl_sem_pend\<close> returns OK
  with that token taken, and the parker is never reached: whatever it does, also nothing,
  the result is the same.
\<close>

lemma sem_pend_pump_ok:
  fixes st st1 :: "'a sync_state_scheme" and env s
  defines "reg \<equiv> set_sem s ((sems st s)\<lparr>sem_waker := Some (we_waker env)\<rparr>) st"
  assumes "sem_count (sems st s) = 0" and "tmo \<noteq> 0"
    and "deadline env tmo st \<noteq> None \<longrightarrow> we_now env st < the (deadline env tmo st)"
    and "we_pump env (we_waker env) reg = Some st1" and "sem_count (sems st1 s) \<noteq> 0"
  shows "ble_npl_sem_pend env s tmo st =
    Some (NPL_OK, set_sem s ((sems st1 s)\<lparr>sem_count := sem_count (sems st1 s) - 1\<rparr>) st1)"
proof -
  have id: "set_sem s (sems t s) t = t" for t :: "'a sync_state_scheme" by (simp add: set_sem_def)
  have take0: "try_take_at s t = Some (False, t)" if "sem_count (sems t s) = 0" for t :: "'a sync_state_scheme"
    using that id by (simp add: try_take_at_def try_take_def)
  have "try_take_at s reg = Some (False, reg)"
    by (rule take0) (simp add: reg_def set_sem_def assms(2))
  moreover have "try_take_at s st1 = Some (True, set_sem s ((sems st1 s)\<lparr>sem_count := sem_count (sems st1 s) - 1\<rparr>) st1)"
    using assms(6) by (simp add: try_take_at_def try_take_def word_gt_0)
  moreover have "\<not> expired env (deadline env tmo st) st"
    using assms(4) by (auto simp: expired_def split: option.splits)
  ultimately show ?thesis
    using assms(3,5) take0 [OF assms(2)]
    by (simp add: ble_npl_sem_pend_def wait_until.simps reg_def)
qed

definition sync_mem0 :: sync_state where
  "sync_mem0 = ev_state.extend ev_mem0 \<lparr>mutexes = \<lambda>_. \<lparr>mu_owner = 0, mu_count = 0\<rparr>, sems = \<lambda>_. \<lparr>sem_count = 0, sem_waker = None\<rparr>\<rparr>"



end
