(* ===== verification/Npl_Callout.thy ===== *)
theory Npl_Callout
  imports Npl_Sync
begin

text \<open>
  Callouts, the timers of the porting layer (\<open>nimble-rs/src/npl.rs\<close>, section "Callouts").
  Active callouts are an intrusive list sorted by deadline; firing one enqueues the event
  embedded in it. The embedded event of the callout at address \<open>co\<close> is the event at address
  \<open>co + 32\<close>, the offset \<open>repr(C)\<close> gives it on a 64-bit target (two pointers, an instant and a
  flag come before it).

  \<open>timers_inv st ts\<close> says that the list in memory is \<open>ts\<close>, sorted, and that exactly its members
  are flagged active. Resetting a callout is then a stable sorted insertion, stopping it a
  deletion, and firing takes the due prefix of the list.
\<close>

section \<open>State\<close>

record callout =
  co_next :: ptr
  co_deadline :: instant
  co_active :: bool
  co_evq :: ptr

record npl_state = sync_state +
  callouts :: "ptr \<Rightarrow> callout"
  timers_head :: ptr
  timers_waker :: "waker option"

definition co_event :: "ptr \<Rightarrow> ptr" where
  "co_event co = co + 32"

definition upd_callout :: "ptr \<Rightarrow> (callout \<Rightarrow> callout) \<Rightarrow> 'a npl_state_scheme \<Rightarrow> 'a npl_state_scheme" where
  "upd_callout co f st = st\<lparr>callouts := (callouts st)(co := f (callouts st co))\<rparr>"

section \<open>Operations\<close>

definition timers_unlink :: "ptr \<Rightarrow> 'a npl_state_scheme \<Rightarrow> 'a npl_state_scheme option" where
  "timers_unlink co st = do {
     found \<leftarrow> seek (\<lambda>p. co_next (callouts st p)) co NULL (timers_head st);
     Some (case found of
         None \<Rightarrow> st
       | Some prev \<Rightarrow>
           let next = co_next (callouts st co);
               st1 = (if prev = NULL then st\<lparr>timers_head := next\<rparr>
                      else upd_callout prev (\<lambda>c. c\<lparr>co_next := next\<rparr>) st)
           in upd_callout co (\<lambda>c. c\<lparr>co_next := NULL\<rparr>) st1)
   }"

definition ble_npl_callout_init ::
  "ptr \<Rightarrow> ptr \<Rightarrow> ptr option \<Rightarrow> ptr \<Rightarrow> 'a npl_state_scheme \<Rightarrow> c_int \<times> 'a npl_state_scheme" where
  "ble_npl_callout_init co evq func arg st =
     (0, upd_event (co_event co) (\<lambda>_. \<lparr>ev_next = NULL, ev_func = func, ev_arg = arg, ev_queued = False\<rparr>)
          (upd_callout co (\<lambda>_. \<lparr>co_next = NULL, co_deadline = 0, co_active = False, co_evq = evq\<rparr>) st))"

definition ble_npl_callout_reset ::
  "'a npl_state_scheme wait_env \<Rightarrow> ptr \<Rightarrow> u32 \<Rightarrow> 'a npl_state_scheme \<Rightarrow> (npl_error \<times> 'a npl_state_scheme) option" where
  "ble_npl_callout_reset env co ticks st = do {
     let dl = we_now env st + we_from_millis env (unat ticks);
     st1 \<leftarrow> (if co_active (callouts st co) then timers_unlink co st else Some st);
     let st2 = upd_callout co (\<lambda>c. c\<lparr>co_deadline := dl, co_active := True\<rparr>) st1;
     (prev, cur) \<leftarrow> seek_while (\<lambda>p. co_deadline (callouts st2 p) \<le> dl) (\<lambda>p. co_next (callouts st2 p)) NULL (timers_head st2);
     let st3 = upd_callout co (\<lambda>c. c\<lparr>co_next := cur\<rparr>) st2;
     let st4 = (if prev = NULL then st3\<lparr>timers_head := co\<rparr> else upd_callout prev (\<lambda>c. c\<lparr>co_next := co\<rparr>) st3);
     Some (NPL_OK, wake (timers_waker st4) (st4\<lparr>timers_waker := None\<rparr>))
   }"

definition ble_npl_callout_stop :: "ptr \<Rightarrow> 'a npl_state_scheme \<Rightarrow> 'a npl_state_scheme option" where
  "ble_npl_callout_stop co st = do {
     st2 \<leftarrow> (if co_active (callouts st co) then do {
         st1 \<leftarrow> timers_unlink co st;
         Some (upd_callout co (\<lambda>c. c\<lparr>co_active := False\<rparr>) st1)
       } else Some st);
     let evq = co_evq (callouts st2 co);
     if evq \<noteq> NULL then ble_npl_eventq_remove evq (co_event co) st2 else Some st2
   }"

definition ble_npl_callout_deinit :: "ptr \<Rightarrow> 'a npl_state_scheme \<Rightarrow> 'a npl_state_scheme option" where
  "ble_npl_callout_deinit co = ble_npl_callout_stop co"

definition ble_npl_callout_is_active :: "ptr \<Rightarrow> 'a npl_state_scheme \<Rightarrow> bool" where
  "ble_npl_callout_is_active co st = co_active (callouts st co)"

definition ble_npl_callout_get_ticks :: "(instant \<Rightarrow> nat) \<Rightarrow> ptr \<Rightarrow> 'a npl_state_scheme \<Rightarrow> u32" where
  "ble_npl_callout_get_ticks as_millis co st = of_nat (as_millis (co_deadline (callouts st co)))"

definition ble_npl_callout_remaining_ticks :: "(instant \<Rightarrow> nat) \<Rightarrow> ptr \<Rightarrow> u32 \<Rightarrow> 'a npl_state_scheme \<Rightarrow> u32" where
  "ble_npl_callout_remaining_ticks as_millis co now st =
     saturating_sub (of_nat (as_millis (co_deadline (callouts st co)))) now"

definition ble_npl_callout_set_arg :: "ptr \<Rightarrow> ptr \<Rightarrow> 'a npl_state_scheme \<Rightarrow> 'a npl_state_scheme" where
  "ble_npl_callout_set_arg co arg = upd_event (co_event co) (\<lambda>e. e\<lparr>ev_arg := arg\<rparr>)"

definition timers_poll_next_deadline :: "waker \<Rightarrow> 'a npl_state_scheme \<Rightarrow> instant option \<times> 'a npl_state_scheme" where
  "timers_poll_next_deadline w st =
     (let st1 = st\<lparr>timers_waker := Some w\<rparr>
      in (if timers_head st1 = NULL then None else Some (co_deadline (callouts st1 (timers_head st1))), st1))"

text \<open>The critical section of one round of \<open>timers_fire_due\<close>, with the clock reading \<open>now\<close>.\<close>

definition timers_pop_due :: "instant \<Rightarrow> 'a npl_state_scheme \<Rightarrow> ptr \<times> 'a npl_state_scheme" where
  "timers_pop_due now st =
     (let co = timers_head st
      in if co \<noteq> NULL \<and> co_deadline (callouts st co) \<le> now
         then (co, upd_callout co (\<lambda>c. c\<lparr>co_next := NULL, co_active := False\<rparr>)
                 (st\<lparr>timers_head := co_next (callouts st co)\<rparr>))
         else (NULL, st))"

definition timer_fire ::
  "(ptr \<Rightarrow> ptr \<Rightarrow> 'a npl_state_scheme \<Rightarrow> 'a npl_state_scheme) \<Rightarrow> ptr \<Rightarrow> 'a npl_state_scheme \<Rightarrow> 'a npl_state_scheme" where
  "timer_fire run co st =
     (let ev = co_event co; evq = co_evq (callouts st co)
      in if evq = NULL then ble_npl_event_run run ev st else ble_npl_eventq_put evq ev st)"

text \<open>
  The loop, with the clock of every round: round \<open>i\<close> reads \<open>clock i\<close>. A handler that runs
  inline may arm its callout again, so the loop may go on.
\<close>

partial_function (option) timers_fire_due ::
  "(ptr \<Rightarrow> ptr \<Rightarrow> 'a npl_state_scheme \<Rightarrow> 'a npl_state_scheme) \<Rightarrow> (nat \<Rightarrow> instant) \<Rightarrow> nat \<Rightarrow> 'a npl_state_scheme \<Rightarrow>
   'a npl_state_scheme option" where
  "timers_fire_due run clock i st =
     (let (co, st1) = timers_pop_due (clock i) st
      in if co = NULL then Some st1
         else timers_fire_due run clock (Suc i) (timer_fire run co st1))"

section \<open>What the timer list represents\<close>

definition timers_inv :: "'a npl_state_scheme \<Rightarrow> ptr list \<Rightarrow> bool" where
  "timers_inv st ts \<longleftrightarrow>
     chain (\<lambda>p. co_next (callouts st p)) (timers_head st) ts NULL \<and>
     sorted_wrt (\<lambda>a b. co_deadline (callouts st a) \<le> co_deadline (callouts st b)) ts \<and>
     (\<forall>co. co_active (callouts st co) \<longleftrightarrow> co \<in> set ts)"

text \<open>The abstract reset: behind every callout due at the same time or earlier.\<close>

definition insert_timer :: "(ptr \<Rightarrow> instant) \<Rightarrow> instant \<Rightarrow> ptr \<Rightarrow> ptr list \<Rightarrow> ptr list" where
  "insert_timer due d co ts = takeWhile (\<lambda>x. due x \<le> d) ts @ co # dropWhile (\<lambda>x. due x \<le> d) ts"

lemma upd_callout_simps [heap_simps]:
  "callouts (upd_callout co f st) = (callouts st)(co := f (callouts st co))"
  "timers_head (upd_callout co f st) = timers_head st"
  "timers_waker (upd_callout co f st) = timers_waker st"
  "events (upd_callout co f st) = events st"
  "eventqs (upd_callout co f st) = eventqs st"
  "woken (upd_callout co f st) = woken st"
  by (simp_all add: upd_callout_def)

lemma ev_ops_keep_timers [heap_simps]:
  "callouts (upd_event ev f st) = callouts st" "timers_head (upd_event ev f st) = timers_head st"
  "timers_waker (upd_event ev f st) = timers_waker st"
  "callouts (upd_eventq q g st) = callouts st" "timers_head (upd_eventq q g st) = timers_head st"
  "timers_waker (upd_eventq q g st) = timers_waker st"
  "callouts (wake w st) = callouts st" "timers_head (wake w st) = timers_head st"
  "timers_waker (wake w st) = timers_waker st"
  by (simp_all add: upd_event_def upd_eventq_def wake_def split: option.splits)

lemma evqs_inv_cong:
  "events st' = events st \<Longrightarrow> eventqs st' = eventqs st \<Longrightarrow> evqs_inv st' A = evqs_inv st A"
  by (simp add: evqs_inv_def evq_rep_def)

lemma timers_inv_cong:
  "callouts st' = callouts st \<Longrightarrow> timers_head st' = timers_head st \<Longrightarrow> timers_inv st' ts = timers_inv st ts"
  by (simp add: timers_inv_def)

lemma timers_invD:
  assumes "timers_inv st ts"
  shows "chain (\<lambda>p. co_next (callouts st p)) (timers_head st) ts NULL"
    and "sorted_wrt (\<lambda>a b. co_deadline (callouts st a) \<le> co_deadline (callouts st b)) ts"
    and "co_active (callouts st co) \<longleftrightarrow> co \<in> set ts"
    and "distinct ts" and "NULL \<notin> set ts"
  using assms chain_distinct chain_nonnull by (auto simp: timers_inv_def)

section \<open>Unlinking, resetting and stopping\<close>

text \<open>Nothing but the links of the timer list differs.\<close>

definition same_but_links :: "'a npl_state_scheme \<Rightarrow> 'a npl_state_scheme \<Rightarrow> bool" where
  "same_but_links st st' \<longleftrightarrow>
     (\<forall>p. co_deadline (callouts st' p) = co_deadline (callouts st p) \<and>
          co_active (callouts st' p) = co_active (callouts st p) \<and>
          co_evq (callouts st' p) = co_evq (callouts st p)) \<and>
     events st' = events st \<and> eventqs st' = eventqs st \<and> woken st' = woken st \<and>
     timers_waker st' = timers_waker st"

lemma timers_unlink_spec:
  assumes inv: "timers_inv st ts" and co: "co \<in> set ts"
  shows "\<exists>st'. timers_unlink co st = Some st' \<and> same_but_links st st' \<and>
     chain (\<lambda>p. co_next (callouts st' p)) (timers_head st') (removeAll co ts) NULL"
proof -
  obtain xs zs where ts: "ts = xs @ co # zs" using co by (auto simp: in_set_conv_decomp)
  let ?nx = "\<lambda>p. co_next (callouts st p)"
  note ch = timers_invD(1) [OF inv] and d = timers_invD(4) [OF inv] and nn = timers_invD(5) [OF inv]
  have "chain ?nx (timers_head st) xs co" using ch ts by auto
  then have seek: "seek ?nx co NULL (timers_head st) = Some (Some (if xs = [] then NULL else last xs))"
    using seek_found d nn ts by simp
  have rest: "removeAll co ts = xs @ zs" using d ts by simp
  note unlinked = chain_unlink [of ?nx "timers_head st" xs co zs]
  show ?thesis
  proof (cases "xs = []")
    case True
    let ?st' = "upd_callout co (\<lambda>c. c\<lparr>co_next := NULL\<rparr>) (st\<lparr>timers_head := ?nx co\<rparr>)"
    have "(\<lambda>p. co_next (callouts ?st' p)) = ?nx(co := NULL)" by (auto simp: heap_simps)
    with True seek unlinked ch ts rest show ?thesis
      by (simp add: timers_unlink_def same_but_links_def Let_def heap_simps)
  next
    case False
    then have "last xs \<noteq> NULL" using nn ts by (metis UnCI last_in_set set_append)
    let ?st' = "upd_callout co (\<lambda>c. c\<lparr>co_next := NULL\<rparr>) (upd_callout (last xs) (\<lambda>c. c\<lparr>co_next := ?nx co\<rparr>) st)"
    have "(\<lambda>p. co_next (callouts ?st' p)) = ?nx(last xs := ?nx co, co := NULL)" by (auto simp: heap_simps)
    with False \<open>last xs \<noteq> NULL\<close> seek unlinked ch ts rest show ?thesis
      by (simp add: timers_unlink_def same_but_links_def Let_def heap_simps)
  qed
qed

lemma insert_timer_set [simp]: "set (insert_timer due d co ts) = insert co (set ts)"
proof -
  have "set ts = set (takeWhile (\<lambda>x. due x \<le> d) ts) \<union> set (dropWhile (\<lambda>x. due x \<le> d) ts)"
    by (metis set_append takeWhile_dropWhile_id)
  then show ?thesis by (auto simp: insert_timer_def)
qed

lemma insert_timer_cong:
  "(\<And>x. x \<in> set ts \<Longrightarrow> due x = due' x) \<Longrightarrow> insert_timer due d co ts = insert_timer due' d co ts"
  by (simp add: insert_timer_def cong: takeWhile_cong dropWhile_cong)

lemma insert_timer_sorted:
  assumes "sorted_wrt (\<lambda>a b. due a \<le> due b) ts" and "due co = d"
  shows "sorted_wrt (\<lambda>a b. due a \<le> due b) (insert_timer due d co ts)"
  using assms
proof (induction ts)
  case (Cons t ts)
  show ?case
  proof (cases "due t \<le> d")
    case True
    with Cons have "sorted_wrt (\<lambda>a b. due a \<le> due b) (insert_timer due d co ts)" by simp
    moreover have "insert_timer due d co (t # ts) = t # insert_timer due d co ts"
      using True by (simp add: insert_timer_def)
    ultimately show ?thesis using Cons.prems True by auto
  next
    case False
    with Cons.prems show ?thesis by (force simp: insert_timer_def)
  qed
qed (simp add: insert_timer_def)

text \<open>The first step of a reset: the callout is off the list.\<close>

lemma reset_unlinked:
  assumes inv: "timers_inv st ts"
  shows "\<exists>st1. (if co_active (callouts st co) then timers_unlink co st else Some st) = Some st1 \<and>
     same_but_links st st1 \<and> chain (\<lambda>p. co_next (callouts st1 p)) (timers_head st1) (removeAll co ts) NULL"
proof (cases "co \<in> set ts")
  case True
  with timers_unlink_spec [OF inv True] timers_invD(3) [OF inv, of co] show ?thesis by simp
next
  case False
  with timers_invD(1,3) [OF inv] show ?thesis by (simp add: same_but_links_def removeAll_id)
qed

text \<open>The second step: linking it in at its place.\<close>

definition link_timer :: "instant \<Rightarrow> ptr \<Rightarrow> 'a npl_state_scheme \<Rightarrow> 'a npl_state_scheme option" where
  "link_timer dl co st1 = do {
     let st2 = upd_callout co (\<lambda>c. c\<lparr>co_deadline := dl, co_active := True\<rparr>) st1;
     (prev, cur) \<leftarrow> seek_while (\<lambda>p. co_deadline (callouts st2 p) \<le> dl) (\<lambda>p. co_next (callouts st2 p)) NULL (timers_head st2);
     let st3 = upd_callout co (\<lambda>c. c\<lparr>co_next := cur\<rparr>) st2;
     Some (if prev = NULL then st3\<lparr>timers_head := co\<rparr> else upd_callout prev (\<lambda>c. c\<lparr>co_next := co\<rparr>) st3)
   }"

lemma callout_reset_link:
  "ble_npl_callout_reset env co ticks st = do {
     st1 \<leftarrow> (if co_active (callouts st co) then timers_unlink co st else Some st);
     st4 \<leftarrow> link_timer (we_now env st + we_from_millis env (unat ticks)) co st1;
     Some (NPL_OK, wake (timers_waker st4) (st4\<lparr>timers_waker := None\<rparr>))
   }"
  by (auto simp: ble_npl_callout_reset_def link_timer_def Let_def split: Option.bind_splits)

lemma link_timer_spec:
  assumes ch: "chain (\<lambda>p. co_next (callouts st1 p)) (timers_head st1) us NULL"
    and co: "co \<notin> set us" "co \<noteq> NULL"
  shows "\<exists>st'. link_timer d co st1 = Some st' \<and>
     chain (\<lambda>p. co_next (callouts st' p)) (timers_head st') (insert_timer (\<lambda>p. co_deadline (callouts st1 p)) d co us) NULL \<and>
     (\<forall>p. co_deadline (callouts st' p) = (if p = co then d else co_deadline (callouts st1 p)) \<and>
          co_active (callouts st' p) = (p = co \<or> co_active (callouts st1 p)) \<and>
          co_evq (callouts st' p) = co_evq (callouts st1 p)) \<and>
     events st' = events st1 \<and> eventqs st' = eventqs st1 \<and> woken st' = woken st1 \<and> timers_waker st' = timers_waker st1"
proof -
  let ?st2 = "upd_callout co (\<lambda>c. c\<lparr>co_deadline := d, co_active := True\<rparr>) st1"
  let ?nx = "\<lambda>p. co_next (callouts st1 p)"
  let ?P = "\<lambda>p. co_deadline (callouts st1 p) \<le> d" and ?P2 = "\<lambda>p. co_deadline (callouts ?st2 p) \<le> d"
  let ?xs = "takeWhile ?P us" and ?zs = "dropWhile ?P us"
  have nx2: "(\<lambda>p. co_next (callouts ?st2 p)) = ?nx" by (auto simp: heap_simps)
  have cong: "takeWhile ?P2 us = ?xs" "dropWhile ?P2 us = ?zs"
    using co(1) by (auto simp: heap_simps intro!: takeWhile_cong dropWhile_cong)
  obtain r where seek: "seek_while ?P2 ?nx NULL (timers_head st1) = Some (if ?xs = [] then NULL else last ?xs, r)"
    and c1: "chain ?nx (timers_head st1) ?xs r" and c2: "chain ?nx r ?zs NULL"
    using seek_while_chain [OF ch, of ?P2 NULL, unfolded cong] by blast
  have split: "us = ?xs @ ?zs" by simp
  have dis: "distinct ?xs" "set ?xs \<inter> set ?zs = {}"
    using chain_distinct [OF ch] split by (metis distinct_append)+
  have fresh: "co \<notin> set ?xs \<union> set ?zs" using co(1) split by (metis set_append)
  note linked = chain_link [OF c1 c2 fresh co(2) dis]
  show ?thesis
  proof (cases "?xs = []")
    case True
    let ?st' = "(upd_callout co (\<lambda>c. c\<lparr>co_next := r\<rparr>) ?st2)\<lparr>timers_head := co\<rparr>"
    have "(\<lambda>p. co_next (callouts ?st' p)) = ?nx(co := r)" by (auto simp: heap_simps)
    moreover have "link_timer d co st1 = Some ?st'"
      using seek True by (simp add: link_timer_def nx2 Let_def) (simp add: heap_simps)
    ultimately show ?thesis using linked True
      by (intro exI [of _ ?st']) (simp add: insert_timer_def, simp add: heap_simps)
  next
    case False
    then have "last ?xs \<in> set ?xs" by simp
    then have last: "last ?xs \<noteq> NULL" "last ?xs \<noteq> co"
      using chain_nonnull [OF c1] fresh by (metis, blast)
    let ?st' = "upd_callout (last ?xs) (\<lambda>c. c\<lparr>co_next := co\<rparr>) (upd_callout co (\<lambda>c. c\<lparr>co_next := r\<rparr>) ?st2)"
    have "(\<lambda>p. co_next (callouts ?st' p)) = ?nx(co := r, last ?xs := co)" by (auto simp: heap_simps)
    moreover have "link_timer d co st1 = Some ?st'"
      using seek False last by (simp add: link_timer_def nx2 Let_def) (simp add: heap_simps)
    ultimately show ?thesis using linked False last
      by (intro exI [of _ ?st']) (simp add: insert_timer_def, simp add: heap_simps)
  qed
qed

lemma callout_reset_refines:
  fixes env ticks
  assumes inv: "timers_inv st ts" and nn: "co \<noteq> NULL"
  defines "d \<equiv> we_now env st + we_from_millis env (unat ticks)"
  shows "\<exists>st'. ble_npl_callout_reset env co ticks st = Some (NPL_OK, st') \<and>
     timers_inv st' (insert_timer (\<lambda>p. co_deadline (callouts st p)) d co (removeAll co ts)) \<and>
     (\<forall>p. co_deadline (callouts st' p) = (if p = co then d else co_deadline (callouts st p)) \<and>
          co_evq (callouts st' p) = co_evq (callouts st p)) \<and>
     events st' = events st \<and> eventqs st' = eventqs st \<and> timers_waker st' = None \<and>
     woken st' = woken st @ (case timers_waker st of None \<Rightarrow> [] | Some w \<Rightarrow> [w])"
proof -
  let ?due = "\<lambda>p. co_deadline (callouts st p)" and ?us = "removeAll co ts"
  obtain st1 where st1: "(if co_active (callouts st co) then timers_unlink co st else Some st) = Some st1"
    and same: "same_but_links st st1" and ch: "chain (\<lambda>p. co_next (callouts st1 p)) (timers_head st1) ?us NULL"
    using reset_unlinked [OF inv] by blast
  have due: "(\<lambda>p. co_deadline (callouts st1 p)) = ?due" using same by (simp add: same_but_links_def)
  obtain st4 where st4: "link_timer d co st1 = Some st4"
    and ch4: "chain (\<lambda>p. co_next (callouts st4 p)) (timers_head st4) (insert_timer ?due d co ?us) NULL"
    and dl4: "\<And>p. co_deadline (callouts st4 p) = (if p = co then d else ?due p)"
    and act4: "\<And>p. co_active (callouts st4 p) = (p = co \<or> co_active (callouts st1 p))"
    and evq4: "\<And>p. co_evq (callouts st4 p) = co_evq (callouts st1 p)"
    and rest4: "events st4 = events st1" "eventqs st4 = eventqs st1" "woken st4 = woken st1" "timers_waker st4 = timers_waker st1"
    using link_timer_spec [OF ch _ nn, of d] unfolding due by (auto simp: fun_cong [OF due])
  have "sorted_wrt (\<lambda>a b. ?due a \<le> ?due b) ?us"
    using timers_invD(2) [OF inv] by (simp add: removeAll_filter_not_eq sorted_wrt_filter)
  then have "sorted_wrt (\<lambda>a b. co_deadline (callouts st4 a) \<le> co_deadline (callouts st4 b)) ?us"
    by (rule sorted_wrt_mono_rel [rotated]) (auto simp: dl4)
  then have "sorted_wrt (\<lambda>a b. co_deadline (callouts st4 a) \<le> co_deadline (callouts st4 b))
      (insert_timer (\<lambda>p. co_deadline (callouts st4 p)) d co ?us)"
    by (rule insert_timer_sorted) (simp add: dl4)
  moreover have "insert_timer (\<lambda>p. co_deadline (callouts st4 p)) d co ?us = insert_timer ?due d co ?us"
    by (rule insert_timer_cong) (simp add: dl4)
  moreover have "co_active (callouts st4 p) \<longleftrightarrow> p \<in> set (insert_timer ?due d co ?us)" for p
    using timers_invD(3) [OF inv, of p] same by (auto simp: act4 same_but_links_def)
  ultimately have "timers_inv st4 (insert_timer ?due d co ?us)" using ch4 by (simp add: timers_inv_def)
  then have "timers_inv (wake (timers_waker st4) (st4\<lparr>timers_waker := None\<rparr>)) (insert_timer ?due d co ?us)"
    by (subst timers_inv_cong [of _ st4]) (simp_all add: heap_simps)
  then show ?thesis
    using st1 st4 same rest4 evq4
    by (simp add: callout_reset_link d_def [symmetric] heap_simps dl4 same_but_links_def)
qed

lemma remove_keeps_timers:
  assumes "ble_npl_eventq_remove q ev st = Some st'"
  shows "callouts st' = callouts st" and "timers_head st' = timers_head st" and "timers_waker st' = timers_waker st"
    and "\<And>r. eq_init_tag (eventqs st' r) = eq_init_tag (eventqs st r)" and "woken st' = woken st"
  using assms
  by (auto simp: ble_npl_eventq_remove_def Let_def heap_simps bind_eq_Some_conv split: if_splits option.splits)

text \<open>The critical section of a stop.\<close>

definition stop_unlink :: "ptr \<Rightarrow> 'a npl_state_scheme \<Rightarrow> 'a npl_state_scheme option" where
  "stop_unlink co st =
     (if co_active (callouts st co) then do {
        st1 \<leftarrow> timers_unlink co st;
        Some (upd_callout co (\<lambda>c. c\<lparr>co_active := False\<rparr>) st1)
      } else Some st)"

lemma stop_unlink_spec:
  assumes inv: "timers_inv st ts"
  shows "\<exists>st2. stop_unlink co st = Some st2 \<and> timers_inv st2 (removeAll co ts) \<and>
     co_evq (callouts st2 co) = co_evq (callouts st co) \<and> events st2 = events st \<and> eventqs st2 = eventqs st"
proof (cases "co \<in> set ts")
  case False
  with inv timers_invD(3) [OF inv, of co] show ?thesis by (simp add: stop_unlink_def removeAll_id)
next
  case True
  obtain st1 where st1: "timers_unlink co st = Some st1" and same: "same_but_links st st1"
    and ch: "chain (\<lambda>p. co_next (callouts st1 p)) (timers_head st1) (removeAll co ts) NULL"
    using timers_unlink_spec [OF inv True] by blast
  let ?st2 = "upd_callout co (\<lambda>c. c\<lparr>co_active := False\<rparr>) st1"
  have "(\<lambda>p. co_next (callouts ?st2 p)) = (\<lambda>p. co_next (callouts st1 p))"
    and dl: "\<And>p. co_deadline (callouts ?st2 p) = co_deadline (callouts st p)"
    and "\<And>p. co_active (callouts ?st2 p) \<longleftrightarrow> p \<in> set (removeAll co ts)"
    and "timers_head ?st2 = timers_head st1"
    using same timers_invD(3) [OF inv] by (auto simp: heap_simps same_but_links_def)
  with ch have "timers_inv ?st2 (removeAll co ts)"
    using timers_invD(2) [OF inv] by (simp add: timers_inv_def removeAll_filter_not_eq sorted_wrt_filter)
  moreover have "co_evq (callouts ?st2 co) = co_evq (callouts st co)" "events ?st2 = events st" "eventqs ?st2 = eventqs st"
    using same by (simp_all add: heap_simps same_but_links_def)
  ultimately show ?thesis using st1 timers_invD(3) [OF inv, of co] True by (auto simp: stop_unlink_def)
qed

lemma callout_stop_refines:
  fixes co
  assumes inv: "timers_inv st ts" and qinv: "evqs_inv st A"
  defines "q \<equiv> co_evq (callouts st co)"
  shows "\<exists>st'. ble_npl_callout_stop co st = Some st' \<and> timers_inv st' (removeAll co ts) \<and>
     evqs_inv st' (if q = NULL then A else A(q := removeAll (co_event co) (A q))) \<and>
     (\<forall>p. ev_queued (events st' p) \<longleftrightarrow>
        ev_queued (events st p) \<and> \<not> (q \<noteq> NULL \<and> p = co_event co \<and> co_event co \<in> set (A q)))"
proof -
  obtain st2 where st2: "stop_unlink co st = Some st2" and inv2: "timers_inv st2 (removeAll co ts)"
    and q: "co_evq (callouts st2 co) = q" and ev2: "events st2 = events st" "eventqs st2 = eventqs st"
    using stop_unlink_spec [OF inv] q_def by blast
  have stop: "ble_npl_callout_stop co st = (if q \<noteq> NULL then ble_npl_eventq_remove q (co_event co) st2 else Some st2)"
    unfolding ble_npl_callout_stop_def stop_unlink_def [symmetric] st2 by (simp add: q)
  have qinv2: "evqs_inv st2 A" using qinv evqs_inv_cong [OF ev2] by simp
  show ?thesis
  proof (cases "q = NULL")
    case True
    with stop inv2 qinv2 ev2 show ?thesis by simp
  next
    case False
    obtain st' where rm: "ble_npl_eventq_remove q (co_event co) st2 = Some st'"
      and inv': "evqs_inv st' (A(q := removeAll (co_event co) (A q)))"
      and qd: "\<forall>p. ev_queued (events st' p) \<longleftrightarrow> ev_queued (events st2 p) \<and> \<not> (p = co_event co \<and> co_event co \<in> set (A q))"
      using remove_refines [OF qinv2] by blast
    have "timers_inv st' (removeAll co ts)"
      using timers_inv_cong [OF remove_keeps_timers(1,2) [OF rm]] inv2 by simp
    with False stop rm inv' qd ev2 show ?thesis by simp
  qed
qed

section \<open>Firing\<close>

text \<open>The callouts that fire, in the order of the list, with the clock of each round.\<close>

primrec due_prefix :: "(ptr \<Rightarrow> instant) \<Rightarrow> (nat \<Rightarrow> instant) \<Rightarrow> nat \<Rightarrow> ptr list \<Rightarrow> ptr list" where
  "due_prefix due clock i [] = []"
| "due_prefix due clock i (t # ts) = (if due t \<le> clock i then t # due_prefix due clock (Suc i) ts else [])"

definition fired_into :: "(ptr \<Rightarrow> ptr) \<Rightarrow> ptr list \<Rightarrow> (ptr \<Rightarrow> ptr list) \<Rightarrow> ptr \<Rightarrow> ptr list" where
  "fired_into evq fired A q = A q @ map co_event (filter (\<lambda>co. evq co = q) fired)"

lemma put_keeps_timers [heap_simps]:
  "callouts (ble_npl_eventq_put q ev st) = callouts st" "timers_head (ble_npl_eventq_put q ev st) = timers_head st"
  "timers_waker (ble_npl_eventq_put q ev st) = timers_waker st"
  "eq_init_tag (eventqs (ble_npl_eventq_put q ev st) r) = eq_init_tag (eventqs st r)"
  by (auto simp: ble_npl_eventq_put_def Let_def heap_simps)

lemma pop_due_refines:
  assumes "timers_inv st (t # ts)" and "co_deadline (callouts st t) \<le> now"
  shows "fst (timers_pop_due now st) = t" and "t \<noteq> NULL"
    and "timers_inv (snd (timers_pop_due now st)) ts"
    and "\<And>p. co_deadline (callouts (snd (timers_pop_due now st)) p) = co_deadline (callouts st p)"
    and "\<And>p. co_evq (callouts (snd (timers_pop_due now st)) p) = co_evq (callouts st p)"
    and "events (snd (timers_pop_due now st)) = events st"
    and "eventqs (snd (timers_pop_due now st)) = eventqs st"
proof -
  note ch = timers_invD(1) [OF assms(1)] and d = timers_invD(4) [OF assms(1)]
  let ?st' = "upd_callout t (\<lambda>c. c\<lparr>co_next := NULL, co_active := False\<rparr>) (st\<lparr>timers_head := co_next (callouts st t)\<rparr>)"
  have hd: "timers_head st = t" and nn: "t \<noteq> NULL" using ch by auto
  have pop: "timers_pop_due now st = (t, ?st')" using hd nn assms(2) by (simp add: timers_pop_due_def)
  have nx: "(\<lambda>p. co_next (callouts ?st' p)) = (\<lambda>p. co_next (callouts st p))(t := NULL)" by (auto simp: heap_simps)
  have dl: "co_deadline (callouts ?st' p) = co_deadline (callouts st p)" for p by (simp add: heap_simps)
  have "chain (\<lambda>p. co_next (callouts ?st' p)) (timers_head ?st') ts NULL"
    unfolding nx using ch d by (simp add: heap_simps)
  moreover have "co_active (callouts ?st' p) \<longleftrightarrow> p \<in> set ts" for p
    using timers_invD(3) [OF assms(1), of p] d by (auto simp: heap_simps)
  ultimately have "timers_inv ?st' ts" using timers_invD(2) [OF assms(1)] by (simp add: timers_inv_def dl)
  then show "timers_inv (snd (timers_pop_due now st)) ts" by (simp add: pop)
  show "fst (timers_pop_due now st) = t" "t \<noteq> NULL"
    "\<And>p. co_deadline (callouts (snd (timers_pop_due now st)) p) = co_deadline (callouts st p)"
    "\<And>p. co_evq (callouts (snd (timers_pop_due now st)) p) = co_evq (callouts st p)"
    "events (snd (timers_pop_due now st)) = events st"
    "eventqs (snd (timers_pop_due now st)) = eventqs st"
    using nn by (simp_all add: pop heap_simps)
qed

lemma pop_due_none:
  assumes "timers_inv st ts" and "ts = [] \<or> \<not> co_deadline (callouts st (hd ts)) \<le> now"
  shows "timers_pop_due now st = (NULL, st)"
  using timers_invD(1) [OF assms(1)] assms(2) by (cases ts) (auto simp: timers_pop_due_def)

lemma co_event_simps [simp]: "co_event a = co_event b \<longleftrightarrow> a = b" "co_event a \<noteq> NULL"
  by (simp_all add: co_event_def)

lemma fired_into_Nil [simp]: "fired_into evq [] A = A"
  by (simp add: fired_into_def fun_eq_iff)

lemma fire_due_refines:
  assumes "timers_inv st ts" and "evqs_inv st A"
    and "\<And>co. co \<in> set ts \<Longrightarrow> co_evq (callouts st co) \<noteq> NULL \<and>
      eq_init_tag (eventqs st (co_evq (callouts st co))) \<noteq> NULL \<and> \<not> ev_queued (events st (co_event co))"
  shows "\<exists>st'. timers_fire_due run clock i st = Some st' \<and>
     timers_inv st' (drop (length (due_prefix (\<lambda>p. co_deadline (callouts st p)) clock i ts)) ts) \<and>
     evqs_inv st' (fired_into (\<lambda>p. co_evq (callouts st p)) (due_prefix (\<lambda>p. co_deadline (callouts st p)) clock i ts) A) \<and>
     (\<forall>p. co_deadline (callouts st' p) = co_deadline (callouts st p))"
  using assms
proof (induction ts arbitrary: st A i)
  case Nil
  then show ?case
    by (subst timers_fire_due.simps) (simp add: pop_due_none)
next
  case (Cons t ts)
  let ?due = "\<lambda>p. co_deadline (callouts st p)" and ?evq = "\<lambda>p. co_evq (callouts st p)"
  show ?case
  proof (cases "?due t \<le> clock i")
    case False
    with Cons.prems pop_due_none [OF Cons.prems(1), of "clock i"] show ?thesis
      by (subst timers_fire_due.simps) simp
  next
    case True
    note pop = pop_due_refines [OF Cons.prems(1) True]
    let ?st1 = "snd (timers_pop_due (clock i) st)"
    have ready: "?evq t \<noteq> NULL" "eq_init_tag (eventqs st (?evq t)) \<noteq> NULL" "\<not> ev_queued (events st (co_event t))"
      using Cons.prems(3) by auto
    let ?st2 = "ble_npl_eventq_put (?evq t) (co_event t) ?st1"
    have fire: "timer_fire run t ?st1 = ?st2" using ready(1) by (simp add: timer_fire_def pop Let_def)
    have acc: "accepts ?st1 (?evq t) (co_event t)" using ready by (simp add: accepts_def pop)
    have inv2: "timers_inv ?st2 ts" using timers_inv_cong [of ?st2 ?st1] pop(3) by (simp add: heap_simps)
    have qinv2: "evqs_inv ?st2 (A(?evq t := A (?evq t) @ [co_event t]))"
      using put_refines [of ?st1 A "co_event t" "?evq t"] Cons.prems(2) acc evqs_inv_cong [OF pop(6,7)]
      by (simp add: put_spec_def)
    have t: "t \<notin> set ts" using timers_invD(4) [OF Cons.prems(1)] by simp
    have "co_evq (callouts ?st2 co) \<noteq> NULL \<and> eq_init_tag (eventqs ?st2 (co_evq (callouts ?st2 co))) \<noteq> NULL \<and>
        \<not> ev_queued (events ?st2 (co_event co))" if "co \<in> set ts" for co
      using Cons.prems(3) [of co] that t by (auto simp: heap_simps pop put_queued [OF acc])
    from Cons.IH [OF inv2 qinv2 this, of "Suc i"]
    have "\<exists>st'. timers_fire_due run clock (Suc i) ?st2 = Some st' \<and>
       timers_inv st' (drop (length (due_prefix ?due clock (Suc i) ts)) ts) \<and>
       evqs_inv st' (fired_into ?evq (due_prefix ?due clock (Suc i) ts) (A(?evq t := A (?evq t) @ [co_event t]))) \<and>
       (\<forall>p. co_deadline (callouts st' p) = ?due p)"
      by (simp add: heap_simps pop fun_upd_def)
    moreover have "fired_into ?evq us (A(?evq t := A (?evq t) @ [co_event t])) = fired_into ?evq (t # us) A" for us
      by (auto simp: fired_into_def fun_eq_iff)
    moreover have "timers_fire_due run clock i st = timers_fire_due run clock (Suc i) ?st2"
      using pop(1,2) fire by (subst timers_fire_due.simps) (simp add: case_prod_beta)
    ultimately show ?thesis using True by simp
  qed
qed

lemma due_prefix_take: "due_prefix due clock i ts = take (length (due_prefix due clock i ts)) ts"
  by (induction ts arbitrary: i) auto

lemma due_prefix_all_due:
  assumes "sorted_wrt (\<lambda>a b. due a \<le> due b) ts" and "\<And>j. j \<ge> i \<Longrightarrow> clock j \<ge> now" and "co \<in> set ts" and "due co \<le> now"
  shows "co \<in> set (due_prefix due clock i ts)"
  using assms
proof (induction ts arbitrary: i)
  case (Cons t ts)
  then have "due t \<le> now" by auto
  moreover have "now \<le> clock i" using Cons.prems(2) by simp
  ultimately have "due t \<le> clock i" by simp
  with Cons show ?case by auto
qed simp

section \<open>Properties\<close>

text \<open>
  C18: arming a callout returns, puts it on the timer list behind every callout that is due no
  later and before every one that is due later, wherever it was before, keeps the list sorted,
  and wakes the task that sleeps on the earliest deadline; queues and events are not touched.
\<close>

theorem callout_reset_correct:
  assumes "timers_inv st ts" and "co \<noteq> NULL"
  shows "\<exists>st'. ble_npl_callout_reset env co ticks st = Some (NPL_OK, st') \<and>
     timers_inv st' (insert_timer (\<lambda>p. co_deadline (callouts st p)) (we_now env st + we_from_millis env (unat ticks))
       co (removeAll co ts)) \<and>
     ble_npl_callout_is_active co st' \<and>
     co_deadline (callouts st' co) = we_now env st + we_from_millis env (unat ticks) \<and>
     (\<forall>p. p \<noteq> co \<longrightarrow> co_deadline (callouts st' p) = co_deadline (callouts st p)) \<and>
     events st' = events st \<and> eventqs st' = eventqs st \<and> timers_waker st' = None \<and>
     woken st' = woken st @ (case timers_waker st of None \<Rightarrow> [] | Some w \<Rightarrow> [w])"
proof -
  obtain st' where "ble_npl_callout_reset env co ticks st = Some (NPL_OK, st')"
    and inv: "timers_inv st' (insert_timer (\<lambda>p. co_deadline (callouts st p)) (we_now env st + we_from_millis env (unat ticks))
       co (removeAll co ts))"
    and "\<forall>p. co_deadline (callouts st' p) =
        (if p = co then we_now env st + we_from_millis env (unat ticks) else co_deadline (callouts st p)) \<and>
        co_evq (callouts st' p) = co_evq (callouts st p)"
    and "events st' = events st" "eventqs st' = eventqs st" "timers_waker st' = None"
      "woken st' = woken st @ (case timers_waker st of None \<Rightarrow> [] | Some w \<Rightarrow> [w])"
    using callout_reset_refines [OF assms] by blast
  then show ?thesis using timers_invD(3) [OF inv, of co] by (simp add: ble_npl_callout_is_active_def)
qed

definition npl_mem0 :: npl_state where
  "npl_mem0 = sync_state.extend sync_mem0 \<lparr>callouts = \<lambda>_. \<lparr>co_next = NULL, co_deadline = 0, co_active = False, co_evq = NULL\<rparr>,
     timers_head = NULL, timers_waker = None\<rparr>"

definition npl_demo_env :: "npl_state wait_env" where
  "npl_demo_env = \<lparr>we_now = (\<lambda>_. 1000), we_from_millis = id, we_as_millis = id, we_ctx_id = 1, we_waker = 7,
     we_pump = (\<lambda>_. Some), we_park = (\<lambda>_. Some)\<rparr>"

lemma timers_inv_mem0: "timers_inv npl_mem0 []"
  by (simp add: timers_inv_def npl_mem0_def sync_state.defs)

lemma evqs_inv_npl_mem0: "evqs_inv npl_mem0 (\<lambda>_. [])"
  using evqs_inv_mem0 by (simp add: evqs_inv_def evq_rep_def npl_mem0_def sync_state.defs sync_mem0_def ev_state.defs)

theorem callout_reset_correct_witness:
  "\<exists>st'. ble_npl_callout_reset npl_demo_env 64 30 npl_mem0 = Some (NPL_OK, st') \<and> timers_inv st' [64] \<and>
     co_deadline (callouts st' 64) = 1030"
  using callout_reset_correct [OF timers_inv_mem0, of 64 npl_demo_env 30]
  by (auto simp: npl_demo_env_def insert_timer_def)

text \<open>
  stopping a callout returns, takes it off the timer list and cancels its event when that is
  already waiting on the callout's queue; every other timer and event stays, in order. When the
  event can only be on that queue, it is not queued afterwards.
\<close>

theorem callout_stop_correct:
  assumes "timers_inv st ts" and "evqs_inv st A" and "co_evq (callouts st co) = q" and "q \<noteq> NULL"
  shows "\<exists>st'. ble_npl_callout_stop co st = Some st' \<and> timers_inv st' (removeAll co ts) \<and>
     \<not> ble_npl_callout_is_active co st' \<and>
     evqs_inv st' (A(q := removeAll (co_event co) (A q))) \<and>
     ((ev_queued (events st (co_event co)) \<longrightarrow> co_event co \<in> set (A q)) \<longrightarrow>
       \<not> ble_npl_event_is_queued (co_event co) st') \<and>
     (\<forall>p. p \<noteq> co_event co \<longrightarrow> ev_queued (events st' p) = ev_queued (events st p))"
proof -
  obtain st' where stop: "ble_npl_callout_stop co st = Some st'" and inv: "timers_inv st' (removeAll co ts)"
    and "evqs_inv st' (if q = NULL then A else A(q := removeAll (co_event co) (A q)))"
    and "\<forall>p. ev_queued (events st' p) \<longleftrightarrow>
        ev_queued (events st p) \<and> \<not> (q \<noteq> NULL \<and> p = co_event co \<and> co_event co \<in> set (A q))"
    using callout_stop_refines [OF assms(1,2), of co] unfolding assms(3) by blast
  with assms(4) timers_invD(3) [OF inv, of co] show ?thesis
    by (auto simp: ble_npl_callout_is_active_def ble_npl_event_is_queued_def)
qed

theorem callout_stop_correct_witness:
  "\<exists>st'. ble_npl_callout_stop 64 (snd (ble_npl_callout_init 64 1000 None 0 npl_mem0)) = Some st' \<and> timers_inv st' []"
proof -
  let ?st = "snd (ble_npl_callout_init 64 1000 None 0 npl_mem0)"
  have "timers_inv ?st []"
    by (simp add: timers_inv_def ble_npl_callout_init_def npl_mem0_def sync_state.defs heap_simps)
  moreover have "evqs_inv ?st (\<lambda>_. [])"
    using evqs_inv_npl_mem0 by (simp add: evqs_inv_def evq_rep_def ble_npl_callout_init_def heap_simps)
  moreover have "co_evq (callouts ?st 64) = 1000" by (simp add: ble_npl_callout_init_def heap_simps)
  ultimately have "\<exists>st'. ble_npl_callout_stop 64 ?st = Some st' \<and> timers_inv st' (removeAll 64 [])"
    using callout_stop_correct [of ?st "[]" "\<lambda>_. []" 64 1000] by auto
  then show ?thesis by simp
qed

text \<open>A state with one callout, armed at 1000 for 30 milliseconds.\<close>

lemma armed_demo:
  "\<exists>st :: npl_state. timers_inv st [64] \<and> evqs_inv st (\<lambda>_. []) \<and> co_evq (callouts st 64) = 1000 \<and>
     co_deadline (callouts st 64) = 1030 \<and> eq_init_tag (eventqs st 1000) = 1000 \<and> \<not> ev_queued (events st (co_event 64))"
proof -
  let ?st0 = "snd (ble_npl_callout_init 64 1000 None 0 (ble_npl_eventq_init 1000 npl_mem0))"
  have nn: "(64 :: ptr) \<noteq> NULL" by simp
  have t0: "timers_inv ?st0 []"
    by (simp add: timers_inv_def ble_npl_callout_init_def ble_npl_eventq_init_def npl_mem0_def sync_state.defs heap_simps)
  have q0: "evqs_inv ?st0 (\<lambda>_. [])"
    using evqs_inv_npl_mem0
    by (simp add: evqs_inv_def evq_rep_def ble_npl_callout_init_def ble_npl_eventq_init_def heap_simps)
  have now30: "we_now npl_demo_env ?st0 + we_from_millis npl_demo_env (unat (30 :: u32)) = 1030"
    by (simp add: npl_demo_env_def)
  obtain st :: npl_state where st: "timers_inv st (insert_timer (\<lambda>p. co_deadline (callouts ?st0 p)) 1030 64 (removeAll 64 []))"
    "\<forall>p. co_deadline (callouts st p) = (if p = 64 then 1030 else co_deadline (callouts ?st0 p)) \<and>
        co_evq (callouts st p) = co_evq (callouts ?st0 p)" "events st = events ?st0" "eventqs st = eventqs ?st0"
    using callout_reset_refines [OF t0 nn, of npl_demo_env 30, unfolded now30] by blast
  from st(1) have "timers_inv st [64]" by (simp add: insert_timer_def)
  moreover have "evqs_inv st (\<lambda>_. [])" using q0 evqs_inv_cong [OF st(3,4)] by simp
  moreover have "co_evq (callouts st 64) = 1000" "co_deadline (callouts st 64) = 1030"
    "eq_init_tag (eventqs st 1000) = 1000" "\<not> ev_queued (events st (co_event 64))"
    using st(2-4) by (simp_all add: ble_npl_callout_init_def ble_npl_eventq_init_def heap_simps)
  ultimately show ?thesis by blast
qed



end
