(* ===== verification/Port.thy ===== *)
theory Port
  imports Npl_Callout
begin

text \<open>
  The port layer (\<open>nimble-rs/src/port.rs\<close>): bringing the C host up and down, and the two async
  loops that replace its OS task. An async loop is modelled by one poll: the loop runs until
  it is pending, and the state it leaves then is what the executor sees; the waker \<open>w\<close> is that
  of the polling task. The C functions of the host, and the handlers of events, are outside
  the repository; they are arguments and may change the state in any way the theorems allow.
\<close>

section \<open>Bringing the host up and down\<close>

record 's port_c =
  pc_os_mempool_module_init :: "'s \<Rightarrow> 's"
  pc_ble_buf_alloc :: "'s \<Rightarrow> c_int \<times> 's"
  pc_ble_buf_free :: "'s \<Rightarrow> 's"
  pc_ble_transport_init :: "'s \<Rightarrow> 's"
  pc_os_msys_init :: "'s \<Rightarrow> 's"
  pc_ble_transport_hs_init :: "'s \<Rightarrow> 's"
  pc_ble_transport_ll_init :: "'s \<Rightarrow> 's"
  pc_ble_hs_deinit :: "'s \<Rightarrow> 's"
  pc_ble_transport_ll_deinit :: "'s \<Rightarrow> 's"
  pc_ble_transport_deinit :: "'s \<Rightarrow> 's"

definition nimble_port_get_dflt_eventq :: "ptr \<Rightarrow> ptr" where
  "nimble_port_get_dflt_eventq dflt = dflt"

definition port_init :: "'a npl_state_scheme port_c \<Rightarrow> ptr \<Rightarrow> 'a npl_state_scheme \<Rightarrow> (unit + unit) \<times> 'a npl_state_scheme" where
  "port_init c dflt st =
     (let st1 = pc_os_mempool_module_init c st;
          (rc, st2) = pc_ble_buf_alloc c st1
      in if rc \<noteq> 0 then (Inl (), pc_ble_buf_free c st2)
         else
           let st3 = pc_ble_transport_init c st2;
               st4 = ble_npl_eventq_init dflt st3;
               st5 = pc_os_msys_init c st4;
               st6 = pc_ble_transport_hs_init c st5;
               st7 = pc_ble_transport_ll_init c st6
           in (Inr (), st7))"

definition port_deinit :: "'a npl_state_scheme port_c \<Rightarrow> ptr \<Rightarrow> 'a npl_state_scheme \<Rightarrow> 'a npl_state_scheme" where
  "port_deinit c dflt st =
     (let st1 = ble_npl_eventq_deinit dflt st;
          st2 = pc_ble_hs_deinit c st1;
          st3 = pc_ble_transport_ll_deinit c st2;
          st4 = pc_ble_transport_deinit c st3
      in pc_ble_buf_free c st4)"

section \<open>The event loop\<close>

partial_function (option) run_events ::
  "(ptr \<Rightarrow> ptr \<Rightarrow> 'a ev_state_scheme \<Rightarrow> 'a ev_state_scheme) \<Rightarrow> ptr \<Rightarrow> waker \<Rightarrow> 'a ev_state_scheme \<Rightarrow> 'a ev_state_scheme option" where
  "run_events run dflt w st =
     (case eventq_poll dflt w st of
        (None, st1) \<Rightarrow> Some st1
      | (Some ev, st1) \<Rightarrow> run_events run dflt w (if ev \<noteq> NULL then ble_npl_event_run run ev st1 else st1))"

partial_function (option) drain_events ::
  "(ptr \<Rightarrow> ptr \<Rightarrow> 'a ev_state_scheme \<Rightarrow> 'a ev_state_scheme) \<Rightarrow> ptr \<Rightarrow> 'a ev_state_scheme \<Rightarrow> 'a ev_state_scheme option" where
  "drain_events run dflt st =
     (let (ev, st1) = eventq_try_pop_raw dflt st
      in if ev = NULL then Some st1 else drain_events run dflt (ble_npl_event_run run ev st1))"

section \<open>The timer loop\<close>

text \<open>
  Round \<open>i\<close> of the loop reads the clock as \<open>clock i 0\<close> and, when it fires timers, as
  \<open>clock i 1\<close>, \<open>clock i 2\<close> and so on. \<open>tpoll d w\<close> polls an embassy timer for deadline \<open>d\<close>.
\<close>

partial_function (option) run_timers ::
  "(ptr \<Rightarrow> ptr \<Rightarrow> 'a npl_state_scheme \<Rightarrow> 'a npl_state_scheme) \<Rightarrow>
   (instant \<Rightarrow> waker \<Rightarrow> 'a npl_state_scheme \<Rightarrow> bool \<times> 'a npl_state_scheme) \<Rightarrow> (nat \<Rightarrow> nat \<Rightarrow> instant) \<Rightarrow> waker \<Rightarrow> nat \<Rightarrow>
   'a npl_state_scheme \<Rightarrow> 'a npl_state_scheme option" where
  "run_timers run tpoll clock w i st =
     (case timers_poll_next_deadline w st of
        (None, st1) \<Rightarrow> Some st1
      | (Some d, st1) \<Rightarrow>
          (if clock i 0 \<ge> d then do {
             st2 \<leftarrow> timers_fire_due run (\<lambda>j. clock i (Suc j)) 0 st1;
             run_timers run tpoll clock w (Suc i) st2
           }
           else (case tpoll d w st1 of (r, st2) \<Rightarrow>
             if r then do {
               st3 \<leftarrow> timers_fire_due run (\<lambda>j. clock i (Suc j)) 0 st2;
               run_timers run tpoll clock w (Suc i) st3
             }
             else Some st2)))"

section \<open>The two ways of draining the queue agree\<close>

definition register_waker :: "ptr \<Rightarrow> waker \<Rightarrow> 'a ev_state_scheme \<Rightarrow> 'a ev_state_scheme" where
  "register_waker q w = upd_eventq q (\<lambda>e. e\<lparr>eq_waker := Some w\<rparr>)"

lemma poll_cases:
  "eventq_poll q w st =
     (if eq_head (eventqs st q) = NULL then (None, register_waker q w st)
      else (Some (eq_head (eventqs st q)), snd (eventq_try_pop q st)))"
  by (simp add: eventq_poll_def register_waker_def Let_def eventq_try_pop_def)

lemma run_events_round:
  "run_events run dflt w st =
     (if eq_head (eventqs st dflt) = NULL then Some (register_waker dflt w st)
      else run_events run dflt w (ble_npl_event_run run (eq_head (eventqs st dflt)) (snd (eventq_try_pop dflt st))))"
  by (subst run_events.simps) (simp add: poll_cases)

lemma drain_events_round:
  "drain_events run dflt st =
     (if eq_head (eventqs st dflt) = NULL then Some st
      else drain_events run dflt (ble_npl_event_run run (eq_head (eventqs st dflt)) (snd (eventq_try_pop dflt st))))"
  by (subst drain_events.simps) (simp add: eventq_try_pop_raw_def eventq_try_pop_def Let_def)

lemma drain_of_run:
  "run_events run dflt w st = Some st' \<Longrightarrow> \<exists>st0. drain_events run dflt st = Some st0 \<and> st' = register_waker dflt w st0"
proof (induction run dflt w st st' rule: run_events.raw_induct [rotated -1, consumes 1])
  case (1 rec run dflt w st st')
  then show ?case
    by (subst drain_events_round) (auto simp: poll_cases split: if_splits)
qed

lemma run_of_drain:
  "drain_events run dflt st = Some st0 \<Longrightarrow> run_events run dflt w st = Some (register_waker dflt w st0)"
proof (induction run dflt st st0 rule: drain_events.raw_induct [rotated -1, consumes 1])
  case (1 rec run dflt st st0)
  then show ?case
    by (subst run_events_round) (auto simp: eventq_try_pop_raw_def eventq_try_pop_def Let_def split: if_splits)
qed

lemma run_events_pending:
  "run_events run dflt w st = Some st' \<Longrightarrow> eq_head (eventqs st' dflt) = NULL \<and> eq_waker (eventqs st' dflt) = Some w"
proof (induction run dflt w st st' rule: run_events.raw_induct [rotated -1, consumes 1])
  case (1 rec run dflt w st st')
  then show ?case by (auto simp: poll_cases register_waker_def heap_simps split: if_splits)
qed

text \<open>Handlers that leave the default queue alone: the queued events run, in order, and the loop ends.\<close>

lemma drain_events_runs:
  assumes "evqs_inv st A" and "A dflt = evs"
    and keeps: "\<And>st A func ev. evqs_inv st A \<Longrightarrow> \<exists>A'. evqs_inv (run func ev st) A' \<and> A' dflt = A dflt"
  shows "\<exists>A'. drain_events run dflt st =
      Some (fold (\<lambda>ev s. ble_npl_event_run run ev (snd (eventq_try_pop dflt s))) evs st) \<and>
     evqs_inv (fold (\<lambda>ev s. ble_npl_event_run run ev (snd (eventq_try_pop dflt s))) evs st) A' \<and> A' dflt = []"
  using assms(1,2)
proof (induction evs arbitrary: st A)
  case Nil
  then have "eq_head (eventqs st dflt) = NULL"
    using chain_empty_iff [OF evqs_invD(1) [OF Nil(1), of dflt]] by simp
  with Nil show ?case by (subst drain_events_round) auto
next
  case (Cons ev evs)
  then have hd: "eq_head (eventqs st dflt) = ev" "ev \<noteq> NULL"
    using evqs_invD(1) [OF Cons.prems(1), of dflt] by auto
  let ?st1 = "snd (eventq_try_pop dflt st)" and ?A1 = "A(dflt := tl (A dflt))"
  have inv1: "evqs_inv ?st1 ?A1" by (rule try_pop_refines(2) [OF Cons.prems(1)])
  have "\<exists>A2. evqs_inv (ble_npl_event_run run ev ?st1) A2 \<and> A2 dflt = evs"
  proof (cases "ev_func (events ?st1 ev)")
    case None
    with inv1 Cons.prems(2) show ?thesis by (intro exI [of _ ?A1]) (simp add: ble_npl_event_run_def)
  next
    case (Some func)
    with keeps [OF inv1, of func ev] Cons.prems(2) show ?thesis by (auto simp: ble_npl_event_run_def)
  qed
  then obtain A2 where A2: "evqs_inv (ble_npl_event_run run ev ?st1) A2" "A2 dflt = evs" by blast
  from Cons.IH [OF this] hd show ?case by (subst drain_events_round) simp
qed

section \<open>The timer loop sleeps on the earliest deadline\<close>

lemma run_timers_pending:
  "run_timers run tpoll clock w i st = Some st' \<Longrightarrow>
   (\<And>d st0. callouts (snd (tpoll d w st0)) = callouts st0 \<and> timers_head (snd (tpoll d w st0)) = timers_head st0 \<and>
      timers_waker (snd (tpoll d w st0)) = timers_waker st0) \<Longrightarrow>
   timers_waker st' = Some w \<and>
   (timers_head st' = NULL \<or>
    (\<exists>j st0. clock j 0 < co_deadline (callouts st' (timers_head st')) \<and>
       tpoll (co_deadline (callouts st' (timers_head st'))) w st0 = (False, st')))"
proof (induction run tpoll clock w i st st' rule: run_timers.raw_induct [rotated -1, consumes 1])
  case (1 rec run tpoll clock w i st st')
  let ?d = "co_deadline (callouts st (timers_head st))" and ?st1 = "st\<lparr>timers_waker := Some w\<rparr>"
  note keep = "1.prems"(1)
  show ?case
  proof (cases "timers_head st = NULL")
    case True
    with "1.hyps" show ?thesis by (auto simp: timers_poll_next_deadline_def)
  next
    case False
    show ?thesis
    proof (cases "clock i 0 \<ge> ?d \<or> fst (tpoll ?d w ?st1)")
      case True
      with False "1.hyps" obtain st2 where "rec run tpoll clock w (Suc i) st2 = Some st'"
        by (auto simp: timers_poll_next_deadline_def bind_eq_Some_conv split: if_splits prod.splits)
      with "1.IH" keep show ?thesis by blast
    next
      case no: False
      with False "1.hyps" have "tpoll ?d w ?st1 = (False, st')"
        by (auto simp: timers_poll_next_deadline_def split: if_splits prod.splits)
      with keep [of ?d ?st1] no show ?thesis by (auto simp: not_le)
    qed
  qed
qed

lemma fire_due_const:
  assumes "sorted_wrt (\<lambda>a b. due a \<le> due b) ts"
  shows "due_prefix due (\<lambda>_. now) i ts = takeWhile (\<lambda>co. due co \<le> now) ts"
  by (induction ts arbitrary: i) auto

text \<open>One round of the timer loop at a fixed time.\<close>

lemma run_timers_round:
  assumes inv: "timers_inv st ts" and "evqs_inv st A"
    and "\<forall>co \<in> set ts. co_evq (callouts st co) \<noteq> NULL \<and>
      eq_init_tag (eventqs st (co_evq (callouts st co))) \<noteq> NULL \<and> \<not> ev_queued (events st (co_event co))"
    and pend: "\<And>d st. now < d \<Longrightarrow> fst (tpoll d w st) = False"
      "\<And>d st. callouts (snd (tpoll d w st)) = callouts st \<and> timers_head (snd (tpoll d w st)) = timers_head st"
  shows "\<exists>st'. run_timers run tpoll (\<lambda>_ _. now) w 0 st = Some st' \<and>
    timers_inv st' (dropWhile (\<lambda>co. co_deadline (callouts st co) \<le> now) ts)"
proof -
  let ?due = "\<lambda>p. co_deadline (callouts st p)" and ?st1 = "st\<lparr>timers_waker := Some w\<rparr>"
  have poll: "timers_poll_next_deadline w s = (if us = [] then None else Some (co_deadline (callouts s (hd us))), s\<lparr>timers_waker := Some w\<rparr>)"
    if "timers_inv s us" for s :: "'a npl_state_scheme" and us
    using timers_invD(1) [OF that] by (cases us) (auto simp: timers_poll_next_deadline_def)
  have last: "\<exists>st'. run_timers run tpoll (\<lambda>_ _. now) w j s = Some st' \<and> timers_inv st' us"
    if s: "timers_inv s us" and later: "us = [] \<or> now < co_deadline (callouts s (hd us))" for j s us
  proof (cases us)
    case Nil
    with poll [OF s] s timers_inv_cong [of "s\<lparr>timers_waker := Some w\<rparr>" s us] show ?thesis
      by (subst run_timers.simps) simp
  next
    case (Cons u vs)
    let ?r = "tpoll (co_deadline (callouts s u)) w (s\<lparr>timers_waker := Some w\<rparr>)"
    have "fst ?r = False" using Cons later pend(1) by simp
    moreover have "timers_inv (snd ?r) us" using s timers_inv_cong [of "snd ?r" s us] pend(2) by simp
    ultimately show ?thesis using Cons later poll [OF s]
      by (subst run_timers.simps) (auto simp: case_prod_beta)
  qed
  have inv1: "timers_inv ?st1 ts" using inv timers_inv_cong [of ?st1 st ts] by simp
  have q1: "evqs_inv ?st1 A" using assms(2) evqs_inv_cong [of ?st1 st A] by simp
  show ?thesis
  proof (cases "ts = [] \<or> now < ?due (hd ts)")
    case True
    then have "dropWhile (\<lambda>co. ?due co \<le> now) ts = ts" by (cases ts) auto
    with last [OF inv True] show ?thesis by simp
  next
    case False
    let ?f = "takeWhile (\<lambda>co. ?due co \<le> now) ts"
    obtain st2 where fire: "timers_fire_due run (\<lambda>j. now) 0 ?st1 = Some st2"
      and inv2: "timers_inv st2 (drop (length ?f) ts)" and dl: "\<forall>p. co_deadline (callouts st2 p) = ?due p"
      using fire_due_refines [OF inv1 q1, of run "\<lambda>_. now" 0] assms(3) fire_due_const [OF timers_invD(2) [OF inv]] by auto
    have rest: "drop (length ?f) ts = dropWhile (\<lambda>co. ?due co \<le> now) ts" by (metis dropWhile_eq_drop)
    have "dropWhile (\<lambda>co. ?due co \<le> now) ts = [] \<or> now < ?due (hd (dropWhile (\<lambda>co. ?due co \<le> now) ts))"
      using hd_dropWhile [of "\<lambda>co. ?due co \<le> now" ts] by (metis not_le)
    with last [of st2 "dropWhile (\<lambda>co. ?due co \<le> now) ts" "Suc 0"] inv2 dl rest
    obtain st' where "run_timers run tpoll (\<lambda>_ _. now) w (Suc 0) st2 = Some st'"
      "timers_inv st' (dropWhile (\<lambda>co. ?due co \<le> now) ts)" by auto
    with False fire poll [OF inv] show ?thesis by (subst run_timers.simps) auto
  qed
qed

section \<open>Relations the loops keep\<close>

text \<open>
  A reflexive and transitive relation between states that the operations of the NPL keep, for the
  task with waker \<open>w\<close> that polls queue \<open>q\<close>: firing timers and the two loops keep it too, with
  handlers that do.
\<close>

locale npl_relation =
  fixes w :: waker and q :: ptr and R :: "'a npl_state_scheme \<Rightarrow> 'a npl_state_scheme \<Rightarrow> bool"
  assumes R_refl: "R st st"
    and R_trans: "R st st1 \<Longrightarrow> R st1 st2 \<Longrightarrow> R st st2"
    and R_put: "R st (ble_npl_eventq_put q' ev st)"
    and R_pop_due: "R st (snd (timers_pop_due now st))"
    and R_next_deadline: "R st (snd (timers_poll_next_deadline w st))"
    and R_try_pop: "eq_head (eventqs st q) \<noteq> NULL \<Longrightarrow> R st (snd (eventq_try_pop q st))"
    and R_register: "eq_head (eventqs st q) = NULL \<Longrightarrow> R st (register_waker q w st)"
begin

lemma R_event_run: "(\<And>func ev s. R s (run func ev s)) \<Longrightarrow> R st (ble_npl_event_run run ev st)"
  by (auto simp: ble_npl_event_run_def R_refl split: option.split)

lemma R_fire: "(\<And>func ev s. R s (run func ev s)) \<Longrightarrow> R st (timer_fire run co st)"
  by (auto simp: timer_fire_def Let_def R_put R_event_run)

lemma R_fire_due:
  "timers_fire_due run clock i st = Some st' \<Longrightarrow> (\<And>func ev s. R s (run func ev s)) \<Longrightarrow> R st st'"
proof (induction run clock i st st' rule: timers_fire_due.raw_induct [rotated -1, consumes 1])
  case (1 rec run clock i st st')
  obtain co st1 where p: "timers_pop_due (clock i) st = (co, st1)" by fastforce
  have st1: "R st st1" using R_pop_due [of st "clock i"] p by simp
  show ?case
  proof (cases "co = NULL")
    case True
    then show ?thesis using 1 p st1 by simp
  next
    case False
    then have "rec run clock (Suc i) (timer_fire run co st1) = Some st'" using 1 p by simp
    then have "R (timer_fire run co st1) st'" using 1 by blast
    then show ?thesis using st1 R_fire [of run st1 co] 1 R_trans by metis
  qed
qed

lemma R_run_timers:
  "run_timers run tpoll clock v i st = Some st' \<Longrightarrow> v = w \<Longrightarrow> (\<And>func ev s. R s (run func ev s)) \<Longrightarrow>
   (\<And>d s. R s (snd (tpoll d w s))) \<Longrightarrow> R st st'"
proof (induction run tpoll clock v i st st' rule: run_timers.raw_induct [rotated -1, consumes 1])
  case (1 rec run tpoll clock v i st st')
  obtain nd st1 where p: "timers_poll_next_deadline v st = (nd, st1)" by fastforce
  then have st1: "R st st1" using R_next_deadline [of st] 1(3) by simp
  have next_round: "R s st'"
    if round: "timers_fire_due run (\<lambda>j. clock i (Suc j)) 0 s \<bind> rec run tpoll clock v (Suc i) = Some st'" for s
  proof -
    obtain s2 where "timers_fire_due run (\<lambda>j. clock i (Suc j)) 0 s = Some s2" "rec run tpoll clock v (Suc i) s2 = Some st'"
      using round by (auto split: bind_splits)
    then show ?thesis using R_fire_due [of run _ 0 s s2] 1 R_trans by blast
  qed
  show ?case
  proof (cases nd)
    case None
    then show ?thesis using 1 p st1 by simp
  next
    case (Some d)
    obtain r st2 where t: "tpoll d v st1 = (r, st2)" by fastforce
    have "R st1 st2" using 1(5) [of st1 d] t 1(3) by simp
    moreover have "(clock i 0 \<ge> d \<and> timers_fire_due run (\<lambda>j. clock i (Suc j)) 0 st1 \<bind> rec run tpoll clock v (Suc i) = Some st') \<or>
        (timers_fire_due run (\<lambda>j. clock i (Suc j)) 0 st2 \<bind> rec run tpoll clock v (Suc i) = Some st') \<or> st' = st2"
      using 1(2) p Some t by (auto split: if_splits)
    ultimately show ?thesis using next_round st1 R_trans by blast
  qed
qed

lemma R_run_events:
  "run_events run p v st = Some st' \<Longrightarrow> v = w \<Longrightarrow> p = q \<Longrightarrow> (\<And>func ev s. R s (run func ev s)) \<Longrightarrow> R st st'"
proof (induction run p v st st' rule: run_events.raw_induct [rotated -1, consumes 1])
  case (1 rec run p v st st')
  show ?case
  proof (cases "eq_head (eventqs st q) = NULL")
    case True
    then have "st' = register_waker q w st" using 1 by (simp add: poll_cases)
    with True R_register show ?thesis by simp
  next
    case False
    let ?ev = "eq_head (eventqs st q)"
    let ?s = "snd (eventq_try_pop q st)"
    have "R (ble_npl_event_run run ?ev ?s) st'" using 1 False by (simp add: poll_cases)
    then show ?thesis using R_try_pop [OF False] R_event_run [of run ?s ?ev] 1(5) R_trans by blast
  qed
qed

end

section \<open>Properties\<close>



text \<open>
  The synchronous drain of the test harness does what one poll of the async loop does,
  whatever the handlers do, also when they never stop: only the registration of the waker at
  the end differs.
\<close>

theorem run_events_is_drain:
  "run_events run dflt w st = map_option (register_waker dflt w) (drain_events run dflt st)"
proof (cases "drain_events run dflt st")
  case None
  then show ?thesis using drain_of_run [of run dflt w st] by (cases "run_events run dflt w st") auto
next
  case (Some st0)
  then show ?thesis using run_of_drain [OF Some, of w] by simp
qed

text \<open>
  C22: when a poll of the timer loop is pending, whatever the handlers did, the task's waker is
  registered for changes of the timer list, and either no callout is armed or the embassy
  timer was armed for exactly the earliest deadline, which was still ahead.
\<close>

theorem run_timers_no_lost_deadline:
  assumes "run_timers run tpoll clock w 0 st = Some st'"
    and "\<And>d st0. callouts (snd (tpoll d w st0)) = callouts st0 \<and> timers_head (snd (tpoll d w st0)) = timers_head st0 \<and>
      timers_waker (snd (tpoll d w st0)) = timers_waker st0"
  shows "timers_waker st' = Some w \<and>
   (timers_head st' = NULL \<or>
    (\<exists>j st0. clock j 0 < co_deadline (callouts st' (timers_head st')) \<and>
       tpoll (co_deadline (callouts st' (timers_head st'))) w st0 = (False, st')))"
  using assms by (rule run_timers_pending)

theorem run_timers_no_lost_deadline_witness:
  "\<exists>st' :: npl_state. run_timers (\<lambda>_ _ s. s) (\<lambda>_ _ s. (False, s)) (\<lambda>_ _. 5) 7 0 npl_mem0 = Some st' \<and> timers_waker st' = Some 7"
proof -
  have "run_timers (\<lambda>_ _ s. s) (\<lambda>_ _ s. (False, s)) (\<lambda>_ _. 5) 7 0 npl_mem0 = Some (npl_mem0\<lparr>timers_waker := Some 7\<rparr>)"
    by (simp add: run_timers.simps timers_poll_next_deadline_def npl_mem0_def sync_state.defs)
  from run_timers_no_lost_deadline [OF this] this show ?thesis by auto
qed

text \<open>
  A poll of the timer loop returns, and at one reading of the clock fires exactly the
  callouts that are due: those due later stay armed, in order.
\<close>

theorem run_timers_fires_due:
  assumes "timers_inv st ts" and "evqs_inv st A"
    and "\<forall>co \<in> set ts. co_evq (callouts st co) \<noteq> NULL \<and>
      eq_init_tag (eventqs st (co_evq (callouts st co))) \<noteq> NULL \<and> \<not> ev_queued (events st (co_event co))"
    and "\<And>d st. now < d \<Longrightarrow> fst (tpoll d w st) = False"
    and "\<And>d st. callouts (snd (tpoll d w st)) = callouts st \<and> timers_head (snd (tpoll d w st)) = timers_head st"
  shows "\<exists>st'. run_timers run tpoll (\<lambda>_ _. now) w 0 st = Some st' \<and>
     (\<forall>co. ble_npl_callout_is_active co st' \<longleftrightarrow> co \<in> set ts \<and> now < co_deadline (callouts st co))"
proof -
  let ?us = "dropWhile (\<lambda>co. co_deadline (callouts st co) \<le> now) ts"
  obtain st' where st': "run_timers run tpoll (\<lambda>_ _. now) w 0 st = Some st'" "timers_inv st' ?us"
    using run_timers_round [OF assms(1-3), where tpoll = tpoll and now = now and w = w] assms(4,5) by blast
  have "co \<in> set ?us \<longleftrightarrow> co \<in> set ts \<and> now < co_deadline (callouts st co)" for co
    using timers_invD(2) [OF assms(1)]
    by (induction ts) (auto simp: not_le dest: order.trans leD intro: less_le_trans)
  with st' timers_invD(3) [OF st'(2)] show ?thesis by (auto simp: ble_npl_callout_is_active_def)
qed

theorem run_timers_fires_due_witness:
  "\<exists>st st' :: npl_state. ble_npl_callout_is_active 64 st \<and>
     run_timers (\<lambda>_ _ s. s) (\<lambda>_ _ s. (False, s)) (\<lambda>_ _. 1030) 7 0 st = Some st' \<and> \<not> ble_npl_callout_is_active 64 st'"
proof -
  obtain st :: npl_state where st: "timers_inv st [64]" "evqs_inv st (\<lambda>_. [])" "co_evq (callouts st 64) = 1000"
    "co_deadline (callouts st 64) = 1030" "eq_init_tag (eventqs st 1000) = 1000" "\<not> ev_queued (events st (co_event 64))"
    using armed_demo by blast
  then have "ble_npl_callout_is_active 64 st" using timers_invD(3) [of st "[64]" 64] by (simp add: ble_npl_callout_is_active_def)
  moreover have "\<exists>st'. run_timers (\<lambda>_ _ s. s) (\<lambda>_ _ s. (False, s)) (\<lambda>_ _. 1030) 7 0 st = Some st' \<and>
     (\<forall>co. ble_npl_callout_is_active co st' \<longleftrightarrow> co \<in> set [64] \<and> 1030 < co_deadline (callouts st co))"
    by (rule run_timers_fires_due [OF st(1,2)]) (simp_all add: st)
  ultimately show ?thesis using st(4) by auto
qed

text \<open>
  Bringing the port down empties the default queue, marks it as not initialised, so that
  later puts are ignored, and wakes the task of the event loop.
\<close>

theorem port_deinit_stops_queue:
  assumes "\<And>f st. f \<in> {pc_ble_hs_deinit c, pc_ble_transport_ll_deinit c, pc_ble_transport_deinit c, pc_ble_buf_free c} \<Longrightarrow>
      eventqs (f st) = eventqs st \<and> (\<exists>ws. woken (f st) = woken st @ ws)"
    and "eq_waker (eventqs st dflt) = Some w"
  shows "ble_npl_eventq_is_empty dflt (port_deinit c dflt st) \<and>
     ble_npl_eventq_put dflt ev (port_deinit c dflt st) = port_deinit c dflt st \<and>
     w \<in> set (woken (port_deinit c dflt st))"
proof -
  define mono where "mono f \<longleftrightarrow> (\<forall>st. eventqs (f st) = eventqs st \<and> (\<exists>ws. woken (f st) = woken st @ ws))"
    for f :: "'a npl_state_scheme \<Rightarrow> 'a npl_state_scheme"
  have keep: "mono (pc_ble_hs_deinit c)" "mono (pc_ble_transport_ll_deinit c)" "mono (pc_ble_transport_deinit c)" "mono (pc_ble_buf_free c)"
    using assms(1) by (auto simp: mono_def)
  have after: "set (woken s) \<subseteq> set (woken (f s))" "eventqs (f s) = eventqs s" if "mono f" for f s
    using that unfolding mono_def by (metis set_append Un_upper1, blast)
  let ?st1 = "ble_npl_eventq_deinit dflt st"
  have "w \<in> set (woken ?st1)" using assms(2) by (simp add: ble_npl_eventq_deinit_def heap_simps)
  then have "w \<in> set (woken (port_deinit c dflt st))"
    unfolding port_deinit_def Let_def using after(1) [OF keep(1)] after(1) [OF keep(2)] after(1) [OF keep(3)] after(1) [OF keep(4)]
    by blast
  moreover have "eventqs (port_deinit c dflt st) = eventqs ?st1"
    by (simp add: port_deinit_def Let_def after(2) [OF keep(1)] after(2) [OF keep(2)] after(2) [OF keep(3)] after(2) [OF keep(4)])
  ultimately show ?thesis
    by (simp add: ble_npl_eventq_is_empty_def ble_npl_eventq_put_def ble_npl_eventq_deinit_def heap_simps)
qed

theorem port_deinit_stops_queue_witness:
  "let c = \<lparr>pc_os_mempool_module_init = id, pc_ble_buf_alloc = Pair 0, pc_ble_buf_free = id, pc_ble_transport_init = id,
       pc_os_msys_init = id, pc_ble_transport_hs_init = id, pc_ble_transport_ll_init = id, pc_ble_hs_deinit = id,
       pc_ble_transport_ll_deinit = id, pc_ble_transport_deinit = id\<rparr>;
     st = register_waker 1000 7 (ble_npl_eventq_init 1000 npl_mem0)
   in ble_npl_eventq_is_empty 1000 (port_deinit c 1000 st) \<and> 7 \<in> set (woken (port_deinit c 1000 st))"
  unfolding Let_def
  by (intro conjI port_deinit_stops_queue [THEN conjunct1] port_deinit_stops_queue [THEN conjunct2, THEN conjunct2])
    (auto simp: register_waker_def heap_simps)

end
