(* ===== verification/Hci_Cmds.thy ===== *)
theory Hci_Cmds
  imports Nimble_Prelude
begin

text \<open>
  The commands of the HCI bridge (\<open>nimble-rs/src/hci.rs\<close>): the controller contract, that is
  the typed commands each of the alias traits \<open>CoreCmds\<close> \dots \<open>SmCmds\<close> asks of a controller, and
  the \<open>SUPPORTED_CMDS\<close> mask the dispatcher answers with. A build configuration is the record
  of the cargo features these depend on. A trait is the list of its bounds
  \<open>ControllerCmdSync<T>\<close> and \<open>ControllerCmdAsync<T>\<close>, in the order of the source.
\<close>

section \<open>Configuration and commands\<close>

record hci_cfg =
  f_central :: bool
  f_peripheral :: bool
  f_broadcaster :: bool
  f_observer :: bool
  f_sm :: bool
  f_sm_sc_only :: bool

datatype hci_cmd =
    Reset | SetEventMask | SetEventMaskPage2 | LeSetEventMask | ReadLocalVersionInformation
  | ReadLocalSupportedCmds | ReadLocalSupportedFeatures | ReadBdAddr | LeReadBufferSize
  | LeReadLocalSupportedFeatures | LeRand | LeSetRandomAddr | LeSetAdvEnable
  | LeSetAddrResolutionEnable | LeClearResolvingList | LeAddDeviceToResolvingList
  | LeRemoveDeviceFromResolvingList | LeSetPrivacyMode | LeSetResolvablePrivateAddrTimeout
  | Disconnect | LeReadRemoteFeatures | ReadRemoteVersionInformation | LeSetDataLength
  | LeReadSuggestedDefaultDataLength | LeWriteSuggestedDefaultDataLength | LeReadChannelMap
  | ReadRssi | LeAddDeviceToFilterAcceptList | LeRemoveDeviceFromFilterAcceptList
  | LeClearFilterAcceptList | LeReadFilterAcceptListSize
  | LeSetAdvParams | LeSetAdvData | LeSetScanResponseData | LeReadAdvPhysicalChannelTxPower
  | LeSetScanParams | LeSetScanEnable
  | LeCreateConn | LeCreateConnCancel | LeConnUpdate | LeSetHostChannelClassification
  | LeEnableEncryption | LeLongTermKeyRequestReply | LeLongTermKeyRequestNegativeReply

datatype cmd_bound = CmdSync hci_cmd | CmdAsync hci_cmd

definition role_conn :: "hci_cfg \<Rightarrow> bool" where
  "role_conn cfg \<longleftrightarrow> f_central cfg \<or> f_peripheral cfg"

definition any_sm :: "hci_cfg \<Rightarrow> bool" where
  "any_sm cfg \<longleftrightarrow> f_sm cfg \<or> f_sm_sc_only cfg"

section \<open>The controller contract\<close>

definition CoreCmds :: "cmd_bound list" where
  "CoreCmds =
     [CmdSync Reset, CmdSync SetEventMask, CmdSync SetEventMaskPage2, CmdSync LeSetEventMask,
      CmdSync ReadLocalVersionInformation, CmdSync ReadLocalSupportedFeatures, CmdSync ReadBdAddr,
      CmdSync LeReadBufferSize, CmdSync LeReadLocalSupportedFeatures, CmdSync LeRand,
      CmdSync LeSetRandomAddr, CmdSync LeSetAdvEnable, CmdSync LeSetAddrResolutionEnable,
      CmdSync LeClearResolvingList, CmdSync LeAddDeviceToResolvingList,
      CmdSync LeRemoveDeviceFromResolvingList, CmdSync LeSetPrivacyMode,
      CmdSync LeSetResolvablePrivateAddrTimeout]"

definition ConnCmds :: "hci_cfg \<Rightarrow> cmd_bound list" where
  "ConnCmds cfg = (if role_conn cfg then
     [CmdSync Disconnect, CmdAsync LeReadRemoteFeatures, CmdAsync ReadRemoteVersionInformation,
      CmdSync LeSetDataLength, CmdSync LeReadSuggestedDefaultDataLength,
      CmdSync LeWriteSuggestedDefaultDataLength, CmdSync LeReadChannelMap, CmdSync ReadRssi,
      CmdSync LeAddDeviceToFilterAcceptList, CmdSync LeRemoveDeviceFromFilterAcceptList,
      CmdSync LeClearFilterAcceptList, CmdSync LeReadFilterAcceptListSize]
     else [])"

definition AdvCmds :: "hci_cfg \<Rightarrow> cmd_bound list" where
  "AdvCmds cfg = (if f_broadcaster cfg then
     [CmdSync LeSetAdvParams, CmdSync LeSetAdvData, CmdSync LeSetScanResponseData,
      CmdSync LeReadAdvPhysicalChannelTxPower]
     else [])"

definition ScanCmds :: "hci_cfg \<Rightarrow> cmd_bound list" where
  "ScanCmds cfg = (if f_observer cfg then [CmdSync LeSetScanParams, CmdSync LeSetScanEnable] else [])"

definition CentralCmds :: "hci_cfg \<Rightarrow> cmd_bound list" where
  "CentralCmds cfg = (if f_central cfg then
     [CmdAsync LeCreateConn, CmdSync LeCreateConnCancel, CmdAsync LeConnUpdate,
      CmdSync LeSetHostChannelClassification]
     else [])"

definition SmCmds :: "hci_cfg \<Rightarrow> cmd_bound list" where
  "SmCmds cfg = (if any_sm cfg then
     [CmdAsync LeEnableEncryption, CmdSync LeLongTermKeyRequestReply,
      CmdSync LeLongTermKeyRequestNegativeReply]
     else [])"

definition Controller_cmds :: "hci_cfg \<Rightarrow> cmd_bound list" where
  "Controller_cmds cfg = CoreCmds @ ConnCmds cfg @ AdvCmds cfg @ ScanCmds cfg @ CentralCmds cfg @ SmCmds cfg"

section \<open>The mask of supported commands\<close>

text \<open>The \<open>set!\<close> macro: \<open>mask[octet] |= 1 << bit\<close>.\<close>

definition set_bits :: "(nat \<times> nat) list \<Rightarrow> bytes \<Rightarrow> bytes" where
  "set_bits bs m0 = fold (\<lambda>(octet, b) m. m[octet := m ! octet OR push_bit b 1]) bs m0"

definition core_bits :: "(nat \<times> nat) list" where
  "core_bits = [(5, 7), (5, 6), (22, 2), (25, 0), (14, 3), (14, 4), (14, 5), (15, 1), (25, 1), (25, 2),
     (27, 7), (25, 4), (26, 1), (35, 1), (34, 5), (34, 3), (34, 4), (39, 2), (35, 2)]"

definition conn_bits :: "hci_cfg \<Rightarrow> (nat \<times> nat) list" where
  "conn_bits cfg = (if role_conn cfg then
     [(0, 5), (27, 5), (2, 7), (33, 6), (33, 7), (34, 0), (27, 4), (15, 5), (27, 0), (27, 1), (26, 7), (26, 6)] else [])"

definition adv_bits :: "hci_cfg \<Rightarrow> (nat \<times> nat) list" where
  "adv_bits cfg = (if f_broadcaster cfg then [(25, 5), (25, 7), (26, 0), (25, 6)] else [])"

definition scan_bits :: "hci_cfg \<Rightarrow> (nat \<times> nat) list" where
  "scan_bits cfg = (if f_observer cfg then [(26, 2), (26, 3)] else [])"

definition central_bits :: "hci_cfg \<Rightarrow> (nat \<times> nat) list" where
  "central_bits cfg = (if f_central cfg then [(26, 4), (26, 5), (27, 2), (27, 3)] else [])"

definition sm_bits :: "hci_cfg \<Rightarrow> (nat \<times> nat) list" where
  "sm_bits cfg = (if any_sm cfg then [(28, 0), (28, 1), (28, 2)] else [])"

definition SUPPORTED_CMDS :: "hci_cfg \<Rightarrow> bytes" where
  "SUPPORTED_CMDS cfg =
     set_bits (core_bits @ conn_bits cfg @ adv_bits cfg @ scan_bits cfg @ central_bits cfg @ sm_bits cfg)
       (replicate 64 0)"

text \<open>
  Where the Core specification's table has each command: the comments of the source.
\<close>

fun cmd_bit :: "hci_cmd \<Rightarrow> nat \<times> nat" where
  "cmd_bit Reset = (5, 7)"
| "cmd_bit SetEventMask = (5, 6)"
| "cmd_bit SetEventMaskPage2 = (22, 2)"
| "cmd_bit LeSetEventMask = (25, 0)"
| "cmd_bit ReadLocalVersionInformation = (14, 3)"
| "cmd_bit ReadLocalSupportedCmds = (14, 4)"
| "cmd_bit ReadLocalSupportedFeatures = (14, 5)"
| "cmd_bit ReadBdAddr = (15, 1)"
| "cmd_bit LeReadBufferSize = (25, 1)"
| "cmd_bit LeReadLocalSupportedFeatures = (25, 2)"
| "cmd_bit LeRand = (27, 7)"
| "cmd_bit LeSetRandomAddr = (25, 4)"
| "cmd_bit LeSetAdvEnable = (26, 1)"
| "cmd_bit LeSetAddrResolutionEnable = (35, 1)"
| "cmd_bit LeClearResolvingList = (34, 5)"
| "cmd_bit LeAddDeviceToResolvingList = (34, 3)"
| "cmd_bit LeRemoveDeviceFromResolvingList = (34, 4)"
| "cmd_bit LeSetPrivacyMode = (39, 2)"
| "cmd_bit LeSetResolvablePrivateAddrTimeout = (35, 2)"
| "cmd_bit Disconnect = (0, 5)"
| "cmd_bit LeReadRemoteFeatures = (27, 5)"
| "cmd_bit ReadRemoteVersionInformation = (2, 7)"
| "cmd_bit LeSetDataLength = (33, 6)"
| "cmd_bit LeReadSuggestedDefaultDataLength = (33, 7)"
| "cmd_bit LeWriteSuggestedDefaultDataLength = (34, 0)"
| "cmd_bit LeReadChannelMap = (27, 4)"
| "cmd_bit ReadRssi = (15, 5)"
| "cmd_bit LeAddDeviceToFilterAcceptList = (27, 0)"
| "cmd_bit LeRemoveDeviceFromFilterAcceptList = (27, 1)"
| "cmd_bit LeClearFilterAcceptList = (26, 7)"
| "cmd_bit LeReadFilterAcceptListSize = (26, 6)"
| "cmd_bit LeSetAdvParams = (25, 5)"
| "cmd_bit LeSetAdvData = (25, 7)"
| "cmd_bit LeSetScanResponseData = (26, 0)"
| "cmd_bit LeReadAdvPhysicalChannelTxPower = (25, 6)"
| "cmd_bit LeSetScanParams = (26, 2)"
| "cmd_bit LeSetScanEnable = (26, 3)"
| "cmd_bit LeCreateConn = (26, 4)"
| "cmd_bit LeCreateConnCancel = (26, 5)"
| "cmd_bit LeConnUpdate = (27, 2)"
| "cmd_bit LeSetHostChannelClassification = (27, 3)"
| "cmd_bit LeEnableEncryption = (28, 0)"
| "cmd_bit LeLongTermKeyRequestReply = (28, 1)"
| "cmd_bit LeLongTermKeyRequestNegativeReply = (28, 2)"

fun bound_cmd :: "cmd_bound \<Rightarrow> hci_cmd" where
  "bound_cmd (CmdSync c) = c"
| "bound_cmd (CmdAsync c) = c"

section \<open>Lemmas\<close>

lemma set_bits_length [simp]: "length (set_bits bs m0) = length m0"
  by (induction bs arbitrary: m0) (auto simp: set_bits_def)

lemma set_bits_bit:
  "octet < length m0 \<Longrightarrow> n < 8 \<Longrightarrow>
   bit (set_bits bs m0 ! octet) n \<longleftrightarrow> bit (m0 ! octet) n \<or> (octet, n) \<in> set bs"
proof (induction bs arbitrary: m0)
  case Nil
  then show ?case by (simp add: set_bits_def)
next
  case (Cons x bs)
  obtain o1 b1 where x: "x = (o1, b1)" by (cases x)
  let ?m = "m0[o1 := m0 ! o1 OR push_bit b1 1]"
  have "bit (?m ! octet) n \<longleftrightarrow> bit (m0 ! octet) n \<or> (octet, n) = (o1, b1)"
    using Cons.prems by (cases "o1 = octet") (auto simp: bit_simps)
  with Cons.IH [of ?m] Cons.prems x show ?case by (simp add: set_bits_def)
qed

lemma cmd_bit_inj: "cmd_bit c = cmd_bit d \<Longrightarrow> c = d"
  by (cases c; cases d; simp)

lemma core_bits_map:
  "core_bits = map (cmd_bit \<circ> bound_cmd) (take 5 CoreCmds @ CmdSync ReadLocalSupportedCmds # drop 5 CoreCmds)"
  by (simp add: core_bits_def CoreCmds_def)

lemma role_bits_map:
  "conn_bits cfg = map (cmd_bit \<circ> bound_cmd) (ConnCmds cfg)"
  "adv_bits cfg = map (cmd_bit \<circ> bound_cmd) (AdvCmds cfg)"
  "scan_bits cfg = map (cmd_bit \<circ> bound_cmd) (ScanCmds cfg)"
  "central_bits cfg = map (cmd_bit \<circ> bound_cmd) (CentralCmds cfg)"
  "sm_bits cfg = map (cmd_bit \<circ> bound_cmd) (SmCmds cfg)"
  by (simp_all add: conn_bits_def ConnCmds_def adv_bits_def AdvCmds_def scan_bits_def ScanCmds_def
      central_bits_def CentralCmds_def sm_bits_def SmCmds_def)

lemma supported_bits_set:
  "x \<in> set (core_bits @ conn_bits cfg @ adv_bits cfg @ scan_bits cfg @ central_bits cfg @ sm_bits cfg) \<longleftrightarrow>
   (\<exists>c. cmd_bit c = x \<and> (c \<in> bound_cmd ` set (Controller_cmds cfg) \<or> c = ReadLocalSupportedCmds))"
proof -
  have "set core_bits = (cmd_bit \<circ> bound_cmd) ` (insert (CmdSync ReadLocalSupportedCmds) (set CoreCmds))"
    unfolding core_bits_map set_map by (metis (no_types) Un_insert_right append_take_drop_id list.simps(15) set_append)
  then have "set (core_bits @ conn_bits cfg @ adv_bits cfg @ scan_bits cfg @ central_bits cfg @ sm_bits cfg) =
      (cmd_bit \<circ> bound_cmd) ` (insert (CmdSync ReadLocalSupportedCmds) (set (Controller_cmds cfg)))"
    by (simp add: role_bits_map Controller_cmds_def image_Un Un_assoc del: o_apply)
  then show ?thesis by (auto simp: image_iff intro: exI [of _ ReadLocalSupportedCmds])
qed

text \<open>
  C25: the answer to Read Local Supported Commands is honest: bit \<open>n\<close> of octet \<open>i\<close> of the 64
  bytes is set exactly when the command the specification gives that bit is one the contract
  makes the controller implement in this configuration, or the command itself.
\<close>

theorem supported_cmds_exact:
  assumes "i < 64" and "n < 8"
  shows "bit (SUPPORTED_CMDS cfg ! i) n \<longleftrightarrow>
     (\<exists>c. cmd_bit c = (i, n) \<and> (c \<in> bound_cmd ` set (Controller_cmds cfg) \<or> c = ReadLocalSupportedCmds))"
  using assms supported_bits_set [of _ cfg] by (auto simp: SUPPORTED_CMDS_def set_bits_bit)

theorem supported_cmds_exact_witness:
  "bit (SUPPORTED_CMDS \<lparr>f_central = False, f_peripheral = True, f_broadcaster = True, f_observer = False, f_sm = False, f_sm_sc_only = False\<rparr> ! 25) 7"
  using supported_cmds_exact [of 25 7 "\<lparr>f_central = False, f_peripheral = True, f_broadcaster = True, f_observer = False, f_sm = False, f_sm_sc_only = False\<rparr>"]
  by (auto simp: Controller_cmds_def AdvCmds_def intro!: exI [of _ LeSetAdvData])

end
