(* ===== verification/Hci_Transport.thy ===== *)
theory Hci_Transport
  imports Nimble_Prelude
begin

text \<open>
  The transport of the HCI bridge (\<open>nimble-rs/src/hci.rs\<close>, sections "Host -> controller" and
  "Controller -> host"): the packets the C host hands over, the queues they wait in, and the
  packets fed back to it.

  Outside the repository, and so arguments: the C buffer pools and receive functions (record
  \<open>host_c\<close>, on a host state of type \<open>'t\<close>), and the channel type of embassy (record \<open>chan_ops\<close>, on
  a queue of type \<open>'q\<close>), of which \<open>fifo_channel\<close> states the documented behaviour: a bounded
  queue, first in first out. A heapless vector is a list with its capacity checked where the
  source extends it.
\<close>

section \<open>The C host and the channels\<close>

record 't host_c =
  hc_alloc_evt :: "bool \<Rightarrow> 't \<Rightarrow> ptr \<times> 't"
  hc_to_hs_evt :: "ptr \<Rightarrow> bytes \<Rightarrow> 't \<Rightarrow> 't"
  hc_transport_free :: "ptr \<Rightarrow> 't \<Rightarrow> 't"
  hc_mbuf_free_chain :: "ptr \<Rightarrow> 't \<Rightarrow> 't"
  hc_alloc_acl_from_ll :: "'t \<Rightarrow> ptr \<times> 't"
  hc_mbuf_append :: "ptr \<Rightarrow> bytes \<Rightarrow> 't \<Rightarrow> c_int \<times> 't"
  hc_to_hs_acl :: "ptr \<Rightarrow> 't \<Rightarrow> 't"

record 'q chan_ops =
  ch_try_send :: "bytes \<Rightarrow> 'q \<Rightarrow> 'q option"
  ch_try_receive :: "'q \<Rightarrow> (bytes \<times> 'q) option"

record ('q, 't) hci_state =
  hs_cmd_queue :: 'q
  hs_acl_queue :: 'q
  hs_host :: 't

datatype ll_rc = LL_OK | LL_MEM_CAPACITY | LL_UNSUPPORTED

definition fifo_channel :: "'q chan_ops \<Rightarrow> ('q \<Rightarrow> bytes list) \<Rightarrow> nat \<Rightarrow> bool" where
  "fifo_channel ch contents cap \<longleftrightarrow>
     (\<forall>p q. case ch_try_send ch p q of
          None \<Rightarrow> length (contents q) \<ge> cap
        | Some q' \<Rightarrow> length (contents q) < cap \<and> contents q' = contents q @ [p]) \<and>
     (\<forall>q. case ch_try_receive ch q of
          None \<Rightarrow> contents q = []
        | Some (p, q') \<Rightarrow> contents q = p # contents q')"

section \<open>Sizes\<close>

definition CMD_PACKET_MAX :: nat where "CMD_PACKET_MAX = 3 + 255"

definition ACL_PACKET_MAX :: "nat \<Rightarrow> nat" where "ACL_PACKET_MAX acl_size = 4 + acl_size"

definition EVT_PACKET_MAX :: nat where "EVT_PACKET_MAX = 2 + 255"

definition CMD_QUEUE_DEPTH :: nat where "CMD_QUEUE_DEPTH = 2"

text \<open>\<open>heapless::Vec::extend_from_slice\<close> on a vector of capacity \<open>n\<close>.\<close>

definition packet_extend :: "nat \<Rightarrow> bytes \<Rightarrow> bytes \<Rightarrow> bytes option" where
  "packet_extend n packet data = (if length packet + length data \<le> n then Some (packet @ data) else None)"

section \<open>Host to controller\<close>

definition ble_transport_ll_init :: "('q, 't) hci_state \<Rightarrow> ('q, 't) hci_state" where
  "ble_transport_ll_init st = st"

text \<open>\<open>while queue.try_receive().is_ok() {}\<close>\<close>

partial_function (option) drain_queue :: "'q chan_ops \<Rightarrow> 'q \<Rightarrow> 'q option" where
  "drain_queue ch q = (case ch_try_receive ch q of None \<Rightarrow> Some q | Some y \<Rightarrow> drain_queue ch (snd y))"

definition ble_transport_ll_deinit :: "'q chan_ops \<Rightarrow> ('q, 't) hci_state \<Rightarrow> ('q, 't) hci_state option" where
  "ble_transport_ll_deinit ch st = do {
     c \<leftarrow> drain_queue ch (hs_cmd_queue st);
     a \<leftarrow> drain_queue ch (hs_acl_queue st);
     Some (st\<lparr>hs_cmd_queue := c, hs_acl_queue := a\<rparr>)
   }"

text \<open>
  \<open>mem\<close> is the memory from the address \<open>buf\<close> on, up to the end of the buffer; reading past it is
  undefined, and so is the result here.
\<close>

definition ble_transport_to_ll_cmd_impl ::
  "'t host_c \<Rightarrow> 'q chan_ops \<Rightarrow> ptr \<Rightarrow> bytes \<Rightarrow> ('q, 't) hci_state \<Rightarrow> (ll_rc \<times> ('q, 't) hci_state) option" where
  "ble_transport_to_ll_cmd_impl c ch buf mem st =
     (if length mem < 3 then None
      else let len = 3 + unat (mem ! 2)
        in if length mem < len then None
        else do {
          packet \<leftarrow> packet_extend CMD_PACKET_MAX [] (take len mem);
          let st1 = st\<lparr>hs_host := hc_transport_free c buf (hs_host st)\<rparr>;
          Some (case ch_try_send ch packet (hs_cmd_queue st1) of
              None \<Rightarrow> (LL_MEM_CAPACITY, st1)
            | Some q \<Rightarrow> (LL_OK, st1\<lparr>hs_cmd_queue := q\<rparr>))
        })"

record mbuf =
  om_data :: bytes
  om_next :: ptr

text \<open>The loop over an mbuf chain: \<open>Inl\<close> when the packet would grow too large.\<close>

partial_function (option) flatten :: "nat \<Rightarrow> (ptr \<Rightarrow> mbuf) \<Rightarrow> ptr \<Rightarrow> bytes \<Rightarrow> (unit + bytes) option" where
  "flatten n mem cur packet =
     (if cur = NULL then Some (Inr packet)
      else case packet_extend n packet (om_data (mem cur)) of
          None \<Rightarrow> Some (Inl ())
        | Some packet' \<Rightarrow> flatten n mem (om_next (mem cur)) packet')"

definition ble_transport_to_ll_acl_impl ::
  "'t host_c \<Rightarrow> 'q chan_ops \<Rightarrow> nat \<Rightarrow> (ptr \<Rightarrow> mbuf) \<Rightarrow> ptr \<Rightarrow> ('q, 't) hci_state \<Rightarrow> (ll_rc \<times> ('q, 't) hci_state) option" where
  "ble_transport_to_ll_acl_impl c ch acl_size mem om st = do {
     r \<leftarrow> flatten (ACL_PACKET_MAX acl_size) mem om [];
     Some (case r of
         Inl _ \<Rightarrow> (LL_MEM_CAPACITY, st\<lparr>hs_host := hc_mbuf_free_chain c om (hs_host st)\<rparr>)
       | Inr packet \<Rightarrow>
           let st1 = st\<lparr>hs_host := hc_mbuf_free_chain c om (hs_host st)\<rparr>
           in case ch_try_send ch packet (hs_acl_queue st1) of
                None \<Rightarrow> (LL_MEM_CAPACITY, st1)
              | Some q \<Rightarrow> (LL_OK, st1\<lparr>hs_acl_queue := q\<rparr>))
   }"

definition ble_transport_to_ll_iso_impl :: "'t host_c \<Rightarrow> ptr \<Rightarrow> ('q, 't) hci_state \<Rightarrow> ll_rc \<times> ('q, 't) hci_state" where
  "ble_transport_to_ll_iso_impl c om st =
     (LL_UNSUPPORTED, st\<lparr>hs_host := hc_mbuf_free_chain c om (hs_host st)\<rparr>)"

section \<open>Controller to host\<close>

definition feed_event :: "'t host_c \<Rightarrow> u8 \<Rightarrow> bytes \<Rightarrow> bool \<Rightarrow> 't \<Rightarrow> 't" where
  "feed_event c code params discardable t =
     (let (buf, t1) = hc_alloc_evt c discardable t
      in if buf = NULL then t1
         else hc_to_hs_evt c buf (code # of_nat (length params) # params) t1)"

text \<open>A packet of the controller; an ACL packet is its serialised form.\<close>

datatype ctl_packet = Event u8 bytes | Acl bytes | Sync | Iso

definition LE_META :: u8 where "LE_META = 0x3e"
definition LE_ADV_RPT :: u8 where "LE_ADV_RPT = 0x02"
definition LE_EXT_ADV_RPT :: u8 where "LE_EXT_ADV_RPT = 0x0d"

definition discardable_event :: "u8 \<Rightarrow> bytes \<Rightarrow> bool" where
  "discardable_event code params \<longleftrightarrow>
     code = LE_META \<and> (case params of [] \<Rightarrow> False | p # _ \<Rightarrow> p = LE_ADV_RPT \<or> p = LE_EXT_ADV_RPT)"

definition rx_dispatch :: "'t host_c \<Rightarrow> nat \<Rightarrow> ctl_packet \<Rightarrow> 't \<Rightarrow> 't option" where
  "rx_dispatch c acl_size packet t =
     (case packet of
        Event code params \<Rightarrow> Some (feed_event c code params (discardable_event code params) t)
      | Acl acl \<Rightarrow>
          (let (om, t1) = hc_alloc_acl_from_ll c t
           in if om = NULL then Some t1
              else if length acl > ACL_PACKET_MAX acl_size then None
              else let (rc, t2) = hc_mbuf_append c om acl t1
                in if rc \<noteq> 0 then Some (hc_mbuf_free_chain c om t2)
                   else Some (hc_to_hs_acl c om t2))
      | Sync \<Rightarrow> Some t
      | Iso \<Rightarrow> Some t)"

section \<open>Lemmas\<close>

lemma fifo_sendD:
  assumes "fifo_channel ch contents cap"
  shows "ch_try_send ch p q = None \<Longrightarrow> length (contents q) \<ge> cap"
    and "ch_try_send ch p q = Some q' \<Longrightarrow> length (contents q) < cap \<and> contents q' = contents q @ [p]"
  using assms [unfolded fifo_channel_def, THEN conjunct1, rule_format, of q p] by simp_all

lemma fifo_receiveD:
  assumes "fifo_channel ch contents cap"
  shows "ch_try_receive ch q = None \<longleftrightarrow> contents q = []"
    and "ch_try_receive ch q = Some (p, q') \<Longrightarrow> contents q = p # contents q'"
  using assms [unfolded fifo_channel_def, THEN conjunct2, rule_format, of q]
  by (cases "ch_try_receive ch q"; auto)+

lemma fifo_receive_Cons:
  assumes "fifo_channel ch contents cap" and "contents q = p # ps"
  obtains q' where "ch_try_receive ch q = Some (p, q')" and "contents q' = ps"
proof -
  obtain p' q' where r: "ch_try_receive ch q = Some (p', q')"
    using fifo_receiveD(1) [OF assms(1), of q] assms(2) by (cases "ch_try_receive ch q") auto
  with fifo_receiveD(2) [OF assms(1) r] assms(2) that show ?thesis by simp
qed

lemma drain_queue_empties:
  assumes "fifo_channel ch contents cap"
  shows "\<exists>q'. drain_queue ch q = Some q' \<and> contents q' = []"
proof (induction "length (contents q)" arbitrary: q)
  case 0
  then show ?case using fifo_receiveD(1) [OF assms, of q] by (simp add: drain_queue.simps)
next
  case (Suc n)
  then obtain p q1 where r: "ch_try_receive ch q = Some (p, q1)"
    using fifo_receiveD(1) [OF assms, of q] by (cases "ch_try_receive ch q") auto
  with fifo_receiveD(2) [OF assms r] Suc show ?case by (auto simp: drain_queue.simps [of ch q])
qed

lemma flatten_chain:
  assumes "chain (\<lambda>p. om_next (mem p)) om oms NULL"
  shows "flatten n mem om packet =
    Some (let all = packet @ concat (map (\<lambda>p. om_data (mem p)) oms)
          in if length all \<le> n \<or> oms = [] then Inr all else Inl ())"
  using assms
proof (induction oms arbitrary: om packet)
  case Nil
  then show ?case by (simp add: flatten.simps)
next
  case (Cons o1 oms)
  then have om: "om = o1" "om \<noteq> NULL" and ch: "chain (\<lambda>p. om_next (mem p)) (om_next (mem om)) oms NULL" by auto
  show ?case
  proof (cases "length packet + length (om_data (mem om)) \<le> n")
    case False
    with om show ?thesis by (subst flatten.simps) (simp add: packet_extend_def Let_def)
  next
    case True
    with om Cons.IH [OF ch, of "packet @ om_data (mem om)"] show ?thesis
      by (subst flatten.simps) (simp add: packet_extend_def Let_def)
  qed
qed

text \<open>A bounded list is such a channel.\<close>

definition list_chan :: "nat \<Rightarrow> bytes list chan_ops" where
  "list_chan cap = \<lparr>ch_try_send = (\<lambda>p q. if length q < cap then Some (q @ [p]) else None),
     ch_try_receive = (\<lambda>q. case q of [] \<Rightarrow> None | p # q' \<Rightarrow> Some (p, q'))\<rparr>"

lemma list_chan_fifo: "fifo_channel (list_chan cap) id cap"
  by (auto simp: fifo_channel_def list_chan_def split: list.splits)

section \<open>Properties\<close>

lemma to_ll_cmd_result:
  assumes "fifo_channel ch contents CMD_QUEUE_DEPTH"
    and "length mem \<ge> 3" and "length mem \<ge> 3 + unat (mem ! 2)"
  shows "\<exists>rc st'. ble_transport_to_ll_cmd_impl c ch buf mem st = Some (rc, st') \<and>
    hs_host st' = hc_transport_free c buf (hs_host st) \<and> hs_acl_queue st' = hs_acl_queue st \<and>
    (if length (contents (hs_cmd_queue st)) < 2
     then rc = LL_OK \<and> contents (hs_cmd_queue st') = contents (hs_cmd_queue st) @ [take (3 + unat (mem ! 2)) mem]
     else rc = LL_MEM_CAPACITY \<and> hs_cmd_queue st' = hs_cmd_queue st)"
proof -
  have "unat (mem ! 2) < 2 ^ 8" using unsigned_less [of "mem ! 2"] by simp
  then have "packet_extend CMD_PACKET_MAX [] (take (3 + unat (mem ! 2)) mem) = Some (take (3 + unat (mem ! 2)) mem)"
    by (simp add: packet_extend_def CMD_PACKET_MAX_def)
  with assms fifo_sendD [OF assms(1), of "take (3 + unat (mem ! 2)) mem" "hs_cmd_queue st"] show ?thesis
    by (auto simp: ble_transport_to_ll_cmd_impl_def Let_def CMD_QUEUE_DEPTH_def split: option.splits)
qed

text \<open>
  C28: a command buffer of the C host (opcode, length, that many parameters) is never too large
  for a command packet, so the call does not panic; it is freed exactly once, and queued as
  exactly its bytes, behind the commands that wait, or refused when the queue is full.
\<close>

theorem to_ll_cmd_correct:
  assumes "fifo_channel ch contents CMD_QUEUE_DEPTH"
    and "length mem \<ge> 3" and "length mem \<ge> 3 + unat (mem ! 2)"
  shows "\<exists>rc st'. ble_transport_to_ll_cmd_impl c ch buf mem st = Some (rc, st') \<and>
    hs_host st' = hc_transport_free c buf (hs_host st) \<and> hs_acl_queue st' = hs_acl_queue st \<and>
    (if length (contents (hs_cmd_queue st)) < 2
     then rc = LL_OK \<and> contents (hs_cmd_queue st') = contents (hs_cmd_queue st) @ [take (3 + unat (mem ! 2)) mem]
     else rc = LL_MEM_CAPACITY \<and> hs_cmd_queue st' = hs_cmd_queue st)"
  by (rule to_ll_cmd_result [OF assms])

text \<open>A host that logs what it is given: an event, an ACL packet handed over, a buffer freed.\<close>

datatype host_log = GotEvt bytes | GotAcl ptr | Appended bytes | Freed ptr | FreedChain ptr

definition log_host :: "host_log list host_c" where
  "log_host = \<lparr>hc_alloc_evt = (\<lambda>_. Pair 8), hc_to_hs_evt = (\<lambda>_ e l. l @ [GotEvt e]), hc_transport_free = (\<lambda>b l. l @ [Freed b]),
     hc_mbuf_free_chain = (\<lambda>b l. l @ [FreedChain b]), hc_alloc_acl_from_ll = Pair 16,
     hc_mbuf_append = (\<lambda>_ d l. (0, l @ [Appended d])), hc_to_hs_acl = (\<lambda>m l. l @ [GotAcl m])\<rparr>"

theorem to_ll_cmd_correct_witness:
  "\<exists>st'. ble_transport_to_ll_cmd_impl log_host (list_chan 2) 64 [3, 12, 0]
       \<lparr>hs_cmd_queue = [], hs_acl_queue = [], hs_host = []\<rparr> = Some (LL_OK, st') \<and>
     hs_cmd_queue st' = [[3, 12, 0]] \<and> hs_host st' = [Freed 64]"
  using to_ll_cmd_correct [OF list_chan_fifo [of 2, folded CMD_QUEUE_DEPTH_def], of "[3, 12, 0]"
      log_host 64 "\<lparr>hs_cmd_queue = [], hs_acl_queue = [], hs_host = []\<rparr>"]
  by (auto simp: CMD_QUEUE_DEPTH_def log_host_def)

text \<open>
  an outgoing ACL packet, an mbuf chain, is flattened in order into one packet and queued
  behind those that wait, unless it is larger than the transport buffer or the queue is full;
  in every case the call returns and the chain is freed exactly once.
\<close>

theorem to_ll_acl_correct:
  assumes "fifo_channel ch contents cap" and "chain (\<lambda>p. om_next (mem p)) om oms NULL"
  shows "\<exists>rc st'. ble_transport_to_ll_acl_impl c ch acl_size mem om st = Some (rc, st') \<and>
    hs_host st' = hc_mbuf_free_chain c om (hs_host st) \<and> hs_cmd_queue st' = hs_cmd_queue st \<and>
    (if length (concat (map (\<lambda>p. om_data (mem p)) oms)) \<le> 4 + acl_size \<and> length (contents (hs_acl_queue st)) < cap
     then rc = LL_OK \<and> contents (hs_acl_queue st') = contents (hs_acl_queue st) @ [concat (map (\<lambda>p. om_data (mem p)) oms)]
     else rc = LL_MEM_CAPACITY \<and> hs_acl_queue st' = hs_acl_queue st)"
  using flatten_chain [OF assms(2), of "ACL_PACKET_MAX acl_size" "[]"]
    fifo_sendD [OF assms(1), of "concat (map (\<lambda>p. om_data (mem p)) oms)" "hs_acl_queue st"]
  by (auto simp: ble_transport_to_ll_acl_impl_def Let_def ACL_PACKET_MAX_def split: option.splits)

theorem to_ll_acl_correct_witness:
  "\<exists>st'. ble_transport_to_ll_acl_impl log_host (list_chan 4) 27
       (\<lambda>p. if p = 64 then \<lparr>om_data = [1, 2], om_next = 128\<rparr> else \<lparr>om_data = [3], om_next = NULL\<rparr>) 64
       \<lparr>hs_cmd_queue = [], hs_acl_queue = [], hs_host = []\<rparr> = Some (LL_OK, st') \<and>
     hs_acl_queue st' = [[1, 2, 3]] \<and> hs_host st' = [FreedChain 64]"
  using to_ll_acl_correct [OF list_chan_fifo [of 4], of
      "\<lambda>p. if p = 64 then \<lparr>om_data = [1, 2], om_next = 128\<rparr> else \<lparr>om_data = [3], om_next = NULL\<rparr>" 64 "[64, 128]"
      log_host 27 "\<lparr>hs_cmd_queue = [], hs_acl_queue = [], hs_host = []\<rparr>"]
  by (auto simp: log_host_def)

text \<open>
  An event of the controller is fed to the host as its code, the length of its parameters and
  the parameters, from the discardable pool exactly when it is an LE advertising report (legacy
  or extended), and is dropped when that pool is empty.
\<close>

theorem rx_event_correct:
  assumes "length params < 256"
  shows "rx_dispatch c acl_size (Event code params) t = Some (
     let (buf, t1) = hc_alloc_evt c (code = 0x3e \<and> params \<noteq> [] \<and> hd params \<in> {0x02, 0x0d}) t
     in if buf = NULL then t1 else hc_to_hs_evt c buf (code # of_nat (length params) # params) t1) \<and>
     unat (of_nat (length params) :: u8) = length params"
proof -
  have "discardable_event code params \<longleftrightarrow> code = 0x3e \<and> params \<noteq> [] \<and> hd params \<in> {0x02, 0x0d}"
    by (auto simp: discardable_event_def LE_META_def LE_ADV_RPT_def LE_EXT_ADV_RPT_def split: list.splits)
  with assms show ?thesis by (simp add: rx_dispatch_def feed_event_def unat_of_nat)
qed

theorem rx_event_correct_witness:
  "rx_dispatch log_host 27 (Event 0x3e [0x02, 1]) [] = Some [GotEvt [0x3e, 2, 0x02, 1]]"
  using rx_event_correct [of "[0x02, 1]" log_host 27 "0x3e" "[]"] by (simp add: log_host_def)



end
