(* ===== verification/Hci_Dispatch.thy ===== *)
theory Hci_Dispatch
  imports Hci_Cmds Hci_Transport
begin

text \<open>
  The command dispatcher of the HCI bridge (\<open>nimble-rs/src/hci.rs\<close>, section "Raw -> typed command
  dispatch"): the acknowledgements it synthesises and \<open>send_cmd\<close>.

  The typed commands of the bt-hci crate are the record \<open>ctl_ops\<close>, on a controller of type \<open>'c\<close>:
  the opcode of a command, parsing raw parameters into the typed ones (kept here as the bytes
  they were parsed from), and executing a command, synchronously with the serialised return
  parameters or asynchronously. The awaits of one command are one step.

  \<open>send_arms\<close> lists the tests of \<open>send_cmd\<close> in the order of the source, for a configuration.
\<close>

section \<open>Acknowledgements\<close>

definition STATUS_UNKNOWN_CMD :: u8 where "STATUS_UNKNOWN_CMD = 0x01"
definition STATUS_INVALID_PARAMS :: u8 where "STATUS_INVALID_PARAMS = 0x12"
definition STATUS_HW_FAILURE :: u8 where "STATUS_HW_FAILURE = 0x03"

text \<open>\<open>bt_hci::cmd::Error\<close>: an HCI error, by its status byte, or an I/O error.\<close>

datatype cmd_error = Hci u8 | Io

fun ack_status :: "cmd_error + unit \<Rightarrow> u8" where
  "ack_status (Inr _) = 0"
| "ack_status (Inl (Hci s)) = s"
| "ack_status (Inl Io) = STATUS_HW_FAILURE"

text \<open>\<open>None\<close> is the panic of an \<open>unwrap!\<close> when the return parameters do not fit the event.\<close>

definition complete_ack :: "u16 \<Rightarrow> u8 \<Rightarrow> bytes option \<Rightarrow> bytes option" where
  "complete_ack opcode status ret = do {
     let evt = [0x0e, 0, 1] @ u16_to_le_bytes opcode @ [status];
     evt' \<leftarrow> (case ret of None \<Rightarrow> Some evt | Some r \<Rightarrow> packet_extend EVT_PACKET_MAX evt r);
     Some (evt'[1 := of_nat (length evt' - 2)])
   }"

definition plain_ack :: "u16 \<Rightarrow> u8 \<Rightarrow> bytes option" where
  "plain_ack opcode status = complete_ack opcode status None"

definition status_ack :: "u16 \<Rightarrow> u8 \<Rightarrow> bytes" where
  "status_ack opcode status = [0x0f, 4, status, 1, u16_to_le_bytes opcode ! 0, u16_to_le_bytes opcode ! 1]"

section \<open>Executing one command\<close>

record 'c ctl_ops =
  ct_opcode :: "hci_cmd \<Rightarrow> u16"
  ct_parse :: "hci_cmd \<Rightarrow> bytes \<Rightarrow> bytes option"
  ct_exec_sync :: "hci_cmd \<Rightarrow> bytes \<Rightarrow> 'c \<Rightarrow> (cmd_error + bytes) \<times> 'c"
  ct_exec_async :: "hci_cmd \<Rightarrow> bytes \<Rightarrow> 'c \<Rightarrow> (cmd_error + unit) \<times> 'c"

text \<open>\<open>feed_event(evt[0], &evt[2..], false)\<close>\<close>

definition feed_ack :: "'t host_c \<Rightarrow> bytes \<Rightarrow> 't \<Rightarrow> 't" where
  "feed_ack h evt t = feed_event h (evt ! 0) (drop 2 evt) False t"

definition sync_cmd :: "'c ctl_ops \<Rightarrow> 't host_c \<Rightarrow> hci_cmd \<Rightarrow> u16 \<Rightarrow> bytes \<Rightarrow> 'c \<times> 't \<Rightarrow> ('c \<times> 't) option" where
  "sync_cmd k h cmd opcode params = (\<lambda>(c, t).
     case ct_parse k cmd params of
       None \<Rightarrow> do { evt \<leftarrow> plain_ack opcode STATUS_INVALID_PARAMS; Some (c, feed_ack h evt t) }
     | Some typed \<Rightarrow>
         (let (r, c') = ct_exec_sync k cmd typed c
          in do {
            evt \<leftarrow> (case r of
                Inr ret \<Rightarrow> complete_ack opcode 0 (Some ret)
              | Inl e \<Rightarrow> plain_ack opcode (ack_status (Inl e)));
            Some (c', feed_ack h evt t)
          }))"

definition async_cmd :: "'c ctl_ops \<Rightarrow> 't host_c \<Rightarrow> hci_cmd \<Rightarrow> u16 \<Rightarrow> bytes \<Rightarrow> 'c \<times> 't \<Rightarrow> ('c \<times> 't) option" where
  "async_cmd k h cmd opcode params = (\<lambda>(c, t).
     case ct_parse k cmd params of
       None \<Rightarrow> Some (c, feed_ack h (status_ack opcode STATUS_INVALID_PARAMS) t)
     | Some typed \<Rightarrow>
         (let (r, c') = ct_exec_async k cmd typed c
          in Some (c', feed_ack h (status_ack opcode (ack_status r)) t)))"

section \<open>The dispatcher\<close>

datatype arm = SyncArm hci_cmd | NbArm hci_cmd | MaskedEventMask | AnswerSupported

definition send_arms :: "hci_cfg \<Rightarrow> arm list" where
  "send_arms cfg =
     [SyncArm Reset, SyncArm SetEventMask, SyncArm SetEventMaskPage2, MaskedEventMask,
      SyncArm LeSetEventMask, SyncArm ReadLocalVersionInformation, AnswerSupported,
      SyncArm ReadLocalSupportedFeatures, SyncArm ReadBdAddr, SyncArm LeReadBufferSize,
      SyncArm LeReadLocalSupportedFeatures, SyncArm LeRand, SyncArm LeSetRandomAddr,
      SyncArm LeSetAdvEnable, SyncArm LeSetAddrResolutionEnable, SyncArm LeClearResolvingList,
      SyncArm LeAddDeviceToResolvingList, SyncArm LeRemoveDeviceFromResolvingList,
      SyncArm LeSetPrivacyMode, SyncArm LeSetResolvablePrivateAddrTimeout] @
     (if role_conn cfg then
       [SyncArm Disconnect, NbArm LeReadRemoteFeatures, NbArm ReadRemoteVersionInformation,
        SyncArm LeSetDataLength, SyncArm LeReadSuggestedDefaultDataLength,
        SyncArm LeWriteSuggestedDefaultDataLength, SyncArm LeReadChannelMap, SyncArm ReadRssi,
        SyncArm LeAddDeviceToFilterAcceptList, SyncArm LeRemoveDeviceFromFilterAcceptList,
        SyncArm LeClearFilterAcceptList, SyncArm LeReadFilterAcceptListSize] else []) @
     (if f_broadcaster cfg then
       [SyncArm LeSetAdvParams, SyncArm LeSetAdvData, SyncArm LeSetScanResponseData,
        SyncArm LeReadAdvPhysicalChannelTxPower] else []) @
     (if f_observer cfg then [SyncArm LeSetScanParams, SyncArm LeSetScanEnable] else []) @
     (if f_central cfg then
       [NbArm LeCreateConn, SyncArm LeCreateConnCancel, NbArm LeConnUpdate,
        SyncArm LeSetHostChannelClassification] else []) @
     (if any_sm cfg then
       [NbArm LeEnableEncryption, SyncArm LeLongTermKeyRequestReply,
        SyncArm LeLongTermKeyRequestNegativeReply] else [])"

fun arm_cmd :: "arm \<Rightarrow> hci_cmd" where
  "arm_cmd (SyncArm c) = c"
| "arm_cmd (NbArm c) = c"
| "arm_cmd MaskedEventMask = LeSetEventMask"
| "arm_cmd AnswerSupported = ReadLocalSupportedCmds"

text \<open>The condition of an arm, and its body.\<close>

definition arm_matches :: "'c ctl_ops \<Rightarrow> u16 \<Rightarrow> bytes \<Rightarrow> arm \<Rightarrow> bool" where
  "arm_matches k opcode params a \<longleftrightarrow>
     opcode = ct_opcode k (arm_cmd a) \<and> (a = MaskedEventMask \<longrightarrow> length params \<ge> 8)"

definition mask_params :: "bytes \<Rightarrow> bytes" where
  "mask_params params = (let masked = take 8 params in masked[0 := masked ! 0 AND NOT 0x20])"

fun run_arm :: "'c ctl_ops \<Rightarrow> 't host_c \<Rightarrow> hci_cfg \<Rightarrow> u16 \<Rightarrow> bytes \<Rightarrow> arm \<Rightarrow> 'c \<times> 't \<Rightarrow> ('c \<times> 't) option" where
  "run_arm k h cfg opcode params (SyncArm cmd) s = sync_cmd k h cmd opcode params s"
| "run_arm k h cfg opcode params (NbArm cmd) s = async_cmd k h cmd opcode params s"
| "run_arm k h cfg opcode params MaskedEventMask s = sync_cmd k h LeSetEventMask opcode (mask_params params) s"
| "run_arm k h cfg opcode params AnswerSupported s =
     do { evt \<leftarrow> complete_ack opcode 0 (Some (SUPPORTED_CMDS cfg)); Some (fst s, feed_ack h evt (snd s)) }"

definition send_cmd :: "'c ctl_ops \<Rightarrow> 't host_c \<Rightarrow> hci_cfg \<Rightarrow> bytes \<Rightarrow> 'c \<times> 't \<Rightarrow> ('c \<times> 't) option" where
  "send_cmd k h cfg raw s =
     (if length raw < 2 then None
      else let opcode = u16_from_le_bytes (raw ! 0) (raw ! 1);
               params = drop 3 raw
        in case find (arm_matches k opcode params) (send_arms cfg) of
             Some a \<Rightarrow> run_arm k h cfg opcode params a s
           | None \<Rightarrow> do { evt \<leftarrow> plain_ack opcode STATUS_UNKNOWN_CMD; Some (fst s, feed_ack h evt (snd s)) })"

section \<open>The shape of the acknowledgements\<close>

definition op_lo :: "u16 \<Rightarrow> u8" where "op_lo w = ucast w"
definition op_hi :: "u16 \<Rightarrow> u8" where "op_hi w = ucast (drop_bit 8 w)"

lemma le_bytes: "u16_to_le_bytes w = [op_lo w, op_hi w]"
  by (simp add: u16_to_le_bytes_def op_lo_def op_hi_def)

lemma from_op_bytes [simp]: "u16_from_le_bytes (op_lo w) (op_hi w) = w"
  by (rule u16_le_bytes_roundtrip [OF le_bytes])

lemma complete_ack_form:
  "complete_ack opcode status ret =
     (let r = (case ret of None \<Rightarrow> [] | Some r \<Rightarrow> r)
      in if length r \<le> 251
         then Some (0x0e # of_nat (4 + length r) # 1 # op_lo opcode # op_hi opcode # status # r)
         else None)"
  by (simp add: complete_ack_def packet_extend_def EVT_PACKET_MAX_def Let_def le_bytes split: option.splits)

lemma status_ack_form: "status_ack opcode status = [0x0f, 4, status, 1, op_lo opcode, op_hi opcode]"
  by (simp add: status_ack_def le_bytes)

text \<open>An acknowledgement of the command with this opcode: Command Complete or Command Status.\<close>

definition is_ack :: "u16 \<Rightarrow> u8 \<Rightarrow> bytes \<Rightarrow> bool" where
  "is_ack opcode status evt \<longleftrightarrow> 6 \<le> length evt \<and> length evt \<le> EVT_PACKET_MAX \<and> unat (evt ! 1) = length evt - 2 \<and>
     (evt ! 0 = 0x0e \<and> evt ! 2 = 1 \<and> u16_from_le_bytes (evt ! 3) (evt ! 4) = opcode \<and> evt ! 5 = status \<or>
      evt ! 0 = 0x0f \<and> length evt = 6 \<and> evt ! 2 = status \<and> evt ! 3 = 1 \<and> u16_from_le_bytes (evt ! 4) (evt ! 5) = opcode)"

lemma complete_ack_is_ack:
  assumes "complete_ack opcode status ret = Some evt"
  shows "is_ack opcode status evt"
proof -
  have "unat (of_nat (4 + n) :: u8) = 4 + n" if "n \<le> 251" for n
    using that by (simp only: unat_of_nat) simp
  with assms show ?thesis
    by (auto simp: complete_ack_form is_ack_def EVT_PACKET_MAX_def Let_def split: if_splits)
qed

lemma status_ack_is_ack: "is_ack opcode status (status_ack opcode status)"
  by (simp add: status_ack_form is_ack_def EVT_PACKET_MAX_def)

lemma plain_ack_total: "\<exists>evt. plain_ack opcode status = Some evt \<and> is_ack opcode status evt"
  using complete_ack_is_ack [of opcode status None] by (simp add: plain_ack_def complete_ack_form)

section \<open>Which arm takes a command\<close>

text \<open>Every command is taken by one arm, but for the event mask, which has two.\<close>

definition arm_of :: "hci_cmd \<Rightarrow> arm" where
  "arm_of c =
     (if c = ReadLocalSupportedCmds then AnswerSupported
      else if c \<in> {LeReadRemoteFeatures, ReadRemoteVersionInformation, LeCreateConn, LeConnUpdate, LeEnableEncryption}
      then NbArm c else SyncArm c)"

lemma arms_canonical: "a \<in> set (send_arms cfg) \<Longrightarrow> a = MaskedEventMask \<or> a = arm_of (arm_cmd a)"
proof -
  have "list_all (\<lambda>a. a = MaskedEventMask \<or> a = arm_of (arm_cmd a)) (send_arms cfg)"
    by (simp add: send_arms_def arm_of_def)
  then show "a \<in> set (send_arms cfg) \<Longrightarrow> a = MaskedEventMask \<or> a = arm_of (arm_cmd a)"
    by (simp add: list_all_iff)
qed

fun bound_arm :: "cmd_bound \<Rightarrow> arm" where
  "bound_arm (CmdSync c) = SyncArm c"
| "bound_arm (CmdAsync c) = NbArm c"

lemma send_arms_contract:
  "send_arms cfg =
     take 3 (map bound_arm CoreCmds) @ MaskedEventMask # take 2 (drop 3 (map bound_arm CoreCmds)) @
     AnswerSupported # drop 5 (map bound_arm CoreCmds) @
     map bound_arm (ConnCmds cfg @ AdvCmds cfg @ ScanCmds cfg @ CentralCmds cfg @ SmCmds cfg)"
  by (simp add: send_arms_def CoreCmds_def ConnCmds_def AdvCmds_def ScanCmds_def CentralCmds_def SmCmds_def)

lemma set_pieces: "set xs = set (take 3 xs) \<union> (set (take 2 (drop 3 xs)) \<union> set (drop 5 xs))"
proof -
  have "xs = take 3 xs @ take 2 (drop 3 xs) @ drop 2 (drop 3 xs)"
    by (simp only: append_take_drop_id)
  from arg_cong [OF this, of set] show ?thesis by simp
qed

lemma set_send_arms:
  "set (send_arms cfg) = insert MaskedEventMask (insert AnswerSupported (bound_arm ` set (Controller_cmds cfg)))"
proof -
  have "bound_arm ` set CoreCmds = set (take 3 (map bound_arm CoreCmds)) \<union>
      (set (take 2 (drop 3 (map bound_arm CoreCmds))) \<union> set (drop 5 (map bound_arm CoreCmds)))"
    using set_pieces [of "map bound_arm CoreCmds"] by simp
  then show ?thesis unfolding send_arms_contract Controller_cmds_def set_append image_Un by (simp add: image_Un) blast
qed

lemma find_unique:
  assumes "a \<in> set xs" and "P a" and "\<And>b. b \<in> set xs \<Longrightarrow> P b \<Longrightarrow> b = a"
  shows "find P xs = Some a"
proof (cases "find P xs")
  case None
  with assms(1,2) show ?thesis by (simp add: find_None_iff)
next
  case (Some b)
  then have "b \<in> set xs \<and> P b" by (auto simp: find_Some_iff)
  with assms(3) Some show ?thesis by blast
qed

lemma arm_of_bound: "b \<in> set (Controller_cmds cfg) \<Longrightarrow> bound_arm b = arm_of (bound_cmd b) \<and> bound_cmd b \<noteq> ReadLocalSupportedCmds"
proof -
  have "list_all (\<lambda>b. bound_arm b = arm_of (bound_cmd b) \<and> bound_cmd b \<noteq> ReadLocalSupportedCmds) (Controller_cmds cfg)"
    by (simp add: Controller_cmds_def arm_of_def CoreCmds_def ConnCmds_def AdvCmds_def ScanCmds_def CentralCmds_def SmCmds_def)
  then show "b \<in> set (Controller_cmds cfg) \<Longrightarrow> bound_arm b = arm_of (bound_cmd b) \<and> bound_cmd b \<noteq> ReadLocalSupportedCmds"
    by (simp add: list_all_iff)
qed

lemma arm_cmd_of [simp]: "arm_cmd (arm_of c) = c"
  by (simp add: arm_of_def)

text \<open>The arm that takes a command which is not the event mask.\<close>

lemma find_arm:
  assumes inj: "inj (ct_opcode k)" and c: "c \<noteq> LeSetEventMask"
    and in_arms: "arm_of c \<in> set (send_arms cfg)"
  shows "find (arm_matches k (ct_opcode k c) params) (send_arms cfg) = Some (arm_of c)"
proof (rule find_unique [OF in_arms])
  have "arm_of c \<noteq> MaskedEventMask" using c by (simp add: arm_of_def)
  then show "arm_matches k (ct_opcode k c) params (arm_of c)" by (simp add: arm_matches_def)
  fix b assume "b \<in> set (send_arms cfg)" and m: "arm_matches k (ct_opcode k c) params b"
  then have "arm_cmd b = c" using inj by (auto simp: arm_matches_def dest: injD)
  with c arms_canonical [OF \<open>b \<in> set (send_arms cfg)\<close>] show "b = arm_of c" by auto
qed

text \<open>The two arms of the event mask.\<close>

lemma find_event_mask:
  assumes inj: "inj (ct_opcode k)"
  shows "find (arm_matches k (ct_opcode k LeSetEventMask) params) (send_arms cfg) =
     Some (if length params \<ge> 8 then MaskedEventMask else SyncArm LeSetEventMask)"
proof -
  have "\<exists>rest. send_arms cfg = [SyncArm Reset, SyncArm SetEventMask, SyncArm SetEventMaskPage2, MaskedEventMask, SyncArm LeSetEventMask] @ rest"
    by (simp add: send_arms_def)
  then obtain rest where arms: "send_arms cfg =
      [SyncArm Reset, SyncArm SetEventMask, SyncArm SetEventMaskPage2, MaskedEventMask, SyncArm LeSetEventMask] @ rest" ..
  show ?thesis unfolding arms using inj by (auto simp: arm_matches_def dest: injD)
qed

lemma arm_cmd_bound [simp]: "arm_cmd (bound_arm b) = bound_cmd b"
  by (cases b) simp_all

lemma arm_cmd_forwarded:
  assumes "a \<in> set (send_arms cfg)"
  shows "arm_cmd a \<in> bound_cmd ` set (Controller_cmds cfg) \<or> arm_cmd a = ReadLocalSupportedCmds"
proof -
  from assms consider "a = MaskedEventMask" | "a = AnswerSupported" | b where "b \<in> set (Controller_cmds cfg)" "a = bound_arm b"
    unfolding set_send_arms by blast
  then show ?thesis
  proof cases
    case 1
    have "bound_cmd (CmdSync LeSetEventMask) \<in> bound_cmd ` set (Controller_cmds cfg)"
      by (rule imageI) (simp add: Controller_cmds_def CoreCmds_def)
    with 1 show ?thesis by simp
  qed auto
qed

lemma find_unknown:
  assumes "\<And>c. c \<in> bound_cmd ` set (Controller_cmds cfg) \<or> c = ReadLocalSupportedCmds \<Longrightarrow> opcode \<noteq> ct_opcode k c"
  shows "find (arm_matches k opcode params) (send_arms cfg) = None"
  unfolding find_None_iff using assms arm_cmd_forwarded by (metis arm_matches_def)

section \<open>One acknowledgement for every command\<close>

text \<open>The return parameters of the controller fit an event.\<close>

definition returns_fit :: "'c ctl_ops \<Rightarrow> bool" where
  "returns_fit k \<longleftrightarrow> (\<forall>cmd typed c ret. fst (ct_exec_sync k cmd typed c) = Inr ret \<longrightarrow> length ret \<le> 251)"

definition acked :: "'t host_c \<Rightarrow> u16 \<Rightarrow> 't \<Rightarrow> ('c \<times> 't) option \<Rightarrow> bool" where
  "acked h opcode t r \<longleftrightarrow> (\<exists>c' evt status. r = Some (c', feed_ack h evt t) \<and> is_ack opcode status evt)"

lemma ackedI: "is_ack opcode status evt \<Longrightarrow> acked h opcode t (Some (c', feed_ack h evt t))"
  unfolding acked_def by blast

lemma plain_acked: "acked h opcode t (do { evt \<leftarrow> plain_ack opcode status; Some (c', feed_ack h evt t) })"
  using plain_ack_total [of opcode status] by (auto intro: ackedI)

lemma complete_acked:
  "length ret \<le> 251 \<Longrightarrow> acked h opcode t (do { evt \<leftarrow> complete_ack opcode 0 (Some ret); Some (c', feed_ack h evt t) })"
  using complete_ack_is_ack [of opcode 0 "Some ret"] by (simp add: complete_ack_form ackedI)

lemma sync_cmd_acked:
  assumes "returns_fit k"
  shows "acked h opcode t (sync_cmd k h cmd opcode params (c, t))"
proof (cases "ct_parse k cmd params")
  case None
  then show ?thesis by (simp add: sync_cmd_def plain_acked)
next
  case (Some typed)
  obtain r c' where ex: "ct_exec_sync k cmd typed c = (r, c')" by fastforce
  show ?thesis
  proof (cases r)
    case (Inl e)
    with Some ex show ?thesis by (simp add: sync_cmd_def plain_acked)
  next
    case (Inr ret)
    with ex assms have "length ret \<le> 251" unfolding returns_fit_def by (metis fst_conv)
    with Some ex Inr show ?thesis by (simp add: sync_cmd_def complete_acked)
  qed
qed

lemma async_cmd_acked: "acked h opcode t (async_cmd k h cmd opcode params (c, t))"
  by (simp add: async_cmd_def case_prod_beta ackedI [OF status_ack_is_ack] split: option.splits)

lemma run_arm_acked:
  assumes "returns_fit k"
  shows "acked h opcode t (run_arm k h cfg opcode params a (c, t))"
proof (cases a)
  case AnswerSupported
  have "length (SUPPORTED_CMDS cfg) = 64" by (simp add: SUPPORTED_CMDS_def)
  with AnswerSupported show ?thesis by (simp add: complete_acked)
qed (simp_all add: sync_cmd_acked [OF assms] async_cmd_acked)

section \<open>Properties\<close>

lemma send_cmd_acked:
  assumes "length raw \<ge> 2" and "returns_fit k"
  shows "acked h (u16_from_le_bytes (raw ! 0) (raw ! 1)) t (send_cmd k h cfg raw (c, t))"
  using assms(1) by (simp add: send_cmd_def Let_def plain_acked run_arm_acked [OF assms(2)] split: option.splits)


text \<open>
  An example controller: the opcode of a command is its place in the order of declaration, the
  parameters are kept as they are, every command succeeds without return parameters and is
  logged.
\<close>

definition demo_ops :: "(hci_cmd \<times> bytes) list ctl_ops" where
  "demo_ops = \<lparr>ct_opcode = (\<lambda>c. of_nat (8 * fst (cmd_bit c) + snd (cmd_bit c))), ct_parse = (\<lambda>_ p. Some p),
     ct_exec_sync = (\<lambda>c p l. (Inr [], l @ [(c, p)])), ct_exec_async = (\<lambda>c p l. (Inr (), l @ [(c, p)]))\<rparr>"

abbreviation demo_cfg :: hci_cfg where
  "demo_cfg \<equiv> \<lparr>f_central = False, f_peripheral = True, f_broadcaster = True, f_observer = False, f_sm = False, f_sm_sc_only = False\<rparr>"

lemma demo_inj: "inj (ct_opcode demo_ops)"
proof (rule injI)
  fix c d assume "ct_opcode demo_ops c = ct_opcode demo_ops d"
  then show "c = d" by (cases c; cases d) (simp_all add: demo_ops_def)
qed

lemma demo_fits: "returns_fit demo_ops"
  by (simp add: returns_fit_def demo_ops_def)



text \<open>A raw command, the way the host lays it out.\<close>

definition raw_cmd :: "u16 \<Rightarrow> bytes \<Rightarrow> bytes" where
  "raw_cmd opcode params = u16_to_le_bytes opcode @ of_nat (length params) # params"

lemma raw_cmd_simps [simp]:
  "2 \<le> length (raw_cmd opcode params)"
  "u16_from_le_bytes (raw_cmd opcode params ! 0) (raw_cmd opcode params ! 1) = opcode"
  "u16_from_le_bytes (raw_cmd opcode params ! 0) (raw_cmd opcode params ! Suc 0) = opcode"
  "drop 3 (raw_cmd opcode params) = params"
  by (simp_all add: raw_cmd_def le_bytes)

lemma send_raw_cmd:
  "send_cmd k h cfg (raw_cmd opcode params) s =
     (case find (arm_matches k opcode params) (send_arms cfg) of
        Some a \<Rightarrow> run_arm k h cfg opcode params a s
      | None \<Rightarrow> do { evt \<leftarrow> plain_ack opcode STATUS_UNKNOWN_CMD; Some (fst s, feed_ack h evt (snd s)) })"
proof -
  have "\<not> length (raw_cmd opcode params) < 2" by (simp add: not_less)
  then show ?thesis by (simp add: send_cmd_def Let_def del: One_nat_def)
qed


text \<open>
  The LE event mask reaches the controller with the bit of the LE Remote Connection Parameter
  Request event (bit 5 of the first octet) cleared and every other bit of the eight octets as
  the host set it.
\<close>

theorem event_mask_forwarded_masked:
  assumes "inj (ct_opcode k)" and "length params \<ge> 8"
  shows "send_cmd k h cfg (raw_cmd (ct_opcode k LeSetEventMask) params) s =
      sync_cmd k h LeSetEventMask (ct_opcode k LeSetEventMask) (mask_params params) s \<and>
    length (mask_params params) = 8 \<and>
    (\<forall>i < 8. \<forall>n < 8. bit (mask_params params ! i) n \<longleftrightarrow> bit (params ! i) n \<and> (i, n) \<noteq> (0, 5))"
proof -
  have "bit (mask_params params ! i) n \<longleftrightarrow> bit (params ! i) n \<and> (i, n) \<noteq> (0, 5)" if "i < 8" "n < 8" for i n
  proof (cases "i = 0")
    case True
    have "(0x20 :: u8) = 2 ^ 5" by simp
    then have "bit (0x20 :: u8) n \<longleftrightarrow> n = 5" by (simp only: bit_exp_iff) auto
    with True that assms(2) show ?thesis by (simp add: mask_params_def Let_def bit_simps)
  next
    case False
    with that assms(2) show ?thesis by (simp add: mask_params_def Let_def)
  qed
  moreover have "length (mask_params params) = 8" using assms(2) by (simp add: mask_params_def Let_def)
  ultimately show ?thesis using find_event_mask [OF assms(1), of params cfg] assms(2)
    by (simp add: send_raw_cmd)
qed

theorem event_mask_forwarded_masked_witness:
  "send_cmd demo_ops log_host demo_cfg (raw_cmd (ct_opcode demo_ops LeSetEventMask) (replicate 8 0xff)) ([], []) =
     sync_cmd demo_ops log_host LeSetEventMask (ct_opcode demo_ops LeSetEventMask) (mask_params (replicate 8 0xff)) ([], [])"
  using event_mask_forwarded_masked [OF demo_inj, of "replicate 8 0xff" log_host demo_cfg "([], [])"] by simp

end
