(* ===== verification/Hci_Pump.thy ===== *)
theory Hci_Pump
  imports Hci_Dispatch
begin

text \<open>
  The pump of the HCI bridge (\<open>nimble-rs/src/hci.rs\<close>): the two loops of \<open>pump\<close>, each as one poll
  that runs until it is pending, and the global registration through which a blocked C caller
  drives the pump (\<open>PumpSlot\<close>, \<open>register_pump\<close>, \<open>PumpGuard\<close>, \<open>pump_manual\<close>).

  \<open>select\<close> polls the command queue first. The ACL side of the controller (parsing and writing a
  packet, obtaining a buffer, reading) is the record \<open>acl_ops\<close>.
\<close>

section \<open>The transmit and receive loops\<close>

datatype rx_result = RxPending | RxErr | RxOk ctl_packet

record 'c acl_ops =
  ac_valid :: "bytes \<Rightarrow> bool"
  ac_write :: "bytes \<Rightarrow> 'c \<Rightarrow> bool \<times> 'c"
  ac_alloc_buf :: "'c \<Rightarrow> bool \<times> 'c"
  ac_read :: "'c \<Rightarrow> rx_result \<times> 'c"

definition tx_acl :: "'c acl_ops \<Rightarrow> bytes \<Rightarrow> 'c \<Rightarrow> 'c" where
  "tx_acl a acl c = (if ac_valid a acl then snd (ac_write a acl c) else c)"

partial_function (option) pump_tx ::
  "'c ctl_ops \<Rightarrow> 'c acl_ops \<Rightarrow> 't host_c \<Rightarrow> hci_cfg \<Rightarrow> 'q chan_ops \<Rightarrow> 'c \<times> ('q, 't) hci_state \<Rightarrow> ('c \<times> ('q, 't) hci_state) option" where
  "pump_tx k a h cfg ch s =
     (case ch_try_receive ch (hs_cmd_queue (snd s)) of
        Some y \<Rightarrow> do {
          (c, t) \<leftarrow> send_cmd k h cfg (fst y) (fst s, hs_host (snd s));
          pump_tx k a h cfg ch (c, (snd s)\<lparr>hs_cmd_queue := snd y, hs_host := t\<rparr>)
        }
      | None \<Rightarrow>
          (case ch_try_receive ch (hs_acl_queue (snd s)) of
             Some y \<Rightarrow> pump_tx k a h cfg ch (tx_acl a (fst y) (fst s), (snd s)\<lparr>hs_acl_queue := snd y\<rparr>)
           | None \<Rightarrow> Some s))"

text \<open>A failed buffer allocation yields: this poll is over.\<close>

partial_function (option) pump_rx ::
  "'c acl_ops \<Rightarrow> 't host_c \<Rightarrow> nat \<Rightarrow> 'c \<times> 't \<Rightarrow> ('c \<times> 't) option" where
  "pump_rx a h acl_size s =
     (case ac_alloc_buf a (fst s) of (ok, c1) \<Rightarrow>
        if \<not> ok then Some (c1, snd s)
        else (case ac_read a c1 of (r, c2) \<Rightarrow>
          (case r of
             RxPending \<Rightarrow> Some (c2, snd s)
           | RxErr \<Rightarrow> pump_rx a h acl_size (c2, snd s)
           | RxOk packet \<Rightarrow> do {
               t \<leftarrow> rx_dispatch h acl_size packet (snd s);
               pump_rx a h acl_size (c2, t)
             })))"

text \<open>One poll of \<open>pump\<close>: \<open>join\<close> polls the transmit loop and then the receive loop.\<close>

definition pump :: "'c ctl_ops \<Rightarrow> 'c acl_ops \<Rightarrow> 't host_c \<Rightarrow> hci_cfg \<Rightarrow> 'q chan_ops \<Rightarrow> nat \<Rightarrow> 'c \<times> ('q, 't) hci_state \<Rightarrow>
    ('c \<times> ('q, 't) hci_state) option" where
  "pump k a h cfg ch acl_size s = do {
     (c1, st1) \<leftarrow> pump_tx k a h cfg ch s;
     (c2, t2) \<leftarrow> pump_rx a h acl_size (c1, hs_host st1);
     Some (c2, st1\<lparr>hs_host := t2\<rparr>)
   }"

section \<open>The registered pump\<close>

record pump_slot =
  ps_fut :: "nat option"
  ps_busy :: bool

definition PUMP_init :: pump_slot where
  "PUMP_init = \<lparr>ps_fut = None, ps_busy = False\<rparr>"

definition register_pump :: "bool \<Rightarrow> nat \<Rightarrow> pump_slot \<Rightarrow> pump_slot option" where
  "register_pump checks fut slot =
     (if checks \<and> ps_fut slot \<noteq> None then None else Some \<lparr>ps_fut = Some fut, ps_busy = False\<rparr>)"

definition PumpGuard_drop :: "pump_slot \<Rightarrow> pump_slot" where
  "PumpGuard_drop slot = \<lparr>ps_fut = None, ps_busy = False\<rparr>"

text \<open>The critical section at the start of \<open>pump_manual\<close>, and the one at its end.\<close>

definition pump_begin :: "pump_slot \<Rightarrow> nat option \<times> pump_slot" where
  "pump_begin slot =
     (if ps_busy slot then (None, slot)
      else case ps_fut slot of Some fut \<Rightarrow> (Some fut, slot\<lparr>ps_busy := True\<rparr>) | None \<Rightarrow> (None, slot))"

definition pump_end :: "pump_slot \<Rightarrow> pump_slot" where
  "pump_end slot = slot\<lparr>ps_busy := False\<rparr>"

text \<open>
  \<open>poll fut w\<close> polls the future; it sees and may change the slot, as the C code it runs may
  call \<open>pump_manual\<close> again.
\<close>

definition pump_manual ::
  "(nat \<Rightarrow> waker \<Rightarrow> pump_slot \<times> 's \<Rightarrow> (pump_slot \<times> 's) option) \<Rightarrow> waker \<Rightarrow> pump_slot \<times> 's \<Rightarrow> (bool \<times> pump_slot \<times> 's) option" where
  "pump_manual poll w = (\<lambda>(slot, s).
     case pump_begin slot of
       (None, slot1) \<Rightarrow> Some (False, slot1, s)
     | (Some fut, slot1) \<Rightarrow> do {
         (slot2, s') \<leftarrow> poll fut w (slot1, s);
         Some (True, pump_end slot2, s')
       })"

section \<open>What the transmit loop does\<close>

text \<open>The specification: all commands in order, then all data packets in order.\<close>

primrec send_all :: "'c ctl_ops \<Rightarrow> 't host_c \<Rightarrow> hci_cfg \<Rightarrow> bytes list \<Rightarrow> 'c \<times> 't \<Rightarrow> ('c \<times> 't) option" where
  "send_all k h cfg [] s = Some s"
| "send_all k h cfg (p # ps) s = do { s' \<leftarrow> send_cmd k h cfg p s; send_all k h cfg ps s' }"

lemma pump_tx_acls:
  assumes ch: "fifo_channel ch contents cap" and "contents (hs_cmd_queue st) = []" and "contents (hs_acl_queue st) = acls"
  shows "\<exists>st'. pump_tx k a h cfg ch (c, st) = Some (fold (tx_acl a) acls c, st') \<and>
    contents (hs_cmd_queue st') = [] \<and> contents (hs_acl_queue st') = [] \<and> hs_host st' = hs_host st"
  using assms(2,3)
proof (induction acls arbitrary: c st)
  case Nil
  then have "ch_try_receive ch (hs_cmd_queue st) = None" "ch_try_receive ch (hs_acl_queue st) = None"
    using fifo_receiveD(1) [OF ch] by simp_all
  with Nil show ?case by (subst pump_tx.simps) simp
next
  case (Cons p ps)
  then obtain q where r: "ch_try_receive ch (hs_acl_queue st) = Some (p, q)" and q: "contents q = ps"
    using fifo_receive_Cons [OF ch, of "hs_acl_queue st" p ps] by blast
  have "ch_try_receive ch (hs_cmd_queue st) = None" using Cons.prems fifo_receiveD(1) [OF ch] by simp
  with r have step: "pump_tx k a h cfg ch (c, st) = pump_tx k a h cfg ch (tx_acl a p c, st\<lparr>hs_acl_queue := q\<rparr>)"
    by (subst pump_tx.simps) simp
  show ?case unfolding step using Cons.IH [of "st\<lparr>hs_acl_queue := q\<rparr>" "tx_acl a p c"] q Cons.prems by simp
qed

lemma pump_tx_all:
  assumes ch: "fifo_channel ch contents cap" and "contents (hs_cmd_queue st) = cmds" and "contents (hs_acl_queue st) = acls"
    and "send_all k h cfg cmds (c, hs_host st) = Some (c', t')"
  shows "\<exists>st'. pump_tx k a h cfg ch (c, st) = Some (fold (tx_acl a) acls c', st') \<and>
    contents (hs_cmd_queue st') = [] \<and> contents (hs_acl_queue st') = [] \<and> hs_host st' = t'"
  using assms(2-4)
proof (induction cmds arbitrary: c st)
  case Nil
  with pump_tx_acls [OF ch, of st acls k a h cfg c] show ?case by simp
next
  case (Cons p ps)
  then obtain q where r: "ch_try_receive ch (hs_cmd_queue st) = Some (p, q)" and q: "contents q = ps"
    using fifo_receive_Cons [OF ch, of "hs_cmd_queue st" p ps] by blast
  from Cons.prems(3) obtain c1 t1 where s: "send_cmd k h cfg p (c, hs_host st) = Some (c1, t1)"
    and rest: "send_all k h cfg ps (c1, t1) = Some (c', t')"
    by (auto simp: bind_eq_Some_conv)
  have step: "pump_tx k a h cfg ch (c, st) = pump_tx k a h cfg ch (c1, st\<lparr>hs_cmd_queue := q, hs_host := t1\<rparr>)"
    using r s by (subst pump_tx.simps) simp
  show ?case unfolding step using Cons.IH [of "st\<lparr>hs_cmd_queue := q, hs_host := t1\<rparr>" c1] q Cons.prems(2) rest by simp
qed

lemma send_all_total:
  assumes "returns_fit k" and "\<forall>p \<in> set ps. length p \<ge> 2"
  shows "\<exists>c' t'. send_all k h cfg ps (c, t) = Some (c', t')"
  using assms(2)
proof (induction ps arbitrary: c t)
  case (Cons p ps)
  have "acked h (u16_from_le_bytes (p ! 0) (p ! 1)) t (send_cmd k h cfg p (c, t))"
    using Cons.prems by (intro send_cmd_acked [OF _ assms(1)]) simp
  then obtain c1 t1 where "send_cmd k h cfg p (c, t) = Some (c1, t1)" by (auto simp: acked_def)
  with Cons show ?case by simp
qed simp

section \<open>Exclusive polling under interleaving\<close>

text \<open>
  Contexts begin and end polls in any order; \<open>flight\<close> is the list of futures being polled. The
  driver registers a pump, and drops its registration, while no poll is in flight.
\<close>

inductive pump_step :: "bool \<Rightarrow> pump_slot \<times> nat list \<Rightarrow> pump_slot \<times> nat list \<Rightarrow> bool" for checks where
  enter: "pump_begin slot = (Some fut, slot') \<Longrightarrow> pump_step checks (slot, fl) (slot', fut # fl)"
| refused: "pump_begin slot = (None, slot') \<Longrightarrow> pump_step checks (slot, fl) (slot', fl)"
| finish: "fl = us @ fut # vs \<Longrightarrow> pump_step checks (slot, fl) (pump_end slot, us @ vs)"
| register: "register_pump checks fut slot = Some slot' \<Longrightarrow> pump_step checks (slot, []) (slot', [])"
| drop: "pump_step checks (slot, []) (PumpGuard_drop slot, [])"

definition pump_inv :: "pump_slot \<times> nat list \<Rightarrow> bool" where
  "pump_inv = (\<lambda>(slot, fl). length fl \<le> 1 \<and> (ps_busy slot \<longleftrightarrow> fl \<noteq> []) \<and> (\<forall>f \<in> set fl. ps_fut slot = Some f))"

lemma pump_step_inv: "pump_step checks s s' \<Longrightarrow> pump_inv s \<Longrightarrow> pump_inv s'"
proof (induction rule: pump_step.induct)
  case (enter slot fut slot' fl)
  then show ?case by (auto simp: pump_inv_def pump_begin_def split: if_splits option.splits)
next
  case (refused slot slot' fl)
  then show ?case by (auto simp: pump_inv_def pump_begin_def split: if_splits option.splits)
next
  case (finish fl us fut vs slot)
  then show ?case by (cases us; cases vs) (auto simp: pump_inv_def pump_end_def)
next
  case (register fut slot slot')
  then show ?case by (auto simp: pump_inv_def register_pump_def split: if_splits)
next
  case (drop slot)
  then show ?case by (simp add: pump_inv_def PumpGuard_drop_def)
qed

section \<open>Properties\<close>


definition demo_acl :: "(hci_cmd \<times> bytes) list acl_ops" where
  "demo_acl = \<lparr>ac_valid = (\<lambda>p. length p \<ge> 4), ac_write = (\<lambda>p l. (True, l @ [(Reset, p)])), ac_alloc_buf = Pair True,
     ac_read = Pair RxPending\<rparr>"




text \<open>
  Polling by hand polls the registered pump once, with the caller's waker and the slot marked
  busy during the poll, and leaves it ready for the next call; without a pump, or with a poll
  in flight, it does nothing and says so.
\<close>

theorem pump_manual_correct:
  "pump_manual poll w (slot, s) =
     (if ps_busy slot \<or> ps_fut slot = None then Some (False, slot, s)
      else (case poll (the (ps_fut slot)) w (\<lparr>ps_fut = ps_fut slot, ps_busy = True\<rparr>, s) of
          None \<Rightarrow> None
        | Some (slot2, s') \<Rightarrow> Some (True, \<lparr>ps_fut = ps_fut slot2, ps_busy = False\<rparr>, s')))"
  by (cases slot) (auto simp: pump_manual_def pump_begin_def pump_end_def bind_eq_Some_conv split: option.splits if_splits)

end
