(* ===== verification/Ble_Types.thy ===== *)
theory Ble_Types
  imports Nimble_Prelude
begin

text \<open>
  The types every part of the safe API shares (\<open>nimble-rs/src/lib.rs\<close>, lines 75 to 251): the
  constants of the C bindings, UUIDs, addresses, error codes and callback slots.

  The bindings are generated from C headers outside the repository. Their constants are the
  argument \<open>k\<close>, a function from the names to the \<open>u32\<close> values bindgen gives them; a theorem that
  needs two of them to differ says so, and \<open>nimble_consts\<close> is a table that satisfies all these
  hypotheses.
\<close>

section \<open>The constants of the bindings\<close>

datatype sys_const =
    BLE_HS_EALREADY | BLE_HS_EINVAL | BLE_HS_ENOMEM | BLE_HS_ENOTCONN | BLE_HS_EBADDATA
  | BLE_HS_EBUSY | BLE_HS_ESTALLED | BLE_HS_CONN_HANDLE_NONE | BLE_ATT_ERR_UNLIKELY
  | BLE_UUID_TYPE_16 | BLE_UUID_TYPE_128
  | BLE_SM_IOACT_DISP | BLE_SM_IOACT_INPUT | BLE_SM_IOACT_NUMCMP | BLE_SM_IOACT_OOB
  | BLE_GAP_EVENT_CONNECT | BLE_GAP_EVENT_DISCONNECT | BLE_GAP_EVENT_MTU | BLE_GAP_EVENT_DISC
  | BLE_GAP_EVENT_DISC_COMPLETE | BLE_GAP_EVENT_PASSKEY_ACTION | BLE_GAP_EVENT_ENC_CHANGE
  | BLE_GAP_EVENT_SUBSCRIBE | BLE_GAP_EVENT_NOTIFY_TX | BLE_GAP_EVENT_NOTIFY_RX
  | BLE_GAP_SUBSCRIBE_REASON_WRITE | BLE_GAP_SUBSCRIBE_REASON_TERM | BLE_GAP_SUBSCRIBE_REASON_RESTORE
  | BLE_GATT_ACCESS_OP_READ_CHR | BLE_GATT_ACCESS_OP_WRITE_CHR
  | BLE_GATT_REGISTER_OP_SVC | BLE_GATT_REGISTER_OP_CHR | BLE_GATT_REGISTER_OP_DSC
  | BLE_GATT_SVC_TYPE_PRIMARY | BLE_GATT_SVC_TYPE_SECONDARY
  | BLE_GATT_CHR_F_BROADCAST | BLE_GATT_CHR_F_READ | BLE_GATT_CHR_F_WRITE_NO_RSP | BLE_GATT_CHR_F_WRITE
  | BLE_GATT_CHR_F_NOTIFY | BLE_GATT_CHR_F_INDICATE | BLE_GATT_CHR_F_AUTH_SIGN_WRITE
  | BLE_GATT_CHR_F_RELIABLE_WRITE | BLE_GATT_CHR_F_AUX_WRITE | BLE_GATT_CHR_F_READ_ENC
  | BLE_GATT_CHR_F_READ_AUTHEN | BLE_GATT_CHR_F_READ_AUTHOR | BLE_GATT_CHR_F_WRITE_ENC
  | BLE_GATT_CHR_F_WRITE_AUTHEN | BLE_GATT_CHR_F_WRITE_AUTHOR | BLE_GATT_CHR_F_NOTIFY_INDICATE_ENC
  | BLE_GATT_CHR_F_NOTIFY_INDICATE_AUTHEN | BLE_GATT_CHR_F_NOTIFY_INDICATE_AUTHOR
  | BLE_L2CAP_EVENT_COC_CONNECTED | BLE_L2CAP_EVENT_COC_DISCONNECTED | BLE_L2CAP_EVENT_COC_ACCEPT
  | BLE_L2CAP_EVENT_COC_DATA_RECEIVED | BLE_L2CAP_EVENT_COC_TX_UNSTALLED
  | BLE_L2CAP_EVENT_COC_RECONFIG_COMPLETED | BLE_L2CAP_EVENT_COC_PEER_RECONFIGURED

type_synonym sys_consts = "sys_const \<Rightarrow> u32"

text \<open>A table, for examples: the values of NimBLE's headers.\<close>

fun nimble_consts :: sys_consts where
  "nimble_consts BLE_HS_EALREADY = 2"
| "nimble_consts BLE_HS_EINVAL = 3"
| "nimble_consts BLE_HS_ENOMEM = 6"
| "nimble_consts BLE_HS_ENOTCONN = 7"
| "nimble_consts BLE_HS_EBADDATA = 10"
| "nimble_consts BLE_HS_EBUSY = 15"
| "nimble_consts BLE_HS_ESTALLED = 31"
| "nimble_consts BLE_HS_CONN_HANDLE_NONE = 0xFFFF"
| "nimble_consts BLE_ATT_ERR_UNLIKELY = 0x0E"
| "nimble_consts BLE_UUID_TYPE_16 = 16"
| "nimble_consts BLE_UUID_TYPE_128 = 128"
| "nimble_consts BLE_SM_IOACT_OOB = 1"
| "nimble_consts BLE_SM_IOACT_INPUT = 2"
| "nimble_consts BLE_SM_IOACT_DISP = 3"
| "nimble_consts BLE_SM_IOACT_NUMCMP = 4"
| "nimble_consts BLE_GAP_EVENT_CONNECT = 0"
| "nimble_consts BLE_GAP_EVENT_DISCONNECT = 1"
| "nimble_consts BLE_GAP_EVENT_DISC = 7"
| "nimble_consts BLE_GAP_EVENT_DISC_COMPLETE = 8"
| "nimble_consts BLE_GAP_EVENT_ENC_CHANGE = 10"
| "nimble_consts BLE_GAP_EVENT_PASSKEY_ACTION = 11"
| "nimble_consts BLE_GAP_EVENT_NOTIFY_RX = 12"
| "nimble_consts BLE_GAP_EVENT_NOTIFY_TX = 13"
| "nimble_consts BLE_GAP_EVENT_SUBSCRIBE = 14"
| "nimble_consts BLE_GAP_EVENT_MTU = 15"
| "nimble_consts BLE_GAP_SUBSCRIBE_REASON_WRITE = 1"
| "nimble_consts BLE_GAP_SUBSCRIBE_REASON_TERM = 2"
| "nimble_consts BLE_GAP_SUBSCRIBE_REASON_RESTORE = 3"
| "nimble_consts BLE_GATT_ACCESS_OP_READ_CHR = 0"
| "nimble_consts BLE_GATT_ACCESS_OP_WRITE_CHR = 1"
| "nimble_consts BLE_GATT_REGISTER_OP_SVC = 1"
| "nimble_consts BLE_GATT_REGISTER_OP_CHR = 2"
| "nimble_consts BLE_GATT_REGISTER_OP_DSC = 3"
| "nimble_consts BLE_GATT_SVC_TYPE_PRIMARY = 1"
| "nimble_consts BLE_GATT_SVC_TYPE_SECONDARY = 2"
| "nimble_consts BLE_GATT_CHR_F_BROADCAST = 0x1"
| "nimble_consts BLE_GATT_CHR_F_READ = 0x2"
| "nimble_consts BLE_GATT_CHR_F_WRITE_NO_RSP = 0x4"
| "nimble_consts BLE_GATT_CHR_F_WRITE = 0x8"
| "nimble_consts BLE_GATT_CHR_F_NOTIFY = 0x10"
| "nimble_consts BLE_GATT_CHR_F_INDICATE = 0x20"
| "nimble_consts BLE_GATT_CHR_F_AUTH_SIGN_WRITE = 0x40"
| "nimble_consts BLE_GATT_CHR_F_RELIABLE_WRITE = 0x80"
| "nimble_consts BLE_GATT_CHR_F_AUX_WRITE = 0x100"
| "nimble_consts BLE_GATT_CHR_F_READ_ENC = 0x200"
| "nimble_consts BLE_GATT_CHR_F_READ_AUTHEN = 0x400"
| "nimble_consts BLE_GATT_CHR_F_READ_AUTHOR = 0x800"
| "nimble_consts BLE_GATT_CHR_F_WRITE_ENC = 0x1000"
| "nimble_consts BLE_GATT_CHR_F_WRITE_AUTHEN = 0x2000"
| "nimble_consts BLE_GATT_CHR_F_WRITE_AUTHOR = 0x4000"
| "nimble_consts BLE_GATT_CHR_F_NOTIFY_INDICATE_ENC = 0x8000"
| "nimble_consts BLE_GATT_CHR_F_NOTIFY_INDICATE_AUTHEN = 0x10000"
| "nimble_consts BLE_GATT_CHR_F_NOTIFY_INDICATE_AUTHOR = 0x20000"
| "nimble_consts BLE_L2CAP_EVENT_COC_CONNECTED = 0"
| "nimble_consts BLE_L2CAP_EVENT_COC_DISCONNECTED = 1"
| "nimble_consts BLE_L2CAP_EVENT_COC_ACCEPT = 2"
| "nimble_consts BLE_L2CAP_EVENT_COC_DATA_RECEIVED = 3"
| "nimble_consts BLE_L2CAP_EVENT_COC_TX_UNSTALLED = 4"
| "nimble_consts BLE_L2CAP_EVENT_COC_RECONFIG_COMPLETED = 5"
| "nimble_consts BLE_L2CAP_EVENT_COC_PEER_RECONFIGURED = 6"

text \<open>\<open>X as c_int\<close> of a constant.\<close>

abbreviation as_c_int :: "u32 \<Rightarrow> c_int" where "as_c_int w \<equiv> sint w"

type_synonym ConnHandle = u16
type_synonym AttrHandle = u16

definition CONN_HANDLE_NONE :: "sys_consts \<Rightarrow> ConnHandle" where
  "CONN_HANDLE_NONE k = ucast (k BLE_HS_CONN_HANDLE_NONE)"

text \<open>The cargo features the API depends on; \<open>cf_sm\<close> stands for \<open>sm\<close> or \<open>sm-sc-only\<close>.\<close>

record ble_cfg =
  cf_peripheral :: bool
  cf_central :: bool
  cf_observer :: bool
  cf_sm :: bool
  cf_l2cap :: bool

definition all_features :: ble_cfg where
  "all_features = \<lparr>cf_peripheral = True, cf_central = True, cf_observer = True, cf_sm = True, cf_l2cap = True\<rparr>"

text \<open>
  A function pointer handed to the C host is one of the crate's trampolines; \<open>None\<close> is null.
\<close>

datatype trampoline =
    On_sync | On_reset | Gap_event_cb | Gatts_register_cb | Gatts_access_cb
  | Disc_svc_cb | Disc_chr_cb | Read_cb | Write_cb | L2cap_event_cb

section \<open>Errors\<close>

datatype BleError = BleError c_int

type_synonym 'a ble_result = "BleError + 'a"

definition BleError_new :: "c_int \<Rightarrow> BleError" where "BleError_new code = BleError code"

primrec BleError_code :: "BleError \<Rightarrow> c_int" where "BleError_code (BleError code) = code"

definition BleError_check :: "c_int \<Rightarrow> unit ble_result" where
  "BleError_check code = (if code = 0 then Inr () else Inl (BleError code))"

text \<open>\<open>result?\<close> and the common \<open>BleError::check(unsafe { f(..) })\<close> on a call with a state.\<close>

definition checked :: "c_int \<times> 's \<Rightarrow> unit ble_result \<times> 's" where
  "checked r = (BleError_check (fst r), snd r)"

lemma checked_simps [simp]: "checked (rc, s) = (BleError_check rc, s)"
  by (simp add: checked_def)

lemma check_simps [simp]:
  "BleError_check 0 = Inr ()" "code \<noteq> 0 \<Longrightarrow> BleError_check code = Inl (BleError code)"
  "BleError_check code = Inr u \<longleftrightarrow> code = 0" "BleError_check code = Inl e \<longleftrightarrow> code \<noteq> 0 \<and> e = BleError code"
  by (auto simp: BleError_check_def)

section \<open>UUIDs\<close>

record ble_uuid16_t =
  uuid16_type :: u8
  uuid16_value :: u16

record ble_uuid128_t =
  uuid128_type :: u8
  uuid128_value :: bytes

datatype BleUuid = Uuid16 ble_uuid16_t | Uuid128 ble_uuid128_t

text \<open>\<open>to_le_bytes\<close> and \<open>from_le_bytes\<close> for an integer of \<open>n\<close> bytes.\<close>

definition to_le_bytes :: "nat \<Rightarrow> 'a::len word \<Rightarrow> bytes" where
  "to_le_bytes n w = map (\<lambda>i. ucast (drop_bit (8 * i) w)) [0..<n]"

primrec from_le_bytes :: "bytes \<Rightarrow> 'a::len word" where
  "from_le_bytes [] = 0"
| "from_le_bytes (b # bs) = ucast b OR push_bit 8 (from_le_bytes bs)"

definition uuid16 :: "sys_consts \<Rightarrow> u16 \<Rightarrow> BleUuid" where
  "uuid16 k uuid = Uuid16 \<lparr>uuid16_type = ucast (k BLE_UUID_TYPE_16), uuid16_value = uuid\<rparr>"

definition uuid128 :: "sys_consts \<Rightarrow> 128 word \<Rightarrow> BleUuid" where
  "uuid128 k uuid = Uuid128 \<lparr>uuid128_type = ucast (k BLE_UUID_TYPE_128), uuid128_value = to_le_bytes 16 uuid\<rparr>"

text \<open>
  The memory a \<open>*const ble_uuid_t\<close> points to: the type in the first byte, then, in the layout
  of C, a 16-bit value at offset 2 (behind a byte of padding) or 16 bytes at offset 1. \<open>as_ptr\<close>
  is the contents at the pointer it returns, \<open>from_raw\<close> reads them.
\<close>

fun as_ptr :: "u8 \<Rightarrow> BleUuid \<Rightarrow> bytes" where
  "as_ptr pad (Uuid16 u) = [uuid16_type u, pad] @ u16_to_le_bytes (uuid16_value u)"
| "as_ptr pad (Uuid128 u) = uuid128_type u # uuid128_value u"

definition from_raw :: "sys_consts \<Rightarrow> bytes \<Rightarrow> BleUuid" where
  "from_raw k uuid =
     (if ucast (uuid ! 0) = k BLE_UUID_TYPE_128
      then Uuid128 \<lparr>uuid128_type = uuid ! 0, uuid128_value = take 16 (drop 1 uuid)\<rparr>
      else Uuid16 \<lparr>uuid16_type = uuid ! 0, uuid16_value = u16_from_le_bytes (uuid ! 2) (uuid ! 3)\<rparr>)"

text \<open>\<open>PartialEq\<close>, through the C function \<open>ble_uuid_cmp\<close>.\<close>

definition BleUuid_eq :: "(bytes \<Rightarrow> bytes \<Rightarrow> c_int) \<Rightarrow> u8 \<Rightarrow> u8 \<Rightarrow> BleUuid \<Rightarrow> BleUuid \<Rightarrow> bool" where
  "BleUuid_eq ble_uuid_cmp pad1 pad2 u v \<longleftrightarrow> ble_uuid_cmp (as_ptr pad1 u) (as_ptr pad2 v) = 0"

section \<open>Printing\<close>

definition hex_digit :: "nat \<Rightarrow> char" where
  "hex_digit d = (if d < 10 then char_of (48 + d) else char_of (87 + d))"

text \<open>\<open>{:0nx}\<close> of a value that fits \<open>n\<close> digits.\<close>

fun hex :: "nat \<Rightarrow> nat \<Rightarrow> string" where
  "hex 0 v = []"
| "hex (Suc n) v = hex n (v div 16) @ [hex_digit (v mod 16)]"

fun BleUuid_fmt :: "BleUuid \<Rightarrow> string" where
  "BleUuid_fmt (Uuid16 u) = ''Uuid16(0x'' @ hex 4 (unat (uuid16_value u)) @ '')''"
| "BleUuid_fmt (Uuid128 u) = ''Uuid128(0x'' @ hex 32 (unat (from_le_bytes (uuid128_value u) :: 128 word)) @ '')''"

section \<open>Addresses\<close>

record ble_addr_t =
  addr_type :: u8
  addr_val :: bytes

datatype BleAddr = BleAddr ble_addr_t

definition BleAddr_new :: "u8 \<Rightarrow> bytes \<Rightarrow> BleAddr" where
  "BleAddr_new kind val = BleAddr \<lparr>addr_type = kind, addr_val = val\<rparr>"

primrec BleAddr_raw :: "BleAddr \<Rightarrow> ble_addr_t" where "BleAddr_raw (BleAddr a) = a"

primrec BleAddr_kind :: "BleAddr \<Rightarrow> u8" where "BleAddr_kind (BleAddr a) = addr_type a"

primrec BleAddr_val :: "BleAddr \<Rightarrow> bytes" where "BleAddr_val (BleAddr a) = addr_val a"

primrec BleAddr_fmt :: "BleAddr \<Rightarrow> string" where
  "BleAddr_fmt (BleAddr a) =
     (let v = (\<lambda>i. hex 2 (unat (addr_val a ! i)))
      in v 5 @ '':'' @ v 4 @ '':'' @ v 3 @ '':'' @ v 2 @ '':'' @ v 1 @ '':'' @ v 0 @ ''/'' @
         to_dec (unat (addr_type a)))"

section \<open>Host events and callback slots\<close>

datatype HostEvent = Sync | Reset c_int

text \<open>
  A slot holds a callback or nothing; it is read and written inside the global critical
  section, so each of the two is one atomic step.
\<close>

type_synonym 'f CallbackSlot = "'f option"

definition CallbackSlot_new :: "'f CallbackSlot" where "CallbackSlot_new = None"

definition slot_get :: "'f CallbackSlot \<Rightarrow> 'f option" where "slot_get s = s"

definition slot_set :: "'f option \<Rightarrow> 'f CallbackSlot \<Rightarrow> 'f CallbackSlot" where "slot_set callback s = callback"

lemmas slot_defs = CallbackSlot_new_def slot_get_def slot_set_def

section \<open>Encodings\<close>

lemma to_le_bytes_Suc: "to_le_bytes (Suc n) w = ucast w # to_le_bytes n (drop_bit 8 w)"
proof -
  have "[0..<Suc n] = 0 # map Suc [0..<n]" by (simp only: upt_conv_Cons zero_less_Suc map_Suc_upt)
  then show ?thesis by (simp only: to_le_bytes_def) (simp add: drop_bit_drop_bit add.commute)
qed

lemma length_to_le_bytes [simp]: "length (to_le_bytes n w) = n"
  by (simp add: to_le_bytes_def)

lemma from_to_le_bytes: "from_le_bytes (to_le_bytes n w) = take_bit (8 * n) w" for w :: "'a::len word"
proof (induction n arbitrary: w)
  case (Suc n)
  have "ucast (ucast w :: u8) OR push_bit 8 (take_bit (8 * n) (drop_bit 8 w)) = take_bit (8 * Suc n) w"
    by (rule bit_eqI) (auto simp: bit_or_iff bit_ucast_iff bit_push_bit_iff bit_take_bit_iff bit_drop_bit_eq)
  then show ?case by (simp only: to_le_bytes_Suc from_le_bytes.simps Suc.IH)
qed (simp add: to_le_bytes_def)

lemma u128_le_bytes_roundtrip: "from_le_bytes (to_le_bytes 16 w) = w" for w :: "128 word"
  by (simp add: from_to_le_bytes take_bit_word_eq_self)

text \<open>A UUID as the constructors build it: the header names the body.\<close>

definition uuid_ok :: "sys_consts \<Rightarrow> BleUuid \<Rightarrow> bool" where
  "uuid_ok k u = (case u of
       Uuid16 b \<Rightarrow> uuid16_type b = ucast (k BLE_UUID_TYPE_16)
     | Uuid128 b \<Rightarrow> uuid128_type b = ucast (k BLE_UUID_TYPE_128) \<and> length (uuid128_value b) = 16)"

text \<open>The two type codes fit the header byte and differ.\<close>

definition uuid_types_ok :: "sys_consts \<Rightarrow> bool" where
  "uuid_types_ok k \<longleftrightarrow> k BLE_UUID_TYPE_16 < 256 \<and> k BLE_UUID_TYPE_128 < 256 \<and>
     k BLE_UUID_TYPE_16 \<noteq> k BLE_UUID_TYPE_128"

lemma uuid_types_nimble: "uuid_types_ok nimble_consts"
  by (simp add: uuid_types_ok_def)

lemma ucast_u8_u32: "w < 256 \<Longrightarrow> ucast (ucast w :: u8) = w" for w :: u32
proof -
  assume "w < 256"
  then have "unat (take_bit 8 w) = unat w"
    by (simp add: unsigned_take_bit_eq take_bit_nat_eq_self word_less_nat_alt)
  moreover have "ucast (ucast w :: u8) = take_bit 8 w"
    by (rule bit_eqI) (auto simp: bit_ucast_iff bit_take_bit_iff)
  ultimately show ?thesis by (metis unsigned_word_eqI)
qed

lemma uuid_ok_new: "uuid_ok k (uuid16 k v)" "uuid_ok k (uuid128 k w)"
  by (simp_all add: uuid_ok_def uuid16_def uuid128_def)

lemma from_raw_as_ptr:
  assumes "uuid_types_ok k" "uuid_ok k u"
  shows "from_raw k (as_ptr pad u) = u"
  using assms
  by (cases u) (auto simp: from_raw_def uuid_ok_def uuid_types_ok_def ucast_u8_u32 u16_to_le_bytes_def)

section \<open>Properties\<close>

text \<open>
  UUIDs survive the trip through the pointers the C host holds. What the constructors
  build is read back unchanged from the memory behind \<open>as_ptr\<close>, whatever the padding, and the
  128-bit body read as a little-endian number is the number given.
\<close>

theorem uuid_roundtrip:
  assumes "uuid_types_ok k"
  shows "from_raw k (as_ptr pad (uuid16 k v)) = uuid16 k v \<and>
    from_raw k (as_ptr pad (uuid128 k w)) = uuid128 k w \<and>
    (case from_raw k (as_ptr pad (uuid128 k w)) of
       Uuid128 b \<Rightarrow> from_le_bytes (uuid128_value b) = w
     | Uuid16 _ \<Rightarrow> False)"
  using from_raw_as_ptr [OF assms uuid_ok_new(1)] from_raw_as_ptr [OF assms uuid_ok_new(2)]
  by (simp add: uuid128_def u128_le_bytes_roundtrip)

theorem uuid_roundtrip_witness:
  "from_raw nimble_consts (as_ptr 7 (uuid16 nimble_consts 0x2A37)) = uuid16 nimble_consts 0x2A37"
  using uuid_roundtrip [OF uuid_types_nimble, of 7 "0x2A37"] by blast

end
