(* ===== verification/Gap.thy ===== *)
theory Gap
  imports Ble_Types
begin

text \<open>
  The GAP part of the API (\<open>nimble-rs/src/gap.rs\<close>): advertising and discovery parameters, GAP
  events, pairing replies and security settings.

  The C structures of the bindings are records with the fields the sources touch. A C union is a
  record with one field for each member, read as the source reads it. A pointer and length into
  a Rust slice is the slice (\<open>None\<close> for null) and the length as it was cast. The functions of the
  C host are the record \<open>gap_c\<close> on a host state of type \<open>'s\<close>.
\<close>

section \<open>Parameters\<close>

text \<open>A \<open>bool\<close> stored in a bit field with \<open>as _\<close>.\<close>

abbreviation bit_of :: "bool \<Rightarrow> u8" where "bit_of b \<equiv> of_bool b"

record BleAdvParams =
  ap_conn_mode :: u8
  ap_disc_mode :: u8
  ap_itvl_min :: u16
  ap_itvl_max :: u16
  ap_channel_map :: u8
  ap_filter_policy :: u8
  ap_high_duty_cycle :: bool

record ble_gap_adv_params =
  raw_conn_mode :: u8
  raw_disc_mode :: u8
  raw_itvl_min :: u16
  raw_itvl_max :: u16
  raw_channel_map :: u8
  raw_filter_policy :: u8
  raw_high_duty_cycle :: u8

definition adv_params_from :: "BleAdvParams \<Rightarrow> ble_gap_adv_params" where
  "adv_params_from params = \<lparr>
     raw_conn_mode = ap_conn_mode params, raw_disc_mode = ap_disc_mode params,
     raw_itvl_min = ap_itvl_min params, raw_itvl_max = ap_itvl_max params,
     raw_channel_map = ap_channel_map params, raw_filter_policy = ap_filter_policy params,
     raw_high_duty_cycle = bit_of (ap_high_duty_cycle params)\<rparr>"

record BleAdvFields =
  af_flags :: u8
  af_name :: "bytes option"
  af_tx_power_level :: "8 word option"
  af_appearance :: "u16 option"
  af_service_data_uuid16 :: "bytes option"
  af_manufacturer_data :: "bytes option"

record ble_hs_adv_fields =
  raw_flags :: u8
  raw_name :: "bytes option"
  raw_name_len :: u8
  raw_name_is_complete :: u8
  raw_tx_pwr_lvl :: "8 word"
  raw_tx_pwr_lvl_is_present :: u8
  raw_appearance :: u16
  raw_appearance_is_present :: u8
  raw_svc_data_uuid16 :: "bytes option"
  raw_svc_data_uuid16_len :: u8
  raw_mfg_data :: "bytes option"
  raw_mfg_data_len :: u8

definition zeroed_adv_fields :: ble_hs_adv_fields where
  "zeroed_adv_fields = \<lparr>
     raw_flags = 0, raw_name = None, raw_name_len = 0, raw_name_is_complete = 0,
     raw_tx_pwr_lvl = 0, raw_tx_pwr_lvl_is_present = 0, raw_appearance = 0, raw_appearance_is_present = 0,
     raw_svc_data_uuid16 = None, raw_svc_data_uuid16_len = 0, raw_mfg_data = None, raw_mfg_data_len = 0\<rparr>"

definition as_u8 :: "nat \<Rightarrow> u8" where "as_u8 n = word_of_nat n"

definition adv_fields_from :: "BleAdvFields \<Rightarrow> ble_hs_adv_fields" where
  "adv_fields_from fds =
     (let raw = zeroed_adv_fields\<lparr>raw_flags := af_flags fds\<rparr>;
          raw = (case af_name fds of None \<Rightarrow> raw
            | Some name \<Rightarrow> raw\<lparr>raw_name := Some name, raw_name_len := as_u8 (length name), raw_name_is_complete := 1\<rparr>);
          raw = (case af_tx_power_level fds of None \<Rightarrow> raw
            | Some lvl \<Rightarrow> raw\<lparr>raw_tx_pwr_lvl := lvl, raw_tx_pwr_lvl_is_present := 1\<rparr>);
          raw = (case af_appearance fds of None \<Rightarrow> raw
            | Some a \<Rightarrow> raw\<lparr>raw_appearance := a, raw_appearance_is_present := 1\<rparr>);
          raw = (case af_service_data_uuid16 fds of None \<Rightarrow> raw
            | Some d \<Rightarrow> raw\<lparr>raw_svc_data_uuid16 := Some d, raw_svc_data_uuid16_len := as_u8 (length d)\<rparr>);
          raw = (case af_manufacturer_data fds of None \<Rightarrow> raw
            | Some d \<Rightarrow> raw\<lparr>raw_mfg_data := Some d, raw_mfg_data_len := as_u8 (length d)\<rparr>)
      in raw)"

record BleDiscParams =
  dp_itvl :: u16
  dp_window :: u16
  dp_filter_policy :: u8
  dp_limited :: bool
  dp_passive :: bool
  dp_filter_duplicates :: bool

record ble_gap_disc_params =
  rdp_itvl :: u16
  rdp_window :: u16
  rdp_filter_policy :: u8
  rdp_limited :: u8
  rdp_passive :: u8
  rdp_filter_duplicates :: u8

definition disc_params_from :: "BleDiscParams \<Rightarrow> ble_gap_disc_params" where
  "disc_params_from params = \<lparr>
     rdp_itvl = dp_itvl params, rdp_window = dp_window params, rdp_filter_policy = dp_filter_policy params,
     rdp_limited = bit_of (dp_limited params), rdp_passive = bit_of (dp_passive params),
     rdp_filter_duplicates = bit_of (dp_filter_duplicates params)\<rparr>"

section \<open>The C host\<close>

datatype PasskeyAction = Display u32 | PasskeyInput | NumCmp u32 | Oob | PasskeyOther u8

datatype PasskeyReply = ReplyPasskey u32 | ReplyNumCmp bool | ReplyOob bytes

text \<open>The union of \<open>ble_sm_io\<close> holds the member written last.\<close>

datatype sm_io_value = IoPasskey u32 | IoNumcmpAccept u8 | IoOob bytes

record ble_sm_io =
  io_action :: u8
  io_value :: sm_io_value

record ble_gap_conn_desc =
  cd_peer_id_addr :: ble_addr_t

record 's gap_c =
  gc_sm_inject_io :: "u16 \<Rightarrow> ble_sm_io \<Rightarrow> 's \<Rightarrow> c_int \<times> 's"
  gc_conn_find :: "u16 \<Rightarrow> 's \<Rightarrow> c_int \<times> ble_gap_conn_desc \<times> 's"
  gc_device_name_set :: "bytes \<Rightarrow> 's \<Rightarrow> c_int \<times> 's"
  gc_adv_set_data :: "bytes \<Rightarrow> c_int \<Rightarrow> 's \<Rightarrow> c_int \<times> 's"
  gc_adv_set_fields :: "ble_hs_adv_fields \<Rightarrow> 's \<Rightarrow> c_int \<times> 's"
  gc_adv_start :: "u8 \<Rightarrow> ble_addr_t option \<Rightarrow> c_int \<Rightarrow> ble_gap_adv_params \<Rightarrow> trampoline option \<Rightarrow> 's \<Rightarrow> c_int \<times> 's"
  gc_adv_stop :: "'s \<Rightarrow> c_int \<times> 's"
  gc_disc :: "u8 \<Rightarrow> c_int \<Rightarrow> ble_gap_disc_params \<Rightarrow> trampoline option \<Rightarrow> 's \<Rightarrow> c_int \<times> 's"
  gc_disc_cancel :: "'s \<Rightarrow> c_int \<times> 's"

definition inject_io :: "sys_consts \<Rightarrow> 's gap_c \<Rightarrow> ConnHandle \<Rightarrow> PasskeyReply \<Rightarrow> 's \<Rightarrow> unit ble_result \<times> 's" where
  "inject_io k c conn_handle reply s =
     (let io = (case reply of
            ReplyPasskey passkey \<Rightarrow> \<lparr>io_action = ucast (k BLE_SM_IOACT_INPUT), io_value = IoPasskey passkey\<rparr>
          | ReplyNumCmp accept \<Rightarrow> \<lparr>io_action = ucast (k BLE_SM_IOACT_NUMCMP), io_value = IoNumcmpAccept (bit_of accept)\<rparr>
          | ReplyOob oob \<Rightarrow> \<lparr>io_action = ucast (k BLE_SM_IOACT_OOB), io_value = IoOob oob\<rparr>)
      in checked (gc_sm_inject_io c conn_handle io s))"

section \<open>GAP events\<close>

record ev_connect = ec_conn_handle :: u16  ec_status :: c_int
record ev_disconnect = ed_conn_handle :: u16  ed_reason :: c_int
record ev_mtu = em_conn_handle :: u16  em_value :: u16
record ev_disc = edi_event_type :: u8  edi_addr :: ble_addr_t  edi_rssi :: "8 word"  edi_data :: "bytes option"  edi_length_data :: u8
record ev_passkey = ep_conn_handle :: u16  ep_action :: u8  ep_numcmp :: u32
record ev_subscribe =
  es_conn_handle :: u16
  es_attr_handle :: u16
  es_reason :: u8
  es_prev_notify :: u8
  es_cur_notify :: u8
  es_prev_indicate :: u8
  es_cur_indicate :: u8
record ev_notify_tx = et_conn_handle :: u16  et_attr_handle :: u16  et_indication :: u8  et_status :: c_int
record ev_notify_rx = er_conn_handle :: u16  er_attr_handle :: u16  er_indication :: u8  er_om :: ptr

record ble_gap_event =
  ge_type :: u8
  ge_connect :: ev_connect
  ge_disconnect :: ev_disconnect
  ge_mtu :: ev_mtu
  ge_disc :: ev_disc
  ge_disc_complete :: c_int
  ge_passkey :: ev_passkey
  ge_enc_change :: ev_connect
  ge_subscribe :: ev_subscribe
  ge_notify_tx :: ev_notify_tx
  ge_notify_rx :: ev_notify_rx

datatype GapEvent =
    Connect ConnHandle "unit ble_result"
  | Disconnect ConnHandle BleError
  | Mtu ConnHandle u16
  | Discovery u8 BleAddr "8 word" bytes
  | DiscoveryComplete c_int
  | PasskeyActionEvent ConnHandle PasskeyAction
  | EncChange ConnHandle "unit ble_result"
  | GapOther

definition passkey_action_from :: "sys_consts \<Rightarrow> ev_passkey \<Rightarrow> PasskeyAction" where
  "passkey_action_from k p =
     (let action = (ucast (ep_action p) :: u32)
      in if action = k BLE_SM_IOACT_DISP then Display (ep_numcmp p)
         else if action = k BLE_SM_IOACT_INPUT then PasskeyInput
         else if action = k BLE_SM_IOACT_NUMCMP then NumCmp (ep_numcmp p)
         else if action = k BLE_SM_IOACT_OOB then Oob
         else PasskeyOther (ucast action))"

definition GapEvent_from :: "ble_cfg \<Rightarrow> sys_consts \<Rightarrow> ble_gap_event \<Rightarrow> GapEvent" where
  "GapEvent_from cf k event =
     (let t = (ucast (ge_type event) :: u32)
      in if t = k BLE_GAP_EVENT_CONNECT then
           Connect (ec_conn_handle (ge_connect event)) (BleError_check (ec_status (ge_connect event)))
         else if t = k BLE_GAP_EVENT_DISCONNECT then
           Disconnect (ed_conn_handle (ge_disconnect event)) (BleError_new (ed_reason (ge_disconnect event)))
         else if t = k BLE_GAP_EVENT_MTU then
           Mtu (em_conn_handle (ge_mtu event)) (em_value (ge_mtu event))
         else if t = k BLE_GAP_EVENT_DISC then
           (let disc = ge_disc event
            in Discovery (edi_event_type disc) (BleAddr_new (addr_type (edi_addr disc)) (addr_val (edi_addr disc)))
                 (edi_rssi disc)
                 (case edi_data disc of None \<Rightarrow> [] | Some mem \<Rightarrow> take (unat (edi_length_data disc)) mem))
         else if t = k BLE_GAP_EVENT_DISC_COMPLETE then DiscoveryComplete (ge_disc_complete event)
         else if cf_sm cf \<and> t = k BLE_GAP_EVENT_PASSKEY_ACTION then
           PasskeyActionEvent (ep_conn_handle (ge_passkey event)) (passkey_action_from k (ge_passkey event))
         else if t = k BLE_GAP_EVENT_ENC_CHANGE then
           EncChange (ec_conn_handle (ge_enc_change event)) (BleError_check (ec_status (ge_enc_change event)))
         else GapOther)"

section \<open>Security and connections\<close>

record BleSecurity =
  sec_io_cap :: u8
  sec_bonding :: bool
  sec_mitm :: bool
  sec_sc :: bool

definition BleSecurity_default :: BleSecurity where
  "BleSecurity_default = \<lparr>sec_io_cap = 0, sec_bonding = False, sec_mitm = False, sec_sc = False\<rparr>"

text \<open>The global \<open>ble_hs_cfg\<close> of the C host, as far as the crate writes it.\<close>

record ble_hs_cfg =
  hcfg_sync_cb :: "trampoline option"
  hcfg_reset_cb :: "trampoline option"
  hcfg_gatts_register_cb :: "trampoline option"
  hcfg_sm_io_cap :: u8
  hcfg_sm_bonding :: u8
  hcfg_sm_mitm :: u8
  hcfg_sm_sc :: u8
  hcfg_sm_our_key_dist :: u8
  hcfg_sm_their_key_dist :: u8

definition set_security :: "BleSecurity \<Rightarrow> ble_hs_cfg \<Rightarrow> ble_hs_cfg" where
  "set_security security cfg =
     (let cfg = cfg\<lparr>hcfg_sm_io_cap := sec_io_cap security, hcfg_sm_bonding := bit_of (sec_bonding security),
            hcfg_sm_mitm := bit_of (sec_mitm security), hcfg_sm_sc := bit_of (sec_sc security)\<rparr>
      in if sec_bonding security then cfg\<lparr>hcfg_sm_our_key_dist := 3, hcfg_sm_their_key_dist := 3\<rparr> else cfg)"

datatype BleConnDesc = BleConnDesc ble_gap_conn_desc

primrec peer_addr :: "BleConnDesc \<Rightarrow> BleAddr" where
  "peer_addr (BleConnDesc d) = BleAddr_new (addr_type (cd_peer_id_addr d)) (addr_val (cd_peer_id_addr d))"

definition conn_find :: "'s gap_c \<Rightarrow> ConnHandle \<Rightarrow> 's \<Rightarrow> BleConnDesc ble_result \<times> 's" where
  "conn_find c conn_handle s =
     (let (rc, desc, s1) = gc_conn_find c conn_handle s
      in (case BleError_check rc of Inl e \<Rightarrow> Inl e | Inr _ \<Rightarrow> Inr (BleConnDesc desc), s1))"

section \<open>Operations\<close>

definition name_buf_len :: nat where "name_buf_len = 64"

text \<open>The C function is given the whole stack buffer and reads up to the first zero.\<close>

definition set_device_name :: "sys_consts \<Rightarrow> 's gap_c \<Rightarrow> bytes \<Rightarrow> 's \<Rightarrow> unit ble_result \<times> 's" where
  "set_device_name k c name s =
     (if length name \<ge> name_buf_len \<or> 0 \<in> set name
      then (Inl (BleError_new (as_c_int (k BLE_HS_EINVAL))), s)
      else checked (gc_device_name_set c (name @ replicate (name_buf_len - length name) 0) s))"

definition as_i32 :: "nat \<Rightarrow> c_int" where "as_i32 n = sint (word_of_nat n :: u32)"

definition I32_MAX :: c_int where "I32_MAX = 2 ^ 31 - 1"

definition adv_set_data :: "'s gap_c \<Rightarrow> bytes \<Rightarrow> 's \<Rightarrow> unit ble_result \<times> 's" where
  "adv_set_data c data s = checked (gc_adv_set_data c data (as_i32 (length data)) s)"

definition adv_set_fields :: "'s gap_c \<Rightarrow> BleAdvFields \<Rightarrow> 's \<Rightarrow> unit ble_result \<times> 's" where
  "adv_set_fields c fds s = checked (gc_adv_set_fields c (adv_fields_from fds) s)"

definition adv_start :: "sys_consts \<Rightarrow> 's gap_c \<Rightarrow> u8 \<Rightarrow> BleAdvParams \<Rightarrow> 's \<Rightarrow> unit ble_result \<times> 's" where
  "adv_start k c own_addr_type params s =
     (let (rc, s1) = gc_adv_start c own_addr_type None I32_MAX (adv_params_from params) (Some Gap_event_cb) s
      in if rc = as_c_int (k BLE_HS_EALREADY) then (Inr (), s1) else (BleError_check rc, s1))"

definition adv_stop :: "'s gap_c \<Rightarrow> 's \<Rightarrow> unit ble_result \<times> 's" where
  "adv_stop c s = checked (gc_adv_stop c s)"

definition disc :: "'s gap_c \<Rightarrow> u8 \<Rightarrow> u32 option \<Rightarrow> BleDiscParams \<Rightarrow> 's \<Rightarrow> unit ble_result \<times> 's" where
  "disc c own_addr_type duration_ms params s =
     (let duration = (case duration_ms of None \<Rightarrow> I32_MAX | Some ms \<Rightarrow> sint ms)
      in checked (gc_disc c own_addr_type duration (disc_params_from params) (Some Gap_event_cb) s))"

definition disc_cancel :: "'s gap_c \<Rightarrow> 's \<Rightarrow> unit ble_result \<times> 's" where
  "disc_cancel c s = checked (gc_disc_cancel c s)"

section \<open>Reading the structures back\<close>

text \<open>What the C host reads from the advertising fields: the slices through their lengths.\<close>

definition adv_fields_read :: "ble_hs_adv_fields \<Rightarrow> BleAdvFields" where
  "adv_fields_read raw = \<lparr>
     af_flags = raw_flags raw,
     af_name = map_option (take (unat (raw_name_len raw))) (raw_name raw),
     af_tx_power_level = (if raw_tx_pwr_lvl_is_present raw = 1 then Some (raw_tx_pwr_lvl raw) else None),
     af_appearance = (if raw_appearance_is_present raw = 1 then Some (raw_appearance raw) else None),
     af_service_data_uuid16 = map_option (take (unat (raw_svc_data_uuid16_len raw))) (raw_svc_data_uuid16 raw),
     af_manufacturer_data = map_option (take (unat (raw_mfg_data_len raw))) (raw_mfg_data raw)\<rparr>"

definition cut :: "bytes option \<Rightarrow> bytes option" where
  "cut = map_option (\<lambda>d. take (length d mod 256) d)"

lemma unat_as_u8: "unat (as_u8 n) = n mod 256"
  by (simp add: as_u8_def unat_of_nat take_bit_eq_mod)

lemma adv_fields_read_from:
  "adv_fields_read (adv_fields_from f) = f\<lparr>af_name := cut (af_name f),
     af_service_data_uuid16 := cut (af_service_data_uuid16 f), af_manufacturer_data := cut (af_manufacturer_data f)\<rparr>"
  by (cases "af_name f"; cases "af_tx_power_level f"; cases "af_appearance f";
      cases "af_service_data_uuid16 f"; cases "af_manufacturer_data f")
    (simp_all add: adv_fields_read_def adv_fields_from_def zeroed_adv_fields_def cut_def unat_as_u8)

lemma cut_id: "(\<And>d. x = Some d \<Longrightarrow> length d < 256) \<Longrightarrow> cut x = x"
  by (cases x) (simp_all add: cut_def)

text \<open>
  The constants of the GAP events fit the \<open>u8\<close> of the event and are distinct, and so are the
  codes of the pairing actions.
\<close>

definition gap_event_consts :: "sys_const list" where
  "gap_event_consts = [BLE_GAP_EVENT_CONNECT, BLE_GAP_EVENT_DISCONNECT, BLE_GAP_EVENT_MTU, BLE_GAP_EVENT_DISC,
     BLE_GAP_EVENT_DISC_COMPLETE, BLE_GAP_EVENT_PASSKEY_ACTION, BLE_GAP_EVENT_ENC_CHANGE,
     BLE_GAP_EVENT_SUBSCRIBE, BLE_GAP_EVENT_NOTIFY_TX, BLE_GAP_EVENT_NOTIFY_RX]"

definition ioact_consts :: "sys_const list" where
  "ioact_consts = [BLE_SM_IOACT_DISP, BLE_SM_IOACT_INPUT, BLE_SM_IOACT_NUMCMP, BLE_SM_IOACT_OOB]"

definition u8_codes :: "sys_consts \<Rightarrow> sys_const list \<Rightarrow> bool" where
  "u8_codes k cs \<longleftrightarrow> distinct (map k cs) \<and> (\<forall>c \<in> set cs. k c < 256)"

lemma u8_codes_nimble: "u8_codes nimble_consts gap_event_consts" "u8_codes nimble_consts ioact_consts"
  by (simp_all add: u8_codes_def gap_event_consts_def ioact_consts_def)

definition zeroed_event :: ble_gap_event where
  "zeroed_event = \<lparr>ge_type = 0, ge_connect = \<lparr>ec_conn_handle = 0, ec_status = 0\<rparr>,
     ge_disconnect = \<lparr>ed_conn_handle = 0, ed_reason = 0\<rparr>, ge_mtu = \<lparr>em_conn_handle = 0, em_value = 0\<rparr>,
     ge_disc = \<lparr>edi_event_type = 0, edi_addr = \<lparr>addr_type = 0, addr_val = replicate 6 0\<rparr>, edi_rssi = 0,
       edi_data = None, edi_length_data = 0\<rparr>,
     ge_disc_complete = 0, ge_passkey = \<lparr>ep_conn_handle = 0, ep_action = 0, ep_numcmp = 0\<rparr>,
     ge_enc_change = \<lparr>ec_conn_handle = 0, ec_status = 0\<rparr>,
     ge_subscribe = \<lparr>es_conn_handle = 0, es_attr_handle = 0, es_reason = 0, es_prev_notify = 0,
       es_cur_notify = 0, es_prev_indicate = 0, es_cur_indicate = 0\<rparr>,
     ge_notify_tx = \<lparr>et_conn_handle = 0, et_attr_handle = 0, et_indication = 0, et_status = 0\<rparr>,
     ge_notify_rx = \<lparr>er_conn_handle = 0, er_attr_handle = 0, er_indication = 0, er_om = NULL\<rparr>\<rparr>"

text \<open>How the C host reports an event: the type, and the member of the union that goes with it.\<close>

fun action_code :: "sys_consts \<Rightarrow> PasskeyAction \<Rightarrow> u8 \<times> u32" where
  "action_code k (Display n) = (ucast (k BLE_SM_IOACT_DISP), n)"
| "action_code k PasskeyInput = (ucast (k BLE_SM_IOACT_INPUT), 0)"
| "action_code k (NumCmp n) = (ucast (k BLE_SM_IOACT_NUMCMP), n)"
| "action_code k Oob = (ucast (k BLE_SM_IOACT_OOB), 0)"
| "action_code k (PasskeyOther a) = (a, 0)"

definition status_code :: "unit ble_result \<Rightarrow> c_int" where
  "status_code r = (case r of Inl e \<Rightarrow> BleError_code e | Inr _ \<Rightarrow> 0)"

fun report :: "sys_consts \<Rightarrow> GapEvent \<Rightarrow> ble_gap_event \<Rightarrow> ble_gap_event" where
  "report k (Connect h r) e = e\<lparr>ge_type := ucast (k BLE_GAP_EVENT_CONNECT),
     ge_connect := \<lparr>ec_conn_handle = h, ec_status = status_code r\<rparr>\<rparr>"
| "report k (Disconnect h r) e = e\<lparr>ge_type := ucast (k BLE_GAP_EVENT_DISCONNECT),
     ge_disconnect := \<lparr>ed_conn_handle = h, ed_reason = BleError_code r\<rparr>\<rparr>"
| "report k (Mtu h v) e = e\<lparr>ge_type := ucast (k BLE_GAP_EVENT_MTU),
     ge_mtu := \<lparr>em_conn_handle = h, em_value = v\<rparr>\<rparr>"
| "report k (Discovery t a r d) e = e\<lparr>ge_type := ucast (k BLE_GAP_EVENT_DISC),
     ge_disc := \<lparr>edi_event_type = t, edi_addr = BleAddr_raw a, edi_rssi = r,
       edi_data = Some d, edi_length_data = as_u8 (length d)\<rparr>\<rparr>"
| "report k (DiscoveryComplete r) e = e\<lparr>ge_type := ucast (k BLE_GAP_EVENT_DISC_COMPLETE), ge_disc_complete := r\<rparr>"
| "report k (PasskeyActionEvent h a) e = e\<lparr>ge_type := ucast (k BLE_GAP_EVENT_PASSKEY_ACTION),
     ge_passkey := \<lparr>ep_conn_handle = h, ep_action = fst (action_code k a), ep_numcmp = snd (action_code k a)\<rparr>\<rparr>"
| "report k (EncChange h r) e = e\<lparr>ge_type := ucast (k BLE_GAP_EVENT_ENC_CHANGE),
     ge_enc_change := \<lparr>ec_conn_handle = h, ec_status = status_code r\<rparr>\<rparr>"
| "report k GapOther e = e"

text \<open>The events the C host can report: an error has a code, data fit the length byte.\<close>

fun reportable :: "ble_cfg \<Rightarrow> sys_consts \<Rightarrow> GapEvent \<Rightarrow> bool" where
  "reportable cf k (Connect h r) \<longleftrightarrow> r \<noteq> Inl (BleError 0)"
| "reportable cf k (Discovery t a r d) \<longleftrightarrow> length d < 256"
| "reportable cf k (PasskeyActionEvent h a) \<longleftrightarrow>
     cf_sm cf \<and> (case a of PasskeyOther b \<Rightarrow> ucast b \<notin> k ` set ioact_consts | _ \<Rightarrow> True)"
| "reportable cf k (EncChange h r) \<longleftrightarrow> r \<noteq> Inl (BleError 0)"
| "reportable cf k GapOther \<longleftrightarrow> False"
| "reportable cf k _ \<longleftrightarrow> True"

lemma check_status_code: "r \<noteq> Inl (BleError 0) \<Longrightarrow> BleError_check (status_code r) = r"
proof (cases r)
  case (Inl e)
  then show "r \<noteq> Inl (BleError 0) \<Longrightarrow> ?thesis" by (cases e) (auto simp: status_code_def)
qed (simp add: status_code_def)

lemma ucast_ucast_u8: "ucast (ucast b :: u32) = b" for b :: u8
  by (rule bit_eqI) (auto simp: bit_ucast_iff dest: bit_imp_le_length)

lemma passkey_action_roundtrip:
  assumes "u8_codes k ioact_consts" "\<And>b. a = PasskeyOther b \<Longrightarrow> ucast b \<notin> k ` set ioact_consts"
  shows "passkey_action_from k \<lparr>ep_conn_handle = h, ep_action = fst (action_code k a), ep_numcmp = snd (action_code k a)\<rparr> = a"
  using assms
  by (cases a) (auto simp: passkey_action_from_def u8_codes_def ioact_consts_def ucast_u8_u32 Let_def ucast_ucast_u8)

section \<open>Properties\<close>

text \<open>
  Advertising fields reach the C host. Reading the raw structure the way the host does gives
  back the fields, as long as no slice has more than 255 bytes.
\<close>

theorem adv_fields_roundtrip:
  assumes "\<forall>d \<in> set_option (af_name f) \<union> set_option (af_service_data_uuid16 f) \<union> set_option (af_manufacturer_data f).
    length d < 256"
  shows "adv_fields_read (adv_fields_from f) = f"
proof -
  have "cut (af_name f) = af_name f" "cut (af_service_data_uuid16 f) = af_service_data_uuid16 f"
    "cut (af_manufacturer_data f) = af_manufacturer_data f"
    by (rule cut_id, use assms in auto)+
  then show ?thesis by (simp add: adv_fields_read_from)
qed

theorem adv_fields_roundtrip_witness:
  "adv_fields_read (adv_fields_from \<lparr>af_flags = 6, af_name = Some [110, 105], af_tx_power_level = None,
     af_appearance = Some 64, af_service_data_uuid16 = None, af_manufacturer_data = Some []\<rparr>) =
   \<lparr>af_flags = 6, af_name = Some [110, 105], af_tx_power_level = None,
     af_appearance = Some 64, af_service_data_uuid16 = None, af_manufacturer_data = Some []\<rparr>"
  by (rule adv_fields_roundtrip) simp

text \<open>
  Decoding of GAP events: every event the C host reports is decoded to the constructor and the
  data it was reported with, whatever the other members of the union hold.
\<close>

lemma gap_event_decode:
  assumes "u8_codes k gap_event_consts" "u8_codes k ioact_consts" "reportable cf k e"
  shows "GapEvent_from cf k (report k e raw) = e"
proof (cases e)
  case (Discovery t a r d)
  then show ?thesis using assms
    by (cases a) (auto simp: GapEvent_from_def u8_codes_def gap_event_consts_def ucast_u8_u32 BleAddr_new_def unat_as_u8)
next
  case (PasskeyActionEvent h a)
  then have "passkey_action_from k (ge_passkey (report k e raw)) = a"
    using passkey_action_roundtrip [OF assms(2), of a h] assms(3) by (cases a) simp_all
  then show ?thesis using assms PasskeyActionEvent
    by (auto simp: GapEvent_from_def u8_codes_def gap_event_consts_def ucast_u8_u32)
next
  case (Disconnect h r)
  then show ?thesis using assms
    by (cases r) (auto simp: GapEvent_from_def u8_codes_def gap_event_consts_def ucast_u8_u32 BleError_new_def)
qed (use assms in \<open>auto simp: GapEvent_from_def u8_codes_def gap_event_consts_def ucast_u8_u32 check_status_code\<close>)

text \<open>
  Pairing: the answer to an action carries the action's own code, so the Security Manager
  accepts it.
\<close>

lemma ucast_eq_iff: "(ucast b :: u32) = w \<Longrightarrow> ucast w = b" for b :: u8
  using ucast_ucast_u8 by metis

theorem pairing_reply_matches:
  assumes "passkey_action_from k p = a" "a \<in> {PasskeyInput, NumCmp n, Oob}"
  shows "inject_io k c h (case a of PasskeyInput \<Rightarrow> ReplyPasskey key | NumCmp _ \<Rightarrow> ReplyNumCmp accept | _ \<Rightarrow> ReplyOob oob) s =
    checked (gc_sm_inject_io c h \<lparr>io_action = ep_action p, io_value =
      (case a of PasskeyInput \<Rightarrow> IoPasskey key | NumCmp _ \<Rightarrow> IoNumcmpAccept (bit_of accept) | _ \<Rightarrow> IoOob oob)\<rparr> s)"
  using assms
  by (auto simp: inject_io_def passkey_action_from_def Let_def split: if_splits dest!: ucast_eq_iff)

text \<open>
  The device name: a name of up to 63 bytes without a zero reaches the C host as exactly the C
  string of its bytes; any other is refused before the host is called.
\<close>

theorem set_device_name_correct:
  "if length name < 64 \<and> 0 \<notin> set name
   then \<exists>buf. length buf = 64 \<and> takeWhile (\<lambda>b. b \<noteq> 0) buf = name \<and> length name < 64 \<and>
     set_device_name k c name s = checked (gc_device_name_set c buf s)
   else set_device_name k c name s = (Inl (BleError (as_c_int (k BLE_HS_EINVAL))), s)"
proof (cases "length name < 64 \<and> 0 \<notin> set name")
  case True
  define buf where "buf = name @ replicate (64 - length name) 0"
  have "takeWhile (\<lambda>b. b \<noteq> 0) buf = name"
    using True by (auto simp: buf_def takeWhile_append takeWhile_eq_Nil_iff)
  then show ?thesis using True
    by (auto simp: set_device_name_def name_buf_len_def buf_def intro!: exI [of _ buf])
qed (auto simp: set_device_name_def name_buf_len_def BleError_new_def)

text \<open>Advertising that is already running counts as started; every other code is reported.\<close>

theorem adv_start_result:
  assumes "gc_adv_start c t None (2 ^ 31 - 1) (adv_params_from params) (Some Gap_event_cb) s = (rc, s')"
  shows "adv_start k c t params s =
    (if rc = 0 \<or> rc = as_c_int (k BLE_HS_EALREADY) then Inr () else Inl (BleError rc), s')"
  using assms by (auto simp: adv_start_def I32_MAX_def)

text \<open>
  A scan duration below \<open>2 ^ 31\<close> milliseconds is passed on as it is; a longer one arrives as a
  negative number.
\<close>

theorem disc_duration:
  "\<exists>d. disc c t (Some ms) params s = checked (gc_disc c t d (disc_params_from params) (Some Gap_event_cb) s) \<and>
     d = (if unat ms < 2 ^ 31 then int (unat ms) else int (unat ms) - 2 ^ 32)"
proof -
  have u: "uint ms < 2 ^ 32" "0 \<le> uint ms" using uint_lt2p [of ms] by simp_all
  have u3: "unat ms < 2 ^ 31 \<longleftrightarrow> uint ms < 2 ^ 31" by (simp only: uint_nat of_nat_less_numeral_power_cancel_iff)
  have "sint ms = (uint ms + 2 ^ 31) mod 2 ^ 32 - 2 ^ 31"
    by (simp add: sint_uint signed_take_bit_eq_take_bit_shift take_bit_eq_mod)
  moreover have "(uint ms + 2 ^ 31) mod 2 ^ 32 = (if uint ms < 2 ^ 31 then uint ms + 2 ^ 31 else uint ms - 2 ^ 31)"
    using u mod_pos_geq [of "2 ^ 32" "uint ms + 2 ^ 31"] mod_pos_pos_trivial [of "uint ms - 2 ^ 31" "2 ^ 32"]
      mod_pos_pos_trivial [of "uint ms + 2 ^ 31" "2 ^ 32"]
    by auto
  ultimately have "sint ms = (if unat ms < 2 ^ 31 then int (unat ms) else int (unat ms) - 2 ^ 32)"
    using u3 by simp
  then show ?thesis by (auto simp: disc_def)
qed

text \<open>Key distribution is switched on with bonding, and not switched off without it.\<close>

lemma set_security_key_dist:
  "hcfg_sm_our_key_dist (set_security sec cfg) = (if sec_bonding sec then 3 else hcfg_sm_our_key_dist cfg)"
  "hcfg_sm_our_key_dist (set_security BleSecurity_default (set_security sec cfg)) =
     hcfg_sm_our_key_dist (set_security sec cfg)"
  by (simp_all add: set_security_def BleSecurity_default_def Let_def)

end
