(* ===== verification/Gatt.thy ===== *)
theory Gatt
  imports Ble_Types
begin

text \<open>
  The shared part of the GATT API (\<open>nimble-rs/src/gatt.rs\<close>): the MTU functions and the
  characteristic flags with their encoding as a bit mask. The width of the mask is that of the C
  type \<open>ble_gatt_chr_flags\<close>, a type variable here.
\<close>

section \<open>MTU\<close>

record 's att_c =
  at_set_preferred_mtu :: "u16 \<Rightarrow> 's \<Rightarrow> c_int \<times> 's"
  at_mtu :: "u16 \<Rightarrow> 's \<Rightarrow> u16 \<times> 's"

definition set_preferred_mtu :: "'s att_c \<Rightarrow> u16 \<Rightarrow> 's \<Rightarrow> unit ble_result \<times> 's" where
  "set_preferred_mtu c mtu s = checked (at_set_preferred_mtu c mtu s)"

definition att_mtu :: "sys_consts \<Rightarrow> 's att_c \<Rightarrow> ConnHandle \<Rightarrow> 's \<Rightarrow> u16 ble_result \<times> 's" where
  "att_mtu k c conn_handle s =
     (case at_mtu c conn_handle s of (mtu, s1) \<Rightarrow>
        if mtu = 0 then (Inl (BleError_new (as_c_int (k BLE_HS_ENOTCONN))), s1) else (Inr mtu, s1))"

section \<open>Characteristic flags\<close>

datatype BleGattCharFlag =
    Broadcast | Read | WriteNoRsp | Write | Notify | Indicate | AuthSignWrite | ReliableWrite | AuxWrite
  | ReadEnc | ReadAuthen | ReadAuthor | WriteEnc | WriteAuthen | WriteAuthor
  | NotifyIndicateEnc | NotifyIndicateAuthen | NotifyIndicateAuthor

text \<open>The order of declaration, in which an \<open>EnumSet\<close> is iterated.\<close>

instantiation BleGattCharFlag :: enum
begin

definition "enum_BleGattCharFlag =
  [Broadcast, Read, WriteNoRsp, Write, Notify, Indicate, AuthSignWrite, ReliableWrite, AuxWrite,
   ReadEnc, ReadAuthen, ReadAuthor, WriteEnc, WriteAuthen, WriteAuthor,
   NotifyIndicateEnc, NotifyIndicateAuthen, NotifyIndicateAuthor]"

definition "enum_all_BleGattCharFlag P \<longleftrightarrow> list_all P (enum_class.enum :: BleGattCharFlag list)"

definition "enum_ex_BleGattCharFlag P \<longleftrightarrow> list_ex P (enum_class.enum :: BleGattCharFlag list)"

instance
proof
  show "UNIV = set (enum_class.enum :: BleGattCharFlag list)"
  proof (intro equalityI subsetI)
    show "x \<in> set enum_class.enum" for x :: BleGattCharFlag
      by (cases x) (simp_all add: enum_BleGattCharFlag_def)
  qed simp
  then show "enum_class.enum_all P \<longleftrightarrow> Ball UNIV P" "enum_class.enum_ex P \<longleftrightarrow> Bex UNIV P"
    for P :: "BleGattCharFlag \<Rightarrow> bool"
    by (simp_all only: enum_all_BleGattCharFlag_def enum_ex_BleGattCharFlag_def list_all_iff list_ex_iff)
qed (simp add: enum_BleGattCharFlag_def)

end

fun flag_const :: "BleGattCharFlag \<Rightarrow> sys_const" where
  "flag_const Broadcast = BLE_GATT_CHR_F_BROADCAST"
| "flag_const Read = BLE_GATT_CHR_F_READ"
| "flag_const WriteNoRsp = BLE_GATT_CHR_F_WRITE_NO_RSP"
| "flag_const Write = BLE_GATT_CHR_F_WRITE"
| "flag_const Notify = BLE_GATT_CHR_F_NOTIFY"
| "flag_const Indicate = BLE_GATT_CHR_F_INDICATE"
| "flag_const AuthSignWrite = BLE_GATT_CHR_F_AUTH_SIGN_WRITE"
| "flag_const ReliableWrite = BLE_GATT_CHR_F_RELIABLE_WRITE"
| "flag_const AuxWrite = BLE_GATT_CHR_F_AUX_WRITE"
| "flag_const ReadEnc = BLE_GATT_CHR_F_READ_ENC"
| "flag_const ReadAuthen = BLE_GATT_CHR_F_READ_AUTHEN"
| "flag_const ReadAuthor = BLE_GATT_CHR_F_READ_AUTHOR"
| "flag_const WriteEnc = BLE_GATT_CHR_F_WRITE_ENC"
| "flag_const WriteAuthen = BLE_GATT_CHR_F_WRITE_AUTHEN"
| "flag_const WriteAuthor = BLE_GATT_CHR_F_WRITE_AUTHOR"
| "flag_const NotifyIndicateEnc = BLE_GATT_CHR_F_NOTIFY_INDICATE_ENC"
| "flag_const NotifyIndicateAuthen = BLE_GATT_CHR_F_NOTIFY_INDICATE_AUTHEN"
| "flag_const NotifyIndicateAuthor = BLE_GATT_CHR_F_NOTIFY_INDICATE_AUTHOR"

definition repr :: "sys_consts \<Rightarrow> BleGattCharFlag \<Rightarrow> 'f::len word" where
  "repr k flag = ucast (k (flag_const flag))"

definition chr_flags_from :: "sys_consts \<Rightarrow> BleGattCharFlag \<Rightarrow> 'f::len word" where
  "chr_flags_from k flag = repr k flag"

definition flags_to_repr :: "sys_consts \<Rightarrow> BleGattCharFlag set \<Rightarrow> 'f::len word" where
  "flags_to_repr k flags = fold (\<lambda>flag acc. acc OR chr_flags_from k flag) (filter (\<lambda>f. f \<in> flags) enum_class.enum) 0"

section \<open>The mask\<close>

text \<open>The flags are non-zero masks without common bits in the width of the C type.\<close>

definition flag_bits_ok :: "'f::len itself \<Rightarrow> sys_consts \<Rightarrow> bool" where
  "flag_bits_ok t k \<longleftrightarrow> (\<forall>f g. (repr k f :: 'f word) \<noteq> 0 \<and> (f \<noteq> g \<longrightarrow> (repr k f :: 'f word) AND repr k g = 0))"

lemma flag_bits_nimble: "flag_bits_ok TYPE(32) nimble_consts"
proof -
  have "(repr nimble_consts f :: 32 word) \<noteq> 0 \<and> (f \<noteq> g \<longrightarrow> (repr nimble_consts f :: 32 word) AND repr nimble_consts g = 0)"
    for f g by (cases f; cases g) (simp_all add: repr_def)
  then show ?thesis by (simp add: flag_bits_ok_def)
qed

lemma bit_fold_or:
  "bit (fold (\<lambda>f acc. acc OR r f) fs acc) n \<longleftrightarrow> bit acc n \<or> (\<exists>f \<in> set fs. bit (r f) n)" for acc :: "'f::len word"
  by (induction fs arbitrary: acc) (auto simp: bit_or_iff)

lemma bit_flags_to_repr: "bit (flags_to_repr k S :: 'f::len word) n \<longleftrightarrow> (\<exists>f \<in> S. bit (repr k f :: 'f word) n)"
  by (auto simp: flags_to_repr_def bit_fold_or chr_flags_from_def simp flip: UNIV_enum)

text \<open>The order and repetition of flags do not matter.\<close>

lemma fold_or_set:
  "fold (\<lambda>f acc. acc OR repr k f) fs 0 = (flags_to_repr k (set fs) :: 'f::len word)"
  by (rule bit_eqI) (simp add: bit_fold_or bit_flags_to_repr)



end
