(* ===== verification/Clog.thy ===== *)
theory Clog
  imports Nimble_Prelude
begin

text \<open>
  The log wiring of the C host (\<open>clog.rs\<close>): fragments of lines arrive with a level, a static
  buffer reassembles them, and complete lines go to the \<open>log\<close> and \<open>defmt\<close> backends. The
  buffer is updated one byte at a time inside a critical section, so \<open>log_byte\<close> is the atomic
  step. The main lemma says that the byte loop is the same as splitting the stream into lines
  and each line into pieces of 256 bytes.
\<close>

section \<open>The line buffer\<close>

definition LINE_MAX :: nat where "LINE_MAX = 256"

record line_buf =
  lb_buf :: bytes
  lb_len :: nat
  lb_level :: c_int

definition LINE_init :: line_buf where
  "LINE_init = \<lparr>lb_buf = replicate LINE_MAX 0, lb_len = 0, lb_level = 0\<rparr>"

abbreviation newline :: u8 where "newline \<equiv> 10"

text \<open>The body of the critical section: the line to emit, if one is complete.\<close>

definition log_byte :: "c_int \<Rightarrow> u8 \<Rightarrow> line_buf \<Rightarrow> (c_int \<times> bytes \<times> nat) option \<times> line_buf" where
  "log_byte level byte line0 =
     (let line = line0\<lparr>lb_level := max (lb_level line0) level\<rparr>
      in if byte = newline \<or> lb_len line = LINE_MAX then
           (let out = (lb_level line, lb_buf line, lb_len line);
                line = line\<lparr>lb_len := 0, lb_level := 0\<rparr>;
                line = (if byte \<noteq> newline
                        then line\<lparr>lb_buf := (lb_buf line)[lb_len line := byte], lb_len := lb_len line + 1\<rparr>
                        else line)
            in (Some out, line))
         else (None, line\<lparr>lb_buf := (lb_buf line)[lb_len line := byte], lb_len := lb_len line + 1\<rparr>))"

section \<open>Emission\<close>

text \<open>\<open>core::str::from_utf8\<close>: the well-formed byte sequences of the Unicode standard.\<close>

definition utf8_cont :: "u8 \<Rightarrow> bool" where "utf8_cont b \<longleftrightarrow> 0x80 \<le> b \<and> b \<le> 0xBF"

fun utf8_valid :: "bytes \<Rightarrow> bool" where
  "utf8_valid [] = True"
| "utf8_valid (b # bs) =
     (if b < 0x80 then utf8_valid bs
      else case bs of [] \<Rightarrow> False | c1 # bs1 \<Rightarrow>
        if 0xC2 \<le> b \<and> b \<le> 0xDF then utf8_cont c1 \<and> utf8_valid bs1
        else case bs1 of [] \<Rightarrow> False | c2 # bs2 \<Rightarrow>
          if 0xE0 \<le> b \<and> b \<le> 0xEF then
            utf8_cont c1 \<and> (b = 0xE0 \<longrightarrow> 0xA0 \<le> c1) \<and> (b = 0xED \<longrightarrow> c1 \<le> 0x9F) \<and>
            utf8_cont c2 \<and> utf8_valid bs2
          else case bs2 of [] \<Rightarrow> False | c3 # bs3 \<Rightarrow>
            0xF0 \<le> b \<and> b \<le> 0xF4 \<and> utf8_cont c1 \<and> (b = 0xF0 \<longrightarrow> 0x90 \<le> c1) \<and>
            (b = 0xF4 \<longrightarrow> c1 \<le> 0x8F) \<and> utf8_cont c2 \<and> utf8_cont c3 \<and> utf8_valid bs3)"

datatype log_level = Debug | Info | Warn | Error

datatype sink = Log | Defmt

text \<open>The \<open>log\<close> and \<open>defmt\<close> features of the crate.\<close>

record log_features =
  feature_log :: bool
  feature_defmt :: bool

definition mynewt_level :: "c_int \<Rightarrow> log_level" where
  "mynewt_level level =
     (if level = 0 then Debug else if level = 1 then Info else if level = 2 then Warn else Error)"

definition emit :: "log_features \<Rightarrow> c_int \<Rightarrow> bytes \<Rightarrow> (sink \<times> log_level \<times> bytes) list" where
  "emit fe level line =
     (if line = [] then []
      else let line = (if utf8_valid line then line else map of_char ''<non-utf8 log line>'')
           in (if feature_log fe then [(Log, mynewt_level level, line)] else []) @
              (if feature_defmt fe
               then [(Defmt, mynewt_level level, map of_char ''nimble: '' @ line)] else []))"

text \<open>The loop over a fragment; \<open>None\<close> is the null pointer.\<close>

fun log_bytes :: "log_features \<Rightarrow> c_int \<Rightarrow> bytes \<Rightarrow> line_buf \<Rightarrow> (sink \<times> log_level \<times> bytes) list \<times> line_buf" where
  "log_bytes fe level [] line = ([], line)"
| "log_bytes fe level (byte # bytes) line =
     (let (complete, line1) = log_byte level byte line;
          out = (case complete of Some (lv, buf, len) \<Rightarrow> emit fe lv (take len buf) | None \<Rightarrow> []);
          (outs, line2) = log_bytes fe level bytes line1
      in (out @ outs, line2))"

definition nimble_rs_log :: "log_features \<Rightarrow> c_int \<Rightarrow> bytes option \<Rightarrow> line_buf \<Rightarrow>
    (sink \<times> log_level \<times> bytes) list \<times> line_buf" where
  "nimble_rs_log fe level msg line =
     (case msg of None \<Rightarrow> ([], line) | Some bytes \<Rightarrow> log_bytes fe level bytes line)"

text \<open>A sequence of calls.\<close>

fun log_calls :: "log_features \<Rightarrow> (c_int \<times> bytes option) list \<Rightarrow> line_buf \<Rightarrow>
    (sink \<times> log_level \<times> bytes) list \<times> line_buf" where
  "log_calls fe [] line = ([], line)"
| "log_calls fe ((level, msg) # calls) line =
     (let (out, line1) = nimble_rs_log fe level msg line;
          (outs, line2) = log_calls fe calls line1
      in (out @ outs, line2))"

section \<open>The stream of bytes\<close>

text \<open>The bytes of a sequence of calls, each with the level of its call.\<close>

definition call_stream :: "(c_int \<times> bytes option) list \<Rightarrow> (c_int \<times> u8) list" where
  "call_stream calls =
     concat (map (\<lambda>(level, msg). case msg of None \<Rightarrow> [] | Some bs \<Rightarrow> map (Pair level) bs) calls)"

fun log_stream :: "log_features \<Rightarrow> (c_int \<times> u8) list \<Rightarrow> line_buf \<Rightarrow> (sink \<times> log_level \<times> bytes) list \<times> line_buf" where
  "log_stream fe [] line = ([], line)"
| "log_stream fe ((level, byte) # xs) line =
     (let (complete, line1) = log_byte level byte line;
          out = (case complete of Some (lv, buf, len) \<Rightarrow> emit fe lv (take len buf) | None \<Rightarrow> []);
          (outs, line2) = log_stream fe xs line1
      in (out @ outs, line2))"

lemma log_stream_append:
  "log_stream fe (xs @ ys) line =
     (let (o1, l1) = log_stream fe xs line; (o2, l2) = log_stream fe ys l1 in (o1 @ o2, l2))"
  by (induction fe xs line rule: log_stream.induct) (auto simp: Let_def split: prod.splits)

lemma log_bytes_stream: "log_bytes fe level bs line = log_stream fe (map (Pair level) bs) line"
  by (induction fe level bs line rule: log_bytes.induct) (auto simp: Let_def split: prod.splits)

lemma log_calls_stream: "log_calls fe calls line = log_stream fe (call_stream calls) line"
  by (induction fe calls line rule: log_calls.induct)
    (auto simp: Let_def call_stream_def log_stream_append log_bytes_stream nimble_rs_log_def
      split: prod.splits option.splits)

text \<open>What the buffer holds, and the invariant that keeps its accesses in range.\<close>

definition line_ok :: "line_buf \<Rightarrow> bool" where
  "line_ok line \<longleftrightarrow> length (lb_buf line) = LINE_MAX \<and> lb_len line \<le> LINE_MAX"

definition line_text :: "line_buf \<Rightarrow> bytes" where
  "line_text line = take (lb_len line) (lb_buf line)"

lemma line_ok_init [simp]: "line_ok LINE_init" "line_text LINE_init = []" "lb_level LINE_init = 0"
  by (simp_all add: line_ok_def LINE_init_def line_text_def)

lemma log_byte_ok: "line_ok line \<Longrightarrow> line_ok (snd (log_byte level byte line))"
  by (auto simp: log_byte_def line_ok_def Let_def LINE_MAX_def)

lemma length_line_text: "line_ok line \<Longrightarrow> length (line_text line) = lb_len line"
  by (simp add: line_ok_def line_text_def)

lemma log_byte_newline:
  "line_ok line \<Longrightarrow> \<exists>buf len line'. log_byte level newline line = (Some (max (lb_level line) level, buf, len), line') \<and>
     take len buf = line_text line \<and> line_ok line' \<and> line_text line' = [] \<and> lb_level line' = 0"
  by (auto simp: log_byte_def line_ok_def line_text_def Let_def)

lemma log_byte_room:
  assumes "line_ok line" "byte \<noteq> newline" "length (line_text line) < LINE_MAX"
  shows "\<exists>line'. log_byte level byte line = (None, line') \<and> line_ok line' \<and>
    line_text line' = line_text line @ [byte] \<and> lb_level line' = max (lb_level line) level"
  using assms
  by (auto simp: log_byte_def line_ok_def line_text_def Let_def take_Suc_conv_app_nth)

lemma log_byte_full:
  assumes "line_ok line" "byte \<noteq> newline" "length (line_text line) = LINE_MAX"
  shows "\<exists>buf len line'. log_byte level byte line = (Some (max (lb_level line) level, buf, len), line') \<and>
    take len buf = line_text line \<and> line_ok line' \<and> line_text line' = [byte] \<and> lb_level line' = 0"
  using assms
  by (auto simp: log_byte_def line_ok_def line_text_def Let_def LINE_MAX_def take_Suc_conv_app_nth)

section \<open>The specification\<close>

text \<open>
  One line, its bytes \<open>xs\<close> with their levels and the level \<open>nl\<close> of its newline, when \<open>acc\<close>
  waits in the buffer at level \<open>lv\<close>: pieces of at most 256 bytes. A piece has the largest level
  of its bytes and of the byte that completes it. That byte starts the next piece at level 0.
\<close>

function line_pieces :: "c_int \<Rightarrow> bytes \<Rightarrow> (c_int \<times> u8) list \<Rightarrow> c_int \<Rightarrow> (c_int \<times> bytes) list" where
  "line_pieces lv acc xs nl =
     (let room = LINE_MAX - length acc
      in if length xs \<le> room then [(fold max (map fst xs) (max lv nl), acc @ map snd xs)]
         else (fold max (map fst (take (Suc room) xs)) lv, acc @ map snd (take room xs)) #
              line_pieces 0 [snd (xs ! room)] (drop (Suc room) xs) nl)"
  by auto
termination by (relation "measure (\<lambda>(lv, acc, xs, nl). length xs)") auto

declare line_pieces.simps [simp del]

definition line_records :: "log_features \<Rightarrow> (c_int \<times> u8) list \<times> c_int \<Rightarrow> (sink \<times> log_level \<times> bytes) list" where
  "line_records fe = (\<lambda>(xs, nl). concat (map (\<lambda>(lv, piece). emit fe lv piece) (line_pieces 0 [] xs nl)))"

lemma line_pieces_Nil: "line_pieces lv acc [] nl = [(max lv nl, acc)]"
  by (simp add: line_pieces.simps [of lv acc])

lemma line_pieces_room:
  assumes "length acc < LINE_MAX"
  shows "line_pieces lv acc ((l, b) # xs) nl = line_pieces (max lv l) (acc @ [b]) xs nl"
proof -
  have "max l (max lv nl) = max (max lv l) nl" "max l lv = max lv l" by (simp_all add: ac_simps)
  then show ?thesis using assms
    by (subst (1 2) line_pieces.simps)
      (auto simp: Let_def Suc_diff_Suc [symmetric] nth_Cons' simp del: max.assoc max.left_commute)
qed

lemma line_pieces_full:
  "length acc = LINE_MAX \<Longrightarrow>
   line_pieces lv acc ((l, b) # xs) nl = (max lv l, acc) # line_pieces 0 [b] xs nl"
  by (subst line_pieces.simps) (simp add: max.commute)

lemma log_stream_line:
  assumes "\<forall>(l, b) \<in> set xs. b \<noteq> newline" "line_ok line"
  shows "\<exists>line'. log_stream fe (xs @ [(nl, newline)]) line =
      (concat (map (\<lambda>(lv, piece). emit fe lv piece) (line_pieces (lb_level line) (line_text line) xs nl)), line') \<and>
    line_ok line' \<and> line_text line' = [] \<and> lb_level line' = 0"
  using assms
proof (induction xs arbitrary: line)
  case Nil
  then show ?case using log_byte_newline [of line nl] by (auto simp: line_pieces_Nil)
next
  case (Cons x xs)
  obtain l b where x: "x = (l, b)" by (cases x)
  have b: "b \<noteq> newline" and xs: "\<forall>(l, b) \<in> set xs. b \<noteq> newline" using Cons.prems(1) x by auto
  have len: "length (line_text line) \<le> LINE_MAX"
    using Cons.prems(2) by (simp add: length_line_text) (simp add: line_ok_def)
  show ?case
  proof (cases "length (line_text line) < LINE_MAX")
    case True
    then obtain line1 where 1: "log_byte l b line = (None, line1)" "line_ok line1"
      "line_text line1 = line_text line @ [b]" "lb_level line1 = max (lb_level line) l"
      using log_byte_room [OF Cons.prems(2) b] by blast
    with Cons.IH [OF xs 1(2)] True show ?thesis by (auto simp: x line_pieces_room)
  next
    case False
    with len have full: "length (line_text line) = LINE_MAX" by simp
    then obtain buf n line1 where 1: "log_byte l b line = (Some (max (lb_level line) l, buf, n), line1)"
      "take n buf = line_text line" "line_ok line1" "line_text line1 = [b]" "lb_level line1 = 0"
      using log_byte_full [OF Cons.prems(2) b] by blast
    with Cons.IH [OF xs 1(3)] full show ?thesis by (auto simp: x line_pieces_full)
  qed
qed

lemma log_stream_lines:
  assumes "\<forall>(xs, nl) \<in> set lines. \<forall>(l, b) \<in> set xs. b \<noteq> newline"
    and "line_ok line" "line_text line = []" "lb_level line = 0"
  shows "\<exists>line'. log_stream fe (concat (map (\<lambda>(xs, nl). xs @ [(nl, newline)]) lines)) line =
      (concat (map (line_records fe) lines), line') \<and> line_ok line' \<and> line_text line' = [] \<and> lb_level line' = 0"
  using assms
proof (induction lines arbitrary: line)
  case (Cons ln lines)
  obtain xs nl where ln: "ln = (xs, nl)" by (cases ln)
  from Cons.prems(1) ln have xs: "\<forall>(l, b) \<in> set xs. b \<noteq> newline" by auto
  obtain line1 where 1: "log_stream fe (xs @ [(nl, newline)]) line = (line_records fe ln, line1)"
    "line_ok line1" "line_text line1 = []" "lb_level line1 = 0"
    using log_stream_line [OF xs Cons.prems(2), of fe nl] Cons.prems(3,4) by (auto simp: line_records_def ln)
  from Cons.IH [OF _ 1(2-4)] Cons.prems(1) obtain line2 where
    "log_stream fe (concat (map (\<lambda>(xs, nl). xs @ [(nl, newline)]) lines)) line1 =
      (concat (map (line_records fe) lines), line2)" "line_ok line2" "line_text line2 = []" "lb_level line2 = 0"
    by auto
  with 1(1) show ?case by (auto simp: ln log_stream_append simp flip: append_assoc append_Cons)
qed simp

text \<open>The pieces of a line are its bytes, in order, none longer than the buffer.\<close>

lemma line_pieces_bytes:
  "length acc \<le> LINE_MAX \<Longrightarrow> concat (map snd (line_pieces lv acc xs nl)) = acc @ map snd xs \<and>
     (\<forall>(lv, piece) \<in> set (line_pieces lv acc xs nl). length piece \<le> LINE_MAX)"
proof (induction xs arbitrary: lv acc)
  case (Cons x xs)
  show ?case
  proof (cases "length acc < LINE_MAX")
    case True
    with Cons.IH [of "acc @ [snd x]" "max lv (fst x)"] show ?thesis
      using line_pieces_room [OF True, of lv "fst x" "snd x"] by simp
  next
    case False
    with Cons.prems Cons.IH [of "[snd x]" 0] show ?thesis
      using line_pieces_full [of acc lv "fst x" "snd x"] by (auto simp: LINE_MAX_def)
  qed
qed (simp add: line_pieces_Nil)

text \<open>A line that fits has one piece, with the largest level of its bytes and its newline.\<close>

lemma line_pieces_short:
  "length xs \<le> LINE_MAX \<Longrightarrow> line_pieces 0 [] xs nl = [(fold max (map fst xs) (max 0 nl), map snd xs)]"
  by (simp add: line_pieces.simps [of 0 "[]"])

section \<open>Properties\<close>



text \<open>
  A longer line loses levels at the cut: the byte behind the first piece raises the level of
  that piece and not of its own.
\<close>

lemma line_pieces_level_lost:
  "line_pieces 0 [] (replicate 256 (0, 65) @ [(3, 66)]) 0 = [(3, replicate 256 65), (0, [66])]"
proof -
  have "fold max (replicate n (0::int)) 0 = 0" for n by (induction n) simp_all
  then show ?thesis
    by (subst line_pieces.simps) (simp add: line_pieces_Nil LINE_MAX_def map_replicate_const nth_append)
qed

end
