(* ===== verification/Mem.thy ===== *)
theory Mem
  imports Ble_Types Clog
begin

text \<open>
  The heap hooks of the C host (\<open>nimble-rs/src/mem.rs\<close>) and the owned slices the GATT table
  builder keeps on that heap.

  The C heap is a record of the live blocks and of the objects in memory. Where the allocator
  puts a block is not determined by the sources: it is the argument \<open>place\<close>, a function of the
  heap and the request that may answer \<open>NULL\<close>; \<open>place_ok\<close> states the contract of \<open>calloc\<close>, that a
  new block overlaps no live one. A cell of memory is \<open>None\<close> while it is zero.
\<close>

section \<open>The C heap\<close>

record 'c cheap =
  ch_blocks :: "(ptr \<times> nat) list"
  ch_mem :: "ptr \<Rightarrow> 'c option"

type_synonym 'c placement = "'c cheap \<Rightarrow> nat \<Rightarrow> ptr"

definition block_cells :: "ptr \<times> nat \<Rightarrow> ptr set" where
  "block_cells b = {fst b ..< fst b + snd b}"

definition place_ok :: "'c placement \<Rightarrow> bool" where
  "place_ok place \<longleftrightarrow> (\<forall>h n. place h n \<noteq> NULL \<longrightarrow>
     (\<forall>b \<in> set (ch_blocks h). block_cells b \<inter> block_cells (place h n, n) = {}) \<and>
     place h n \<notin> fst ` set (ch_blocks h))"

definition calloc :: "'c placement \<Rightarrow> nat \<Rightarrow> nat \<Rightarrow> 'c cheap \<Rightarrow> ptr \<times> 'c cheap" where
  "calloc place nmemb sz h =
     (let n = nmemb * sz; p = place h n
      in if p = NULL then (NULL, h)
         else (p, h\<lparr>ch_blocks := (p, n) # ch_blocks h,
                    ch_mem := (\<lambda>a. if a \<in> block_cells (p, n) then None else ch_mem h a)\<rparr>))"

text \<open>Freeing what is not a live block is undefined.\<close>

definition free :: "ptr \<Rightarrow> 'c cheap \<Rightarrow> 'c cheap option" where
  "free p h =
     (if p = NULL then Some h
      else if p \<in> fst ` set (ch_blocks h)
      then Some (h\<lparr>ch_blocks := filter (\<lambda>b. fst b \<noteq> p) (ch_blocks h)\<rparr>)
      else None)"

section \<open>The hooks\<close>

definition nimble_platform_mem_malloc :: "'c placement \<Rightarrow> nat \<Rightarrow> 'c cheap \<Rightarrow> ptr \<times> 'c cheap" where
  "nimble_platform_mem_malloc place sz h = calloc place 1 sz h"

definition nimble_platform_mem_calloc :: "'c placement \<Rightarrow> nat \<Rightarrow> nat \<Rightarrow> 'c cheap \<Rightarrow> ptr \<times> 'c cheap" where
  "nimble_platform_mem_calloc place n sz h = calloc place n sz h"

definition nimble_platform_mem_realloc ::
  "(ptr \<Rightarrow> nat \<Rightarrow> 'c cheap \<Rightarrow> ptr \<times> 'c cheap) \<Rightarrow> ptr \<Rightarrow> nat \<Rightarrow> 'c cheap \<Rightarrow> ptr \<times> 'c cheap" where
  "nimble_platform_mem_realloc realloc p sz h = realloc p sz h"

definition nimble_platform_mem_free :: "ptr \<Rightarrow> 'c cheap \<Rightarrow> 'c cheap option" where
  "nimble_platform_mem_free p h = free p h"

text \<open>The message of the panic an assertion of the C host ends in; \<open>None\<close> is the null pointer.\<close>

definition nimble_rs_assert_fail :: "bytes option \<Rightarrow> c_int \<Rightarrow> bytes" where
  "nimble_rs_assert_fail file line =
     (let name = (case file of
            None \<Rightarrow> map of_char ''<unknown>''
          | Some mem \<Rightarrow> (let s = takeWhile (\<lambda>b. b \<noteq> 0) mem
                        in if utf8_valid s then s else map of_char ''<non-utf8>''))
      in map of_char ''C assertion failed at '' @ name @ map of_char '':'' @
         map of_char ((if line < 0 then ''-'' else []) @ to_dec (nat \<bar>line\<bar>)))"

section \<open>Owned slices\<close>

text \<open>\<open>size_of\<close> and \<open>align_of\<close> of the element type.\<close>

record layout =
  ly_size :: nat
  ly_align :: nat

record CSlice =
  cs_ptr :: ptr
  cs_len :: nat

definition new_zeroed :: "sys_consts \<Rightarrow> 'c placement \<Rightarrow> layout \<Rightarrow> nat \<Rightarrow> 'c cheap \<Rightarrow> CSlice ble_result \<times> 'c cheap" where
  "new_zeroed k place ly len h =
     (if len = 0 then (Inr \<lparr>cs_ptr = ly_align ly, cs_len = 0\<rparr>, h)
      else let (p, h1) = nimble_platform_mem_calloc place len (ly_size ly) h
           in if p = NULL then (Inl (BleError_new (as_c_int (k BLE_HS_ENOMEM))), h1)
              else (Inr \<lparr>cs_ptr = p, cs_len = len\<rparr>, h1))"

text \<open>The address of an element, and its assignment through \<open>deref_mut\<close>, which checks the index.\<close>

definition elem_ptr :: "layout \<Rightarrow> CSlice \<Rightarrow> nat \<Rightarrow> ptr" where
  "elem_ptr ly sl i = cs_ptr sl + i * ly_size ly"

definition deref :: "layout \<Rightarrow> CSlice \<Rightarrow> 'c cheap \<Rightarrow> 'c option list" where
  "deref ly sl h = map (\<lambda>i. ch_mem h (elem_ptr ly sl i)) [0..<cs_len sl]"

definition deref_mut :: "layout \<Rightarrow> CSlice \<Rightarrow> nat \<Rightarrow> 'c \<Rightarrow> 'c cheap \<Rightarrow> 'c cheap option" where
  "deref_mut ly sl i v h =
     (if i < cs_len sl then Some (h\<lparr>ch_mem := (ch_mem h)(elem_ptr ly sl i := Some v)\<rparr>) else None)"

definition CSlice_drop :: "CSlice \<Rightarrow> 'c cheap \<Rightarrow> 'c cheap option" where
  "CSlice_drop sl h = (if cs_len sl > 0 then nimble_platform_mem_free (cs_ptr sl) h else Some h)"

section \<open>The life of a slice\<close>

text \<open>The heap is well formed: live blocks have distinct addresses and do not overlap.\<close>

definition heap_ok :: "'c cheap \<Rightarrow> bool" where
  "heap_ok h \<longleftrightarrow> distinct (map fst (ch_blocks h)) \<and> NULL \<notin> fst ` set (ch_blocks h) \<and>
     (\<forall>b \<in> set (ch_blocks h). \<forall>c \<in> set (ch_blocks h). b \<noteq> c \<longrightarrow> block_cells b \<inter> block_cells c = {})"

text \<open>The block of a slice, if it has one.\<close>

definition slice_blocks :: "layout \<Rightarrow> CSlice \<Rightarrow> (ptr \<times> nat) list" where
  "slice_blocks ly sl = (if cs_len sl = 0 then [] else [(cs_ptr sl, cs_len sl * ly_size ly)])"

lemma new_zeroed_blocks:
  assumes "new_zeroed k place ly len h = (Inr sl, h')"
  shows "cs_len sl = len \<and> ch_blocks h' = slice_blocks ly sl @ ch_blocks h \<and> (len > 0 \<longrightarrow> cs_ptr sl \<noteq> NULL) \<and>
    (\<forall>a. ch_mem h' a = (if \<exists>b \<in> set (slice_blocks ly sl). a \<in> block_cells b then None else ch_mem h a))"
  using assms
  by (auto simp: new_zeroed_def nimble_platform_mem_calloc_def calloc_def slice_blocks_def Let_def
      split: if_splits)

lemma new_zeroed_error:
  "new_zeroed k place ly len h = (Inl e, h') \<Longrightarrow> h' = h \<and> e = BleError (as_c_int (k BLE_HS_ENOMEM)) \<and> len > 0"
  by (auto simp: new_zeroed_def nimble_platform_mem_calloc_def calloc_def BleError_new_def Let_def
      split: if_splits)

lemma new_zeroed_ok:
  assumes "place_ok place" "heap_ok h" "new_zeroed k place ly len h = (Inr sl, h')"
  shows "heap_ok h' \<and> (\<forall>b \<in> set (ch_blocks h). \<forall>c \<in> set (slice_blocks ly sl). block_cells b \<inter> block_cells c = {})"
proof (cases "len = 0")
  case True
  then show ?thesis using assms by (auto simp: new_zeroed_def slice_blocks_def)
next
  case False
  let ?n = "len * ly_size ly"
  let ?p = "place h ?n"
  have p: "?p \<noteq> NULL" "sl = \<lparr>cs_ptr = ?p, cs_len = len\<rparr>" "ch_blocks h' = (?p, ?n) # ch_blocks h"
    using assms(3) False
    by (auto simp: new_zeroed_def nimble_platform_mem_calloc_def calloc_def Let_def split: if_splits)
  have fresh: "\<forall>b \<in> set (ch_blocks h). block_cells b \<inter> block_cells (?p, ?n) = {}"
    "?p \<notin> fst ` set (ch_blocks h)"
    using assms(1) p(1) unfolding place_ok_def by blast+
  have "heap_ok h'"
    using assms(2) p fresh unfolding heap_ok_def by (auto simp: Int_commute)
  with fresh False p(2) show ?thesis by (simp add: slice_blocks_def)
qed

text \<open>Dropping a slice frees its block and no other, in any order.\<close>

lemma drop_frees:
  assumes "heap_ok h" "ch_blocks h = pre @ slice_blocks ly sl @ post"
  shows "\<exists>h'. CSlice_drop sl h = Some h' \<and> ch_blocks h' = pre @ post \<and> ch_mem h' = ch_mem h \<and> heap_ok h'"
proof (cases "cs_len sl = 0")
  case True
  then show ?thesis using assms by (simp add: CSlice_drop_def slice_blocks_def)
next
  case False
  let ?b = "(cs_ptr sl, cs_len sl * ly_size ly)"
  have bs: "ch_blocks h = pre @ ?b # post" using assms(2) False by (simp add: slice_blocks_def)
  have "cs_ptr sl \<noteq> NULL" and "cs_ptr sl \<notin> fst ` (set pre \<union> set post)"
    using assms(1) unfolding heap_ok_def bs by (auto simp: image_Un)
  then have "cs_ptr sl \<noteq> NULL" "\<forall>b \<in> set pre \<union> set post. fst b \<noteq> cs_ptr sl" by (metis imageI)+
  then have "CSlice_drop sl h = Some (h\<lparr>ch_blocks := pre @ post\<rparr>)"
    using False by (simp add: CSlice_drop_def nimble_platform_mem_free_def free_def bs)
  moreover have "heap_ok (h\<lparr>ch_blocks := pre @ post\<rparr>)"
    using assms(1) unfolding heap_ok_def bs by auto
  ultimately show ?thesis by simp
qed

text \<open>Elements of live slices have different addresses, unless they are the same element.\<close>

lemma elem_in_block:
  "i < cs_len sl \<Longrightarrow> off < ly_size ly \<Longrightarrow>
   slice_blocks ly sl = [(cs_ptr sl, cs_len sl * ly_size ly)] \<and>
   elem_ptr ly sl i + off \<in> block_cells (cs_ptr sl, cs_len sl * ly_size ly)"
proof -
  assume i: "i < cs_len sl" and off: "off < ly_size ly"
  then have "Suc i * ly_size ly \<le> cs_len sl * ly_size ly" by (simp only: mult_le_mono1 Suc_leI)
  with i off show ?thesis by (simp add: slice_blocks_def block_cells_def elem_ptr_def)
qed

lemma elem_ptr_inj:
  assumes "elem_ptr ly sl i + o1 = elem_ptr ly sl j + o2" "o1 < ly_size ly" "o2 < ly_size ly"
  shows "i = j \<and> o1 = o2"
proof -
  have e: "i * ly_size ly + o1 = j * ly_size ly + o2" using assms(1) by (simp add: elem_ptr_def)
  have "i = (i * ly_size ly + o1) div ly_size ly" using assms(2) by simp
  also have "\<dots> = j" using assms(3) by (simp add: e)
  finally show ?thesis using e by simp
qed

end
