(* ===== verification/Mbuf.thy ===== *)
theory Mbuf
  imports Ble_Types
begin

text \<open>
  The view of NimBLE's \<open>os_mbuf\<close> buffers (\<open>nimble-rs/src/mbuf.rs\<close>). The buffer functions are C
  code outside the repository: the record \<open>mbuf_c\<close>, on a host state of type \<open>'s\<close>. A length that
  the source casts with \<open>as u16\<close> is truncated here too, so a C function that is given a pointer
  and such a length sees a prefix of the slice.

  \<open>mbuf_contract\<close> states the documented behaviour of these functions on the contents of the live
  buffers, \<open>pool\<close>.
\<close>

section \<open>The C functions\<close>

text \<open>
  \<open>ble_hs_mbuf_to_flat\<close> returns its code, the bytes it wrote from the start of the buffer and
  the out parameter \<open>out_copy_len\<close>.
\<close>

record 's mbuf_c =
  mb_to_flat :: "ptr \<Rightarrow> u16 \<Rightarrow> 's \<Rightarrow> c_int \<times> bytes \<times> u16 \<times> 's"
  mb_append :: "ptr \<Rightarrow> bytes \<Rightarrow> 's \<Rightarrow> c_int \<times> 's"
  mb_from_flat :: "bytes \<Rightarrow> 's \<Rightarrow> ptr \<times> 's"
  mb_get_pkthdr :: "u16 \<Rightarrow> u8 \<Rightarrow> 's \<Rightarrow> ptr \<times> 's"
  mb_free_chain :: "ptr \<Rightarrow> 's \<Rightarrow> 's"

text \<open>\<open>len() as u16\<close>, and the part of a slice a C function sees through it.\<close>

definition as_u16 :: "nat \<Rightarrow> u16" where "as_u16 n = word_of_nat n"

definition c_view :: "bytes \<Rightarrow> bytes" where "c_view buf = take (unat (as_u16 (length buf))) buf"

section \<open>The wrapper\<close>

datatype Mbuf = Mbuf ptr

primrec Mbuf_om :: "Mbuf \<Rightarrow> ptr" where "Mbuf_om (Mbuf om) = om"

definition Mbuf_from_raw :: "ptr \<Rightarrow> Mbuf" where "Mbuf_from_raw om = Mbuf om"

definition Mbuf_read :: "'s mbuf_c \<Rightarrow> Mbuf \<Rightarrow> bytes \<Rightarrow> 's \<Rightarrow> nat ble_result \<times> bytes \<times> 's" where
  "Mbuf_read c m buf s =
     (if Mbuf_om m = NULL then (Inr 0, buf, s)
      else let (rc, written, copied, s1) = mb_to_flat c (Mbuf_om m) (as_u16 (length buf)) s;
               buf1 = written @ drop (length written) buf
           in case BleError_check rc of
                Inl e \<Rightarrow> (Inl e, buf1, s1)
              | Inr _ \<Rightarrow> (Inr (unat copied), buf1, s1))"

definition Mbuf_append :: "'s mbuf_c \<Rightarrow> Mbuf \<Rightarrow> bytes \<Rightarrow> 's \<Rightarrow> unit ble_result \<times> 's" where
  "Mbuf_append c m buf s = checked (mb_append c (Mbuf_om m) (c_view buf) s)"

definition mbuf_from_slice :: "sys_consts \<Rightarrow> 's mbuf_c \<Rightarrow> bytes \<Rightarrow> 's \<Rightarrow> ptr ble_result \<times> 's" where
  "mbuf_from_slice k c buf s =
     (let (om, s1) = mb_from_flat c (c_view buf) s
      in if om = NULL then (Inl (BleError_new (as_c_int (k BLE_HS_ENOMEM))), s1) else (Inr om, s1))"

section \<open>The contract of the C functions\<close>

definition to_flat_ok :: "'s mbuf_c \<Rightarrow> ('s \<Rightarrow> ptr \<Rightarrow> bytes option) \<Rightarrow> bool" where
  "to_flat_ok c pool \<longleftrightarrow> (\<forall>om n s xs. pool s om = Some xs \<longrightarrow> (\<exists>rc copied.
     mb_to_flat c om n s = (rc, take (unat n) xs, copied, s) \<and> unat copied = min (length xs) (unat n) \<and>
     (rc = 0 \<longleftrightarrow> length xs \<le> unat n)))"

definition append_ok :: "'s mbuf_c \<Rightarrow> ('s \<Rightarrow> ptr \<Rightarrow> bytes option) \<Rightarrow> bool" where
  "append_ok c pool \<longleftrightarrow> (\<forall>om data s xs rc s'. pool s om = Some xs \<longrightarrow> mb_append c om data s = (rc, s') \<longrightarrow>
     (if rc = 0 then pool s' = (pool s)(om \<mapsto> xs @ data) else \<exists>ys. pool s' = (pool s)(om \<mapsto> xs @ ys)))"

definition from_flat_ok :: "'s mbuf_c \<Rightarrow> ('s \<Rightarrow> ptr \<Rightarrow> bytes option) \<Rightarrow> bool" where
  "from_flat_ok c pool \<longleftrightarrow> (\<forall>data s p s'. mb_from_flat c data s = (p, s') \<longrightarrow>
     (if p = NULL then pool s' = pool s else pool s p = None \<and> pool s' = (pool s)(p \<mapsto> data)))"

definition get_pkthdr_ok :: "'s mbuf_c \<Rightarrow> ('s \<Rightarrow> ptr \<Rightarrow> bytes option) \<Rightarrow> bool" where
  "get_pkthdr_ok c pool \<longleftrightarrow> (\<forall>n pre s p s'. mb_get_pkthdr c n pre s = (p, s') \<longrightarrow>
     (if p = NULL then pool s' = pool s else pool s p = None \<and> pool s' = (pool s)(p \<mapsto> [])))"

definition free_chain_ok :: "'s mbuf_c \<Rightarrow> ('s \<Rightarrow> ptr \<Rightarrow> bytes option) \<Rightarrow> bool" where
  "free_chain_ok c pool \<longleftrightarrow> (\<forall>p s. pool s p \<noteq> None \<longrightarrow> pool (mb_free_chain c p s) = (pool s)(p := None))"

definition mbuf_contract :: "'s mbuf_c \<Rightarrow> ('s \<Rightarrow> ptr \<Rightarrow> bytes option) \<Rightarrow> bool" where
  "mbuf_contract c pool \<longleftrightarrow> to_flat_ok c pool \<and> append_ok c pool \<and> from_flat_ok c pool \<and>
     get_pkthdr_ok c pool \<and> free_chain_ok c pool"

lemma mbuf_to_flatD:
  "mbuf_contract c pool \<Longrightarrow> pool s om = Some xs \<Longrightarrow> \<exists>rc copied.
     mb_to_flat c om n s = (rc, take (unat n) xs, copied, s) \<and> unat copied = min (length xs) (unat n) \<and>
     (rc = 0 \<longleftrightarrow> length xs \<le> unat n)"
  unfolding mbuf_contract_def to_flat_ok_def by blast

lemma mbuf_from_flatD:
  "mbuf_contract c pool \<Longrightarrow> mb_from_flat c data s = (p, s') \<Longrightarrow>
     if p = NULL then pool s' = pool s else pool s p = None \<and> pool s' = (pool s)(p \<mapsto> data)"
  unfolding mbuf_contract_def from_flat_ok_def by blast

lemma mbuf_get_pkthdrD:
  "mbuf_contract c pool \<Longrightarrow> mb_get_pkthdr c n pre s = (p, s') \<Longrightarrow>
     if p = NULL then pool s' = pool s else pool s p = None \<and> pool s' = (pool s)(p \<mapsto> [])"
  unfolding mbuf_contract_def get_pkthdr_ok_def by blast

lemma mbuf_freeD:
  "mbuf_contract c pool \<Longrightarrow> pool s p \<noteq> None \<Longrightarrow> pool (mb_free_chain c p s) = (pool s)(p := None)"
  unfolding mbuf_contract_def free_chain_ok_def by blast

lemma c_view_id: "length buf < 2 ^ 16 \<Longrightarrow> c_view buf = buf"
  by (simp add: c_view_def as_u16_def unat_of_nat take_bit_nat_eq_self)

lemma unat_as_u16: "n < 2 ^ 16 \<Longrightarrow> unat (as_u16 n) = n"
  by (simp add: as_u16_def unat_of_nat take_bit_nat_eq_self)

lemma unat_as_u16_mod: "unat (as_u16 n) = n mod 2 ^ 16"
  by (simp add: as_u16_def unat_of_nat take_bit_eq_mod)

text \<open>A pool to instantiate the contract with: a list of buffers, freed ones kept as holes.\<close>

type_synonym list_pool = "bytes option list"

definition list_contents :: "list_pool \<Rightarrow> ptr \<Rightarrow> bytes option" where
  "list_contents s p = (if 0 < p \<and> p \<le> length s then s ! (p - 1) else None)"

definition list_mbuf :: "list_pool mbuf_c" where
  "list_mbuf = \<lparr>
     mb_to_flat = (\<lambda>om n s. case list_contents s om of
         None \<Rightarrow> (1, [], 0, s)
       | Some xs \<Rightarrow> (if length xs \<le> unat n then 0 else 4, take (unat n) xs,
           as_u16 (length (take (unat n) xs)), s)),
     mb_append = (\<lambda>om d s. case list_contents s om of
         None \<Rightarrow> (1, s) | Some xs \<Rightarrow> (0, s[om - 1 := Some (xs @ d)])),
     mb_from_flat = (\<lambda>d s. (Suc (length s), s @ [Some d])),
     mb_get_pkthdr = (\<lambda>n pre s. (Suc (length s), s @ [Some []])),
     mb_free_chain = (\<lambda>p s. s[p - 1 := None])\<rparr>"

lemma list_contents_append [simp]:
  "list_contents (s @ [x]) = (list_contents s)(Suc (length s) := x)"
  by (rule ext) (auto simp: list_contents_def nth_append)

lemma list_contents_upd:
  "0 < p \<Longrightarrow> p \<le> length s \<Longrightarrow> list_contents (s[p - 1 := x]) = (list_contents s)(p := x)"
  by (rule ext) (auto simp: list_contents_def nth_list_update)

lemma list_live: "list_contents s p = Some xs \<Longrightarrow> 0 < p \<and> p \<le> length s"
  by (simp add: list_contents_def split: if_splits)

lemma list_mbuf_contract: "mbuf_contract list_mbuf list_contents"
  unfolding mbuf_contract_def
proof (intro conjI)
  have "min (length xs) (unat n) mod 2 ^ 16 = min (length xs) (unat n)" for xs :: bytes and n :: u16
    using unsigned_less [of n, where ?'a = nat] by (simp add: min_def)
  then show "to_flat_ok list_mbuf list_contents"
    by (auto simp: to_flat_ok_def list_mbuf_def unat_as_u16_mod)
  show "append_ok list_mbuf list_contents"
    using list_live by (auto simp: append_ok_def list_mbuf_def list_contents_upd simp del: One_nat_def)
  have "list_contents s (Suc (length s)) = None" for s by (simp add: list_contents_def)
  then show "from_flat_ok list_mbuf list_contents" "get_pkthdr_ok list_mbuf list_contents"
    by (auto simp: from_flat_ok_def get_pkthdr_ok_def list_mbuf_def)
  show "free_chain_ok list_mbuf list_contents"
    using list_live by (auto simp: free_chain_ok_def list_mbuf_def list_contents_upd simp del: One_nat_def)
qed

section \<open>Properties\<close>

lemma mbuf_from_slice_cases:
  assumes "mbuf_contract c pool" "mbuf_from_slice k c buf s = (r, s')"
  shows "(\<exists>om. r = Inr om \<and> om \<noteq> NULL \<and> pool s om = None \<and> pool s' = (pool s)(om \<mapsto> c_view buf)) \<or>
    r = Inl (BleError (as_c_int (k BLE_HS_ENOMEM))) \<and> pool s' = pool s"
  using assms(2) mbuf_from_flatD [OF assms(1), of "c_view buf" s]
  by (auto simp: mbuf_from_slice_def BleError_new_def split: prod.splits if_splits)

text \<open>
  Reading an mbuf into a buffer of less than 64 KiB copies all of it and returns its length,
  or fails when the buffer is too small; a null mbuf reads as empty.
\<close>

theorem mbuf_read_correct:
  assumes "mbuf_contract c pool" "length buf < 2 ^ 16"
    and "om = NULL \<and> xs = [] \<or> om \<noteq> NULL \<and> pool s om = Some xs"
  shows "if length xs \<le> length buf
    then Mbuf_read c (Mbuf_from_raw om) buf s = (Inr (length xs), xs @ drop (length xs) buf, s)
    else \<exists>code buf'. Mbuf_read c (Mbuf_from_raw om) buf s = (Inl (BleError code), buf', s) \<and> length buf' = length buf"
  using assms(3)
proof
  assume "om \<noteq> NULL \<and> pool s om = Some xs"
  then show ?thesis
    using mbuf_to_flatD [OF assms(1), of s om xs "as_u16 (length buf)"]
    by (auto simp: Mbuf_read_def Mbuf_from_raw_def unat_as_u16 [OF assms(2)] min_def BleError_check_def)
qed (simp add: Mbuf_read_def Mbuf_from_raw_def)

theorem mbuf_read_correct_witness:
  "Mbuf_read list_mbuf (Mbuf_from_raw 1) [0, 0, 9] [Some [5, 6]] = (Inr 2, [5, 6, 9], [Some [5, 6]])"
  using mbuf_read_correct [OF list_mbuf_contract, of "[0, 0, 9]" 1 "[5, 6]" "[Some [5, 6]]"]
  by (simp add: list_contents_def)

text \<open>A buffer of exactly 64 KiB is passed to the C side as empty.\<close>

lemma mbuf_read_64k:
  assumes "mbuf_contract c pool" "length buf = 2 ^ 16" "om \<noteq> NULL" "pool s om = Some xs" "xs \<noteq> []"
  shows "\<exists>code. fst (Mbuf_read c (Mbuf_from_raw om) buf s) = Inl (BleError code)"
  using mbuf_to_flatD [OF assms(1,4), of "as_u16 (length buf)"] assms(3,5)
  by (auto simp: Mbuf_read_def Mbuf_from_raw_def unat_as_u16_mod assms(2) BleError_check_def)

end
