(* ===== verification/Gatt_Server.thy ===== *)
theory Gatt_Server
  imports Gap Gatt Mem Mbuf
begin

text \<open>
  The GATT server (\<open>nimble-rs/src/gatt/server.rs\<close>): its events, notifications, and the two ways
  to build the service table the C host walks, at run time on the C heap and at compile time by
  the \<open>gatt_services!\<close> macro.

  The table is a graph of C structures. \<open>svc_table\<close> says what graph a host that follows the
  pointers up to the terminators sees; both builders are proved to produce it for the services
  they are given.
\<close>

section \<open>Events\<close>

datatype SubscribeReason = ReasonWrite | ReasonTerm | ReasonRestore | ReasonOther u8

definition SubscribeReason_from_raw :: "sys_consts \<Rightarrow> u8 \<Rightarrow> SubscribeReason" where
  "SubscribeReason_from_raw k reason =
     (if ucast reason = k BLE_GAP_SUBSCRIBE_REASON_WRITE then ReasonWrite
      else if ucast reason = k BLE_GAP_SUBSCRIBE_REASON_TERM then ReasonTerm
      else if ucast reason = k BLE_GAP_SUBSCRIBE_REASON_RESTORE then ReasonRestore
      else ReasonOther reason)"

datatype BleGattRegister =
    Service BleUuid AttrHandle
  | Characteristic BleUuid AttrHandle AttrHandle
  | Descriptor BleUuid AttrHandle
  | RegisterOther

datatype GattsEvent =
    Register BleGattRegister
  | GattsRead ConnHandle AttrHandle u16 Mbuf
  | GattsWrite ConnHandle AttrHandle Mbuf
  | SubscriptionChanged ConnHandle AttrHandle SubscribeReason bool bool bool bool
  | NotifyComplete ConnHandle AttrHandle bool c_int

definition GattsEvent_from_gap :: "sys_consts \<Rightarrow> ble_gap_event \<Rightarrow> GattsEvent option" where
  "GattsEvent_from_gap k event =
     (let t = (ucast (ge_type event) :: u32)
      in if t = k BLE_GAP_EVENT_SUBSCRIBE then
           (let e = ge_subscribe event
            in Some (SubscriptionChanged (es_conn_handle e) (es_attr_handle e)
                 (SubscribeReason_from_raw k (es_reason e))
                 (es_prev_notify e \<noteq> 0) (es_cur_notify e \<noteq> 0)
                 (es_prev_indicate e \<noteq> 0) (es_cur_indicate e \<noteq> 0)))
         else if t = k BLE_GAP_EVENT_NOTIFY_TX then
           (let e = ge_notify_tx event
            in Some (NotifyComplete (et_conn_handle e) (et_attr_handle e) (et_indication e \<noteq> 0) (et_status e)))
         else None)"

text \<open>
  A registration context; the UUID fields are the memory behind the \<open>uuid\<close> pointer of the
  definition that was registered.
\<close>

record ble_gatt_register_ctxt =
  rg_op :: u8
  rg_svc_uuid :: bytes
  rg_svc_handle :: u16
  rg_chr_uuid :: bytes
  rg_chr_def_handle :: u16
  rg_chr_val_handle :: u16
  rg_dsc_uuid :: bytes
  rg_dsc_handle :: u16

definition BleGattRegister_from :: "sys_consts \<Rightarrow> ble_gatt_register_ctxt \<Rightarrow> BleGattRegister" where
  "BleGattRegister_from k ctxt =
     (let op = (ucast (rg_op ctxt) :: u32)
      in if op = k BLE_GATT_REGISTER_OP_SVC then Service (from_raw k (rg_svc_uuid ctxt)) (rg_svc_handle ctxt)
         else if op = k BLE_GATT_REGISTER_OP_CHR then
           Characteristic (from_raw k (rg_chr_uuid ctxt)) (rg_chr_def_handle ctxt) (rg_chr_val_handle ctxt)
         else if op = k BLE_GATT_REGISTER_OP_DSC then Descriptor (from_raw k (rg_dsc_uuid ctxt)) (rg_dsc_handle ctxt)
         else RegisterOther)"

section \<open>Notifications\<close>

record 's gatts_c =
  gs_indicate_custom :: "u16 \<Rightarrow> u16 \<Rightarrow> ptr \<Rightarrow> 's \<Rightarrow> c_int \<times> 's"
  gs_notify_custom :: "u16 \<Rightarrow> u16 \<Rightarrow> ptr \<Rightarrow> 's \<Rightarrow> c_int \<times> 's"

definition indicate :: "sys_consts \<Rightarrow> 's mbuf_c \<Rightarrow> 's gatts_c \<Rightarrow> ConnHandle \<Rightarrow> AttrHandle \<Rightarrow> bytes \<Rightarrow> 's \<Rightarrow> unit ble_result \<times> 's" where
  "indicate k mc gc conn_handle val_handle data s =
     (case mbuf_from_slice k mc data s of
        (Inl e, s1) \<Rightarrow> (Inl e, s1)
      | (Inr om, s1) \<Rightarrow> checked (gs_indicate_custom gc conn_handle val_handle om s1))"

definition notify :: "sys_consts \<Rightarrow> 's mbuf_c \<Rightarrow> 's gatts_c \<Rightarrow> ConnHandle \<Rightarrow> AttrHandle \<Rightarrow> bytes \<Rightarrow> 's \<Rightarrow> unit ble_result \<times> 's" where
  "notify k mc gc conn_handle val_handle data s =
     (case mbuf_from_slice k mc data s of
        (Inl e, s1) \<Rightarrow> (Inl e, s1)
      | (Inr om, s1) \<Rightarrow> checked (gs_notify_custom gc conn_handle val_handle om s1))"

section \<open>Services and the C structures\<close>

record BleGattCharacteristic =
  gc_uuid :: BleUuid
  gc_flags :: "BleGattCharFlag set"

definition BleGattCharacteristic_new :: "BleUuid \<Rightarrow> BleGattCharFlag set \<Rightarrow> BleGattCharacteristic" where
  "BleGattCharacteristic_new uuid flags = \<lparr>gc_uuid = uuid, gc_flags = flags\<rparr>"

record BleGattService =
  sv_primary :: bool
  sv_uuid :: BleUuid
  sv_characteristics :: "BleGattCharacteristic list"

definition BleGattService_new :: "bool \<Rightarrow> BleUuid \<Rightarrow> BleGattCharacteristic list \<Rightarrow> BleGattService" where
  "BleGattService_new primary uuid characteristics =
     \<lparr>sv_primary = primary, sv_uuid = uuid, sv_characteristics = characteristics\<rparr>"

text \<open>The fields of the C structures the sources name; the others stay zero.\<close>

record 'w ble_gatt_chr_def =
  cd_uuid :: ptr
  cd_access_cb :: "trampoline option"
  cd_arg :: ptr
  cd_flags :: 'w
  cd_val_handle :: ptr

record ble_gatt_svc_def =
  sd_type :: u8
  sd_uuid :: ptr
  sd_includes :: ptr
  sd_characteristics :: ptr

datatype 'w gatt_cell =
    CellUuid BleUuid
  | CellChar BleGattCharacteristic
  | CellChr "'w ble_gatt_chr_def"
  | CellSvc ble_gatt_svc_def

type_synonym 'w gatt_heap = "'w gatt_cell cheap"

text \<open>
  The layouts of the four element types, the offset of the UUID in a characteristic, and the
  offset of the C header in a \<open>BleUuid\<close>, which depends on the variant.
\<close>

record gatt_layout =
  gl_char :: layout
  gl_uuid :: layout
  gl_chr_def :: layout
  gl_svc_def :: layout
  gl_char_uuid :: nat
  gl_header :: "BleUuid \<Rightarrow> nat"

section \<open>The runtime table\<close>

record BleGattServices =
  gt_chars :: CSlice
  gt_svc_uuids :: CSlice
  gt_chr_defs :: CSlice
  gt_svc_defs :: CSlice

definition svc_type :: "sys_consts \<Rightarrow> bool \<Rightarrow> u8" where
  "svc_type k primary = ucast (k (if primary then BLE_GATT_SVC_TYPE_PRIMARY else BLE_GATT_SVC_TYPE_SECONDARY))"

definition chr_def_of :: "sys_consts \<Rightarrow> ptr \<Rightarrow> BleGattCharFlag set \<Rightarrow> 'f::len word ble_gatt_chr_def" where
  "chr_def_of k uuid flags =
     \<lparr>cd_uuid = uuid, cd_access_cb = Some Gatts_access_cb, cd_arg = NULL, cd_flags = flags_to_repr k flags, cd_val_handle = NULL\<rparr>"

text \<open>The inner loop, over the characteristics of one service.\<close>

fun build_chrs :: "sys_consts \<Rightarrow> gatt_layout \<Rightarrow> BleGattServices \<Rightarrow> nat \<Rightarrow> nat \<Rightarrow> BleGattCharacteristic list \<Rightarrow>
    'f::len word gatt_heap \<Rightarrow> (nat \<times> nat \<times> 'f word gatt_heap) option" where
  "build_chrs k L t char_at def_at [] h = Some (char_at, def_at, h)"
| "build_chrs k L t char_at def_at (chr # chrs) h = do {
     h1 \<leftarrow> deref_mut (gl_char L) (gt_chars t) char_at (CellChar chr) h;
     let uuid = elem_ptr (gl_char L) (gt_chars t) char_at + gl_char_uuid L + gl_header L (gc_uuid chr);
     h2 \<leftarrow> deref_mut (gl_chr_def L) (gt_chr_defs t) def_at (CellChr (chr_def_of k uuid (gc_flags chr))) h1;
     build_chrs k L t (char_at + 1) (def_at + 1) chrs h2
   }"

text \<open>The outer loop.\<close>

fun build_svcs :: "sys_consts \<Rightarrow> gatt_layout \<Rightarrow> BleGattServices \<Rightarrow> nat \<Rightarrow> nat \<Rightarrow> nat \<Rightarrow> BleGattService list \<Rightarrow>
    'f::len word gatt_heap \<Rightarrow> 'f word gatt_heap option" where
  "build_svcs k L t svc_at char_at def_at [] h = Some h"
| "build_svcs k L t svc_at char_at def_at (service # services) h = do {
     h1 \<leftarrow> deref_mut (gl_uuid L) (gt_svc_uuids t) svc_at (CellUuid (sv_uuid service)) h;
     let uuid = elem_ptr (gl_uuid L) (gt_svc_uuids t) svc_at + gl_header L (sv_uuid service);
     h2 \<leftarrow> deref_mut (gl_svc_def L) (gt_svc_defs t) svc_at
       (CellSvc \<lparr>sd_type = svc_type k (sv_primary service), sd_uuid = uuid, sd_includes = NULL,
          sd_characteristics = elem_ptr (gl_chr_def L) (gt_chr_defs t) def_at\<rparr>) h1;
     (char_at', def_at', h3) \<leftarrow> build_chrs k L t char_at def_at (sv_characteristics service) h2;
     build_svcs k L t (svc_at + 1) char_at' (def_at' + 1) services h3
   }"

definition total_chars :: "BleGattService list \<Rightarrow> nat" where
  "total_chars services = sum_list (map (\<lambda>s. length (sv_characteristics s)) services)"

text \<open>An error return drops the slices allocated so far, the last one first.\<close>

fun drop_all :: "CSlice list \<Rightarrow> 'c cheap \<Rightarrow> 'c cheap option" where
  "drop_all [] h = Some h"
| "drop_all (sl # sls) h = do { h1 \<leftarrow> CSlice_drop sl h; drop_all sls h1 }"

definition BleGattServices_new :: "sys_consts \<Rightarrow> 'f word gatt_cell placement \<Rightarrow> gatt_layout \<Rightarrow> BleGattService list \<Rightarrow>
    'f::len word gatt_heap \<Rightarrow> (BleGattServices ble_result \<times> 'f word gatt_heap) option" where
  "BleGattServices_new k place L services h =
     (case new_zeroed k place (gl_char L) (total_chars services) h of
        (Inl e, h1) \<Rightarrow> Some (Inl e, h1)
      | (Inr chars, h1) \<Rightarrow>
     (case new_zeroed k place (gl_uuid L) (length services) h1 of
        (Inl e, h2) \<Rightarrow> do { h' \<leftarrow> drop_all [chars] h2; Some (Inl e, h') }
      | (Inr svc_uuids, h2) \<Rightarrow>
     (case new_zeroed k place (gl_chr_def L) (total_chars services + length services) h2 of
        (Inl e, h3) \<Rightarrow> do { h' \<leftarrow> drop_all [svc_uuids, chars] h3; Some (Inl e, h') }
      | (Inr chr_defs, h3) \<Rightarrow>
     (case new_zeroed k place (gl_svc_def L) (length services + 1) h3 of
        (Inl e, h4) \<Rightarrow> do { h' \<leftarrow> drop_all [chr_defs, svc_uuids, chars] h4; Some (Inl e, h') }
      | (Inr svc_defs, h4) \<Rightarrow> do {
          let t = \<lparr>gt_chars = chars, gt_svc_uuids = svc_uuids, gt_chr_defs = chr_defs, gt_svc_defs = svc_defs\<rparr>;
          h' \<leftarrow> build_svcs k L t 0 0 0 services h4;
          Some (Inr t, h')
        }))))"

text \<open>The pointer handed to the C host, and the drop of the table, field by field.\<close>

definition BleGattServices_as_ref :: "BleGattServices \<Rightarrow> ptr" where
  "BleGattServices_as_ref t = cs_ptr (gt_svc_defs t)"

definition BleGattServices_drop :: "BleGattServices \<Rightarrow> 'c cheap \<Rightarrow> 'c cheap option" where
  "BleGattServices_drop t = drop_all [gt_chars t, gt_svc_uuids t, gt_chr_defs t, gt_svc_defs t]"

section \<open>The static table\<close>

definition ZERO_SVC :: ble_gatt_svc_def where
  "ZERO_SVC = \<lparr>sd_type = 0, sd_uuid = NULL, sd_includes = NULL, sd_characteristics = NULL\<rparr>"

definition ZERO_CHR :: "'f::len word ble_gatt_chr_def" where
  "ZERO_CHR = \<lparr>cd_uuid = NULL, cd_access_cb = None, cd_arg = NULL, cd_flags = 0, cd_val_handle = NULL\<rparr>"

definition make_chr :: "ptr \<Rightarrow> 'f::len word \<Rightarrow> 'f word ble_gatt_chr_def" where
  "make_chr uuid flags = ZERO_CHR\<lparr>cd_uuid := uuid, cd_access_cb := Some Gatts_access_cb, cd_flags := flags\<rparr>"

definition make_svc :: "sys_consts \<Rightarrow> bool \<Rightarrow> ptr \<Rightarrow> ptr \<Rightarrow> ble_gatt_svc_def" where
  "make_svc k primary uuid characteristics =
     ZERO_SVC\<lparr>sd_type := svc_type k primary, sd_uuid := uuid, sd_characteristics := characteristics\<rparr>"

text \<open>
  The syntax of a \<open>gatt_services!\<close> invocation: services with their kind and UUID, and
  characteristics with the flags as they are written.
\<close>

type_synonym macro_chr = "BleUuid \<times> BleGattCharFlag list"
type_synonym macro_svc = "bool \<times> BleUuid \<times> macro_chr list"

text \<open>
  The statics of the expansion have addresses the linker chooses: \<open>st_name\<close> of the service array,
  \<open>st_chrs i\<close> of the characteristics of service \<open>i\<close>, and those of the UUIDs.
\<close>

record statics =
  st_name :: ptr
  st_chrs :: "nat \<Rightarrow> ptr"
  st_svc_uuid :: "nat \<Rightarrow> ptr"
  st_chr_uuid :: "nat \<Rightarrow> nat \<Rightarrow> ptr"

text \<open>The initial values of the statics, as (address, value) pairs; \<open>None\<close> is an all-zero value.\<close>

definition macro_chr_flags :: "sys_consts \<Rightarrow> BleGattCharFlag list \<Rightarrow> 'f::len word" where
  "macro_chr_flags k flags = fold (\<lambda>f acc. acc OR repr k f) flags 0"

definition expand_chr :: "sys_consts \<Rightarrow> gatt_layout \<Rightarrow> statics \<Rightarrow> nat \<Rightarrow> nat \<Rightarrow> macro_chr \<Rightarrow> (ptr \<times> 'f::len word gatt_cell option) list" where
  "expand_chr k L st i j = (\<lambda>(uuid, flags).
     [(st_chr_uuid st i j, Some (CellUuid uuid)),
      (st_chrs st i + j * ly_size (gl_chr_def L),
       Some (CellChr (make_chr (st_chr_uuid st i j + gl_header L uuid) (macro_chr_flags k flags))))])"

definition expand_svc :: "sys_consts \<Rightarrow> gatt_layout \<Rightarrow> statics \<Rightarrow> nat \<Rightarrow> macro_svc \<Rightarrow> (ptr \<times> 'f::len word gatt_cell option) list" where
  "expand_svc k L st i = (\<lambda>(primary, uuid, chrs).
     concat (map (\<lambda>j. expand_chr k L st i j (chrs ! j)) [0..<length chrs]) @
     [(st_chrs st i + length chrs * ly_size (gl_chr_def L), None),
      (st_svc_uuid st i, Some (CellUuid uuid)),
      (st_name st + i * ly_size (gl_svc_def L),
       Some (CellSvc (make_svc k primary (st_svc_uuid st i + gl_header L uuid) (st_chrs st i))))])"

definition gatt_services :: "sys_consts \<Rightarrow> gatt_layout \<Rightarrow> statics \<Rightarrow> macro_svc list \<Rightarrow> (ptr \<times> 'f::len word gatt_cell option) list" where
  "gatt_services k L st svcs =
     concat (map (\<lambda>i. expand_svc k L st i (svcs ! i)) [0..<length svcs]) @
     [(st_name st + length svcs * ly_size (gl_svc_def L), None)]"

section \<open>What the C host sees\<close>

text \<open>\<open>p\<close> points to the header of the UUID \<open>u\<close>, on its own or inside a characteristic.\<close>

definition uuid_at :: "gatt_layout \<Rightarrow> (ptr \<Rightarrow> 'w gatt_cell option) \<Rightarrow> ptr \<Rightarrow> BleUuid \<Rightarrow> bool" where
  "uuid_at L m p u \<longleftrightarrow> p \<noteq> NULL \<and>
     ((\<exists>a. m a = Some (CellUuid u) \<and> p = a + gl_header L u) \<or>
      (\<exists>a c. m a = Some (CellChar c) \<and> gc_uuid c = u \<and> p = a + gl_char_uuid L + gl_header L u))"

definition chr_entry :: "sys_consts \<Rightarrow> gatt_layout \<Rightarrow> (ptr \<Rightarrow> 'f::len word gatt_cell option) \<Rightarrow> ptr \<Rightarrow> BleGattCharacteristic \<Rightarrow> bool" where
  "chr_entry k L m p c \<longleftrightarrow> (\<exists>uuid. m p = Some (CellChr (chr_def_of k uuid (gc_flags c))) \<and> uuid_at L m uuid (gc_uuid c))"

primrec chr_table :: "sys_consts \<Rightarrow> gatt_layout \<Rightarrow> (ptr \<Rightarrow> 'f::len word gatt_cell option) \<Rightarrow> ptr \<Rightarrow> BleGattCharacteristic list \<Rightarrow> bool" where
  "chr_table k L m p [] \<longleftrightarrow> m p = None"
| "chr_table k L m p (c # cs) \<longleftrightarrow> chr_entry k L m p c \<and> chr_table k L m (p + ly_size (gl_chr_def L)) cs"

definition svc_entry :: "sys_consts \<Rightarrow> gatt_layout \<Rightarrow> (ptr \<Rightarrow> 'f::len word gatt_cell option) \<Rightarrow> ptr \<Rightarrow> BleGattService \<Rightarrow> bool" where
  "svc_entry k L m p s \<longleftrightarrow> (\<exists>uuid chrs.
     m p = Some (CellSvc \<lparr>sd_type = svc_type k (sv_primary s), sd_uuid = uuid, sd_includes = NULL, sd_characteristics = chrs\<rparr>) \<and>
     svc_type k (sv_primary s) \<noteq> 0 \<and> uuid_at L m uuid (sv_uuid s) \<and> chr_table k L m chrs (sv_characteristics s))"

primrec svc_table :: "sys_consts \<Rightarrow> gatt_layout \<Rightarrow> (ptr \<Rightarrow> 'f::len word gatt_cell option) \<Rightarrow> ptr \<Rightarrow> BleGattService list \<Rightarrow> bool" where
  "svc_table k L m p [] \<longleftrightarrow> m p = None"
| "svc_table k L m p (s # ss) \<longleftrightarrow> svc_entry k L m p s \<and> svc_table k L m (p + ly_size (gl_svc_def L)) ss"

lemma all_less_length_Cons: "(\<forall>i < length (x # xs). P i ((x # xs) ! i)) \<longleftrightarrow> P 0 x \<and> (\<forall>i < length xs. P (Suc i) (xs ! i))"
  by (auto simp: less_Suc_eq_0_disj)

lemma chr_table_nth:
  "chr_table k L m p cs \<longleftrightarrow>
     (\<forall>j < length cs. chr_entry k L m (p + j * ly_size (gl_chr_def L)) (cs ! j)) \<and>
     m (p + length cs * ly_size (gl_chr_def L)) = None"
proof (induction cs arbitrary: p)
  case (Cons c cs)
  show ?case
    by (subst all_less_length_Cons [where P = "\<lambda>j c. chr_entry k L m (p + j * ly_size (gl_chr_def L)) c"])
      (simp add: Cons.IH add.assoc)
qed simp

lemma svc_table_nth:
  "svc_table k L m p ss \<longleftrightarrow>
     (\<forall>i < length ss. svc_entry k L m (p + i * ly_size (gl_svc_def L)) (ss ! i)) \<and>
     m (p + length ss * ly_size (gl_svc_def L)) = None"
proof (induction ss arbitrary: p)
  case (Cons s ss)
  show ?case
    by (subst all_less_length_Cons [where P = "\<lambda>i s. svc_entry k L m (p + i * ly_size (gl_svc_def L)) s"])
      (simp add: Cons.IH add.assoc)
qed simp

section \<open>The static table is right\<close>

definition macro_services :: "macro_svc list \<Rightarrow> BleGattService list" where
  "macro_services svcs = map (\<lambda>(primary, uuid, chrs).
     BleGattService_new primary uuid (map (\<lambda>(u, flags). BleGattCharacteristic_new u (set flags)) chrs)) svcs"

text \<open>The statics hold their initial values, and none is at address 0.\<close>

definition statics_in :: "statics \<Rightarrow> (ptr \<times> 'c option) list \<Rightarrow> (ptr \<Rightarrow> 'c option) \<Rightarrow> bool" where
  "statics_in st img m \<longleftrightarrow> (\<forall>(a, v) \<in> set img. m a = v) \<and>
     (\<forall>i. st_svc_uuid st i \<noteq> NULL) \<and> (\<forall>i j. st_chr_uuid st i j \<noteq> NULL)"

definition svc_types_ok :: "sys_consts \<Rightarrow> bool" where
  "svc_types_ok k \<longleftrightarrow> svc_type k True \<noteq> 0 \<and> svc_type k False \<noteq> 0"

lemma svc_types_nimble: "svc_types_ok nimble_consts"
  by (simp add: svc_types_ok_def svc_type_def)

lemma svc_type_nonzero: "svc_types_ok k \<Longrightarrow> svc_type k b \<noteq> 0"
  by (cases b) (simp_all add: svc_types_ok_def)

lemma make_chr_is_def: "make_chr uuid (macro_chr_flags k flags) = chr_def_of k uuid (set flags)"
  by (simp add: make_chr_def ZERO_CHR_def chr_def_of_def macro_chr_flags_def fold_or_set)

lemma static_svc_entry:
  assumes "svc_types_ok k" "statics_in st (gatt_services k L st svcs) m" "i < length svcs"
  shows "svc_entry k L m (st_name st + i * ly_size (gl_svc_def L)) (macro_services svcs ! i)"
proof -
  obtain primary uuid chrs where s: "svcs ! i = (primary, uuid, chrs)" by (cases "svcs ! i") auto
  have img: "m a = v" if "(a, v) \<in> set (expand_svc k L st i (svcs ! i))" for a v
    using assms(2,3) that by (fastforce simp: statics_in_def gatt_services_def)
  have nonnull: "st_svc_uuid st i \<noteq> NULL" "\<And>j. st_chr_uuid st i j \<noteq> NULL"
    using assms(2) by (simp_all add: statics_in_def)
  have chr: "chr_entry k L m (st_chrs st i + j * ly_size (gl_chr_def L))
      (map (\<lambda>(u, flags). BleGattCharacteristic_new u (set flags)) chrs ! j)" if j: "j < length chrs" for j
  proof -
    obtain u flags where c: "chrs ! j = (u, flags)" by (cases "chrs ! j")
    have "set (expand_chr k L st i j (chrs ! j)) \<subseteq> set (expand_svc k L st i (svcs ! i))"
      using j by (auto simp: expand_svc_def s)
    then have cells: "m (st_chr_uuid st i j) = Some (CellUuid u)"
      "m (st_chrs st i + j * ly_size (gl_chr_def L)) =
         Some (CellChr (chr_def_of k (st_chr_uuid st i j + gl_header L u) (set flags)))"
      using img by (auto simp: expand_chr_def c make_chr_is_def subset_iff)
    then have "uuid_at L m (st_chr_uuid st i j + gl_header L u) u"
      using nonnull(2) by (auto simp: uuid_at_def)
    with cells show ?thesis using j by (auto simp: chr_entry_def c BleGattCharacteristic_new_def)
  qed
  have cells: "m (st_chrs st i + length chrs * ly_size (gl_chr_def L)) = None"
    "m (st_svc_uuid st i) = Some (CellUuid uuid)"
    "m (st_name st + i * ly_size (gl_svc_def L)) =
       Some (CellSvc (make_svc k primary (st_svc_uuid st i + gl_header L uuid) (st_chrs st i)))"
    by (rule img, simp add: expand_svc_def s)+
  have "chr_table k L m (st_chrs st i) (map (\<lambda>(u, flags). BleGattCharacteristic_new u (set flags)) chrs)"
    using chr cells(1) by (simp add: chr_table_nth)
  moreover have "uuid_at L m (st_svc_uuid st i + gl_header L uuid) uuid"
    using cells(2) nonnull(1) by (auto simp: uuid_at_def)
  ultimately show ?thesis
    using cells(3) assms(3) svc_type_nonzero [OF assms(1)]
    by (auto simp: svc_entry_def macro_services_def s BleGattService_new_def make_svc_def ZERO_SVC_def)
qed

section \<open>The runtime table is right\<close>

abbreviation at_char :: "gatt_layout \<Rightarrow> BleGattServices \<Rightarrow> nat \<Rightarrow> ptr" where
  "at_char L t \<equiv> elem_ptr (gl_char L) (gt_chars t)"

abbreviation at_uuid :: "gatt_layout \<Rightarrow> BleGattServices \<Rightarrow> nat \<Rightarrow> ptr" where
  "at_uuid L t \<equiv> elem_ptr (gl_uuid L) (gt_svc_uuids t)"

abbreviation at_def :: "gatt_layout \<Rightarrow> BleGattServices \<Rightarrow> nat \<Rightarrow> ptr" where
  "at_def L t \<equiv> elem_ptr (gl_chr_def L) (gt_chr_defs t)"

abbreviation at_svc :: "gatt_layout \<Rightarrow> BleGattServices \<Rightarrow> nat \<Rightarrow> ptr" where
  "at_svc L t \<equiv> elem_ptr (gl_svc_def L) (gt_svc_defs t)"

definition sep :: "layout \<Rightarrow> CSlice \<Rightarrow> layout \<Rightarrow> CSlice \<Rightarrow> bool" where
  "sep la a lb b \<longleftrightarrow> (\<forall>i < cs_len a. \<forall>j < cs_len b. elem_ptr la a i \<noteq> elem_ptr lb b j)"

text \<open>The elements of the four slices are at different addresses, none of them 0.\<close>

definition tbl_ok :: "gatt_layout \<Rightarrow> BleGattServices \<Rightarrow> bool" where
  "tbl_ok L t \<longleftrightarrow>
     0 < ly_size (gl_char L) \<and> 0 < ly_size (gl_uuid L) \<and> 0 < ly_size (gl_chr_def L) \<and> 0 < ly_size (gl_svc_def L) \<and>
     sep (gl_char L) (gt_chars t) (gl_uuid L) (gt_svc_uuids t) \<and>
     sep (gl_char L) (gt_chars t) (gl_chr_def L) (gt_chr_defs t) \<and>
     sep (gl_char L) (gt_chars t) (gl_svc_def L) (gt_svc_defs t) \<and>
     sep (gl_uuid L) (gt_svc_uuids t) (gl_chr_def L) (gt_chr_defs t) \<and>
     sep (gl_uuid L) (gt_svc_uuids t) (gl_svc_def L) (gt_svc_defs t) \<and>
     sep (gl_chr_def L) (gt_chr_defs t) (gl_svc_def L) (gt_svc_defs t) \<and>
     (0 < cs_len (gt_chars t) \<longrightarrow> cs_ptr (gt_chars t) \<noteq> NULL) \<and>
     (0 < cs_len (gt_svc_uuids t) \<longrightarrow> cs_ptr (gt_svc_uuids t) \<noteq> NULL)"

lemma elem_eq_iff: "0 < ly_size ly \<Longrightarrow> elem_ptr ly sl i = elem_ptr ly sl j \<longleftrightarrow> i = j"
  by (simp add: elem_ptr_def)

lemma tbl_okD:
  assumes "tbl_ok L t"
  shows "at_char L t i = at_char L t j \<longleftrightarrow> i = j" "at_uuid L t i = at_uuid L t j \<longleftrightarrow> i = j"
    "at_def L t i = at_def L t j \<longleftrightarrow> i = j" "at_svc L t i = at_svc L t j \<longleftrightarrow> i = j"
    "i < cs_len (gt_chars t) \<Longrightarrow> j < cs_len (gt_svc_uuids t) \<Longrightarrow> at_char L t i \<noteq> at_uuid L t j"
    "i < cs_len (gt_chars t) \<Longrightarrow> j < cs_len (gt_chr_defs t) \<Longrightarrow> at_char L t i \<noteq> at_def L t j"
    "i < cs_len (gt_chars t) \<Longrightarrow> j < cs_len (gt_svc_defs t) \<Longrightarrow> at_char L t i \<noteq> at_svc L t j"
    "i < cs_len (gt_svc_uuids t) \<Longrightarrow> j < cs_len (gt_chr_defs t) \<Longrightarrow> at_uuid L t i \<noteq> at_def L t j"
    "i < cs_len (gt_svc_uuids t) \<Longrightarrow> j < cs_len (gt_svc_defs t) \<Longrightarrow> at_uuid L t i \<noteq> at_svc L t j"
    "i < cs_len (gt_chr_defs t) \<Longrightarrow> j < cs_len (gt_svc_defs t) \<Longrightarrow> at_def L t i \<noteq> at_svc L t j"
  using assms unfolding tbl_ok_def sep_def by (simp_all add: elem_eq_iff)

lemma tbl_ok_nonnull:
  assumes "tbl_ok L t"
  shows "i < cs_len (gt_chars t) \<Longrightarrow> at_char L t i \<noteq> NULL" "i < cs_len (gt_svc_uuids t) \<Longrightarrow> at_uuid L t i \<noteq> NULL"
  using assms unfolding tbl_ok_def elem_ptr_def by auto

text \<open>One element written: no address of another slice or index changes.\<close>

lemma deref_mut_Some:
  "i < cs_len sl \<Longrightarrow> deref_mut ly sl i v h = Some (h\<lparr>ch_mem := (ch_mem h)(elem_ptr ly sl i := Some v)\<rparr>)"
  by (simp add: deref_mut_def)

definition chr_cells :: "sys_consts \<Rightarrow> gatt_layout \<Rightarrow> BleGattServices \<Rightarrow> nat \<Rightarrow> nat \<Rightarrow> BleGattCharacteristic list \<Rightarrow>
    (ptr \<Rightarrow> 'f::len word gatt_cell option) \<Rightarrow> bool" where
  "chr_cells k L t ca da chrs m \<longleftrightarrow> (\<forall>j < length chrs.
     m (at_char L t (ca + j)) = Some (CellChar (chrs ! j)) \<and>
     m (at_def L t (da + j)) = Some (CellChr (chr_def_of k
       (at_char L t (ca + j) + gl_char_uuid L + gl_header L (gc_uuid (chrs ! j))) (gc_flags (chrs ! j)))))"

lemma build_chrs_correct:
  assumes "tbl_ok L t" "ca + length chrs \<le> cs_len (gt_chars t)" "da + length chrs \<le> cs_len (gt_chr_defs t)"
  shows "\<exists>h'. build_chrs k L t ca da chrs h = Some (ca + length chrs, da + length chrs, h') \<and>
    ch_blocks h' = ch_blocks h \<and> chr_cells k L t ca da chrs (ch_mem h') \<and>
    (\<forall>a. a \<notin> at_char L t ` {ca..<ca + length chrs} \<longrightarrow> a \<notin> at_def L t ` {da..<da + length chrs} \<longrightarrow>
       ch_mem h' a = ch_mem h a)"
  using assms(2,3)
proof (induction chrs arbitrary: ca da h)
  case Nil
  then show ?case by (simp add: chr_cells_def)
next
  case (Cons c chrs)
  let ?u = "at_char L t ca + gl_char_uuid L + gl_header L (gc_uuid c)"
  let ?d = "CellChr (chr_def_of k ?u (gc_flags c))"
  define h2 where "h2 = h\<lparr>ch_mem := (ch_mem h)(at_char L t ca := Some (CellChar c), at_def L t da := Some ?d)\<rparr>"
  have lens: "Suc ca + length chrs \<le> cs_len (gt_chars t)" "Suc da + length chrs \<le> cs_len (gt_chr_defs t)"
    "ca < cs_len (gt_chars t)" "da < cs_len (gt_chr_defs t)" using Cons.prems by simp_all
  obtain h' where h': "build_chrs k L t (Suc ca) (Suc da) chrs h2 =
      Some (Suc ca + length chrs, Suc da + length chrs, h')"
    "ch_blocks h' = ch_blocks h2" "chr_cells k L t (Suc ca) (Suc da) chrs (ch_mem h')"
    "\<And>a. a \<notin> at_char L t ` {Suc ca..<Suc ca + length chrs} \<Longrightarrow> a \<notin> at_def L t ` {Suc da..<Suc da + length chrs} \<Longrightarrow>
       ch_mem h' a = ch_mem h2 a"
    using Cons.IH [OF lens(1,2), of h2] by blast
  have step: "build_chrs k L t ca da (c # chrs) h = build_chrs k L t (Suc ca) (Suc da) chrs h2"
    using lens by (simp add: deref_mut_Some h2_def)
  have first: "ch_mem h' (at_char L t ca) = Some (CellChar c)" "ch_mem h' (at_def L t da) = Some ?d"
    using lens tbl_okD [OF assms(1)] by (auto simp: h2_def intro!: trans [OF h'(4)] dest: sym)
  have "chr_cells k L t ca da (c # chrs) (ch_mem h')"
    using h'(3) first unfolding chr_cells_def by (auto simp: less_Suc_eq_0_disj)
  moreover have "ch_mem h' a = ch_mem h a"
    if "a \<notin> at_char L t ` {ca..<ca + length (c # chrs)}" "a \<notin> at_def L t ` {da..<da + length (c # chrs)}" for a
  proof -
    have "a \<noteq> at_char L t ca" "a \<noteq> at_def L t da" using that by auto
    moreover have "ch_mem h' a = ch_mem h2 a" by (rule h'(4)) (use that in auto)
    ultimately show ?thesis by (simp add: h2_def)
  qed
  moreover have "ch_blocks h' = ch_blocks h" using h'(2) by (simp add: h2_def)
  ultimately show ?case using h'(1) step by auto
qed

text \<open>A service is in place once its cells are, whatever the rest of memory holds.\<close>

lemma svc_entryI:
  assumes "tbl_ok L t" "svc_types_ok k" "sa < cs_len (gt_svc_uuids t)"
    and "ca + length (sv_characteristics s) \<le> cs_len (gt_chars t)"
    and "m (at_uuid L t sa) = Some (CellUuid (sv_uuid s))"
    and "m (at_svc L t sa) = Some (CellSvc \<lparr>sd_type = svc_type k (sv_primary s),
      sd_uuid = at_uuid L t sa + gl_header L (sv_uuid s), sd_includes = NULL, sd_characteristics = at_def L t da\<rparr>)"
    and "chr_cells k L t ca da (sv_characteristics s) m" "m (at_def L t (da + length (sv_characteristics s))) = None"
  shows "svc_entry k L m (at_svc L t sa) s"
proof -
  have "chr_entry k L m (at_def L t da + j * ly_size (gl_chr_def L)) (sv_characteristics s ! j)"
    if "j < length (sv_characteristics s)" for j
  proof -
    let ?c = "sv_characteristics s ! j"
    let ?u = "at_char L t (ca + j) + gl_char_uuid L + gl_header L (gc_uuid ?c)"
    have "m (at_char L t (ca + j)) = Some (CellChar ?c)"
      "m (at_def L t (da + j)) = Some (CellChr (chr_def_of k ?u (gc_flags ?c)))"
      using assms(7) that by (simp_all add: chr_cells_def)
    moreover have "?u \<noteq> NULL" using tbl_ok_nonnull(1) [OF assms(1), of "ca + j"] that assms(4) by simp
    ultimately have "uuid_at L m ?u (gc_uuid ?c)" unfolding uuid_at_def by blast
    with \<open>m (at_def L t (da + j)) = _\<close> show ?thesis
      unfolding chr_entry_def by (auto simp: elem_ptr_def add_mult_distrib add.assoc)
  qed
  then have "chr_table k L m (at_def L t da) (sv_characteristics s)"
    using assms(8) by (auto simp: chr_table_nth elem_ptr_def add_mult_distrib add.assoc)
  moreover have "uuid_at L m (at_uuid L t sa + gl_header L (sv_uuid s)) (sv_uuid s)"
    using assms(5) tbl_ok_nonnull(2) [OF assms(1,3)] by (auto simp: uuid_at_def)
  ultimately show ?thesis using assms(6) svc_type_nonzero [OF assms(2)] by (simp add: svc_entry_def)
qed

text \<open>The addresses the loop may still write when it has reached the three positions.\<close>

definition todo :: "gatt_layout \<Rightarrow> BleGattServices \<Rightarrow> nat \<Rightarrow> nat \<Rightarrow> nat \<Rightarrow> ptr set" where
  "todo L t sa ca da = at_uuid L t ` {sa..<cs_len (gt_svc_uuids t)} \<union> at_svc L t ` {sa..<cs_len (gt_svc_uuids t)} \<union>
     at_char L t ` {ca..<cs_len (gt_chars t)} \<union> at_def L t ` {da..<cs_len (gt_chr_defs t)}"

lemma todo_mono: "sa \<le> sa' \<Longrightarrow> ca \<le> ca' \<Longrightarrow> da \<le> da' \<Longrightarrow> todo L t sa' ca' da' \<subseteq> todo L t sa ca da"
  unfolding todo_def by (intro Un_mono image_mono) auto

lemma todo_done:
  assumes "tbl_ok L t" "cs_len (gt_svc_uuids t) < cs_len (gt_svc_defs t)"
  shows "i < sa \<Longrightarrow> i < cs_len (gt_svc_uuids t) \<Longrightarrow> at_uuid L t i \<notin> todo L t sa ca da"
    "i < sa \<or> i = cs_len (gt_svc_uuids t) \<Longrightarrow> i \<le> cs_len (gt_svc_uuids t) \<Longrightarrow> at_svc L t i \<notin> todo L t sa ca da"
    "i < ca \<Longrightarrow> i < cs_len (gt_chars t) \<Longrightarrow> at_char L t i \<notin> todo L t sa ca da"
    "i < da \<Longrightarrow> i < cs_len (gt_chr_defs t) \<Longrightarrow> at_def L t i \<notin> todo L t sa ca da"
  using assms(2) unfolding todo_def by (auto simp: tbl_okD [OF assms(1)] dest: tbl_okD(5-10) [OF assms(1)] sym)

lemma not_in_image_ivl: "(\<And>i. a \<le> i \<Longrightarrow> i < b \<Longrightarrow> f i \<noteq> x) \<Longrightarrow> x \<notin> f ` {a..<b}" for f :: "nat \<Rightarrow> 'b"
  by (metis atLeastLessThan_iff imageE)

text \<open>One round of the outer loop: its writes, and that it leaves all other cells alone.\<close>

lemma build_svc_round:
  assumes ok: "tbl_ok L t" "cs_len (gt_svc_uuids t) < cs_len (gt_svc_defs t)"
    and lens: "sa < cs_len (gt_svc_uuids t)" "ca + length (sv_characteristics s) \<le> cs_len (gt_chars t)"
      "da + length (sv_characteristics s) < cs_len (gt_chr_defs t)"
  obtains h3 where
    "\<And>ss. build_svcs k L t sa ca da (s # ss) h =
       build_svcs k L t (Suc sa) (ca + length (sv_characteristics s)) (Suc (da + length (sv_characteristics s))) ss h3"
    "ch_blocks h3 = ch_blocks h" "ch_mem h3 (at_uuid L t sa) = Some (CellUuid (sv_uuid s))"
    "ch_mem h3 (at_svc L t sa) = Some (CellSvc \<lparr>sd_type = svc_type k (sv_primary s),
       sd_uuid = at_uuid L t sa + gl_header L (sv_uuid s), sd_includes = NULL, sd_characteristics = at_def L t da\<rparr>)"
    "chr_cells k L t ca da (sv_characteristics s) (ch_mem h3)"
    "\<And>a. a \<notin> {at_uuid L t sa, at_svc L t sa} \<Longrightarrow>
       a \<notin> at_char L t ` {ca..<ca + length (sv_characteristics s)} \<Longrightarrow>
       a \<notin> at_def L t ` {da..<da + length (sv_characteristics s)} \<Longrightarrow> ch_mem h3 a = ch_mem h a"
proof -
  let ?n = "length (sv_characteristics s)"
  let ?d = "CellSvc \<lparr>sd_type = svc_type k (sv_primary s), sd_uuid = at_uuid L t sa + gl_header L (sv_uuid s),
    sd_includes = NULL, sd_characteristics = at_def L t da\<rparr>"
  define h2 where "h2 = h\<lparr>ch_mem := (ch_mem h)(at_uuid L t sa := Some (CellUuid (sv_uuid s)), at_svc L t sa := Some ?d)\<rparr>"
  obtain h3 where h3: "build_chrs k L t ca da (sv_characteristics s) h2 = Some (ca + ?n, da + ?n, h3)"
    "ch_blocks h3 = ch_blocks h2" "chr_cells k L t ca da (sv_characteristics s) (ch_mem h3)"
    "\<And>a. a \<notin> at_char L t ` {ca..<ca + ?n} \<Longrightarrow> a \<notin> at_def L t ` {da..<da + ?n} \<Longrightarrow> ch_mem h3 a = ch_mem h2 a"
    using build_chrs_correct [OF ok(1) lens(2), of da k h2] lens(3) by auto
  show ?thesis
  proof (rule that)
    show "build_svcs k L t sa ca da (s # ss) h = build_svcs k L t (Suc sa) (ca + ?n) (Suc (da + ?n)) ss h3" for ss
      using lens(1) ok(2) h3(1) by (simp add: deref_mut_Some h2_def)
    have ne: "at_char L t i \<noteq> at_uuid L t sa" "at_char L t i \<noteq> at_svc L t sa" if "i < ca + ?n" for i
      using tbl_okD(5,7) [OF ok(1), of i sa] that lens ok(2) by simp_all
    have ne': "at_def L t i \<noteq> at_uuid L t sa" "at_def L t i \<noteq> at_svc L t sa" if "i < da + ?n" for i
      using tbl_okD(8) [OF ok(1), of sa i] tbl_okD(10) [OF ok(1), of i sa] that lens ok(2) by (simp_all add: eq_commute)
    have out: "at_uuid L t sa \<notin> at_char L t ` {ca..<ca + ?n}" "at_uuid L t sa \<notin> at_def L t ` {da..<da + ?n}"
      "at_svc L t sa \<notin> at_char L t ` {ca..<ca + ?n}" "at_svc L t sa \<notin> at_def L t ` {da..<da + ?n}"
      by (rule not_in_image_ivl, erule ne ne')+
    have "at_uuid L t sa \<noteq> at_svc L t sa" using tbl_okD(9) [OF ok(1)] lens(1) ok(2) by simp
    then show "ch_mem h3 (at_uuid L t sa) = Some (CellUuid (sv_uuid s))" "ch_mem h3 (at_svc L t sa) = Some ?d"
      using h3(4) [OF out(1,2)] h3(4) [OF out(3,4)] by (simp_all add: h2_def)
    show "ch_mem h3 a = ch_mem h a" if "a \<notin> {at_uuid L t sa, at_svc L t sa}"
      "a \<notin> at_char L t ` {ca..<ca + ?n}" "a \<notin> at_def L t ` {da..<da + ?n}" for a
      using h3(4) [OF that(2,3)] that(1) by (simp add: h2_def)
  qed (use h3 in \<open>simp_all add: h2_def\<close>)
qed

lemma chr_cells_frame:
  assumes "chr_cells k L t ca da chrs m"
    and "\<And>i. i < ca + length chrs \<Longrightarrow> m' (at_char L t i) = m (at_char L t i)"
    and "\<And>i. i < da + length chrs \<Longrightarrow> m' (at_def L t i) = m (at_def L t i)"
  shows "chr_cells k L t ca da chrs m'"
  using assms unfolding chr_cells_def by simp

lemma build_svcs_correct:
  assumes ok: "tbl_ok L t" "cs_len (gt_svc_uuids t) < cs_len (gt_svc_defs t)" "svc_types_ok k"
    and "sa + length services \<le> cs_len (gt_svc_uuids t)" "ca + total_chars services \<le> cs_len (gt_chars t)"
    and "da + total_chars services + length services \<le> cs_len (gt_chr_defs t)"
    and "\<And>i. da \<le> i \<Longrightarrow> i < cs_len (gt_chr_defs t) \<Longrightarrow> ch_mem h (at_def L t i) = None"
  shows "\<exists>h'. build_svcs k L t sa ca da services h = Some h' \<and> ch_blocks h' = ch_blocks h \<and>
    (\<forall>i < length services. svc_entry k L (ch_mem h') (at_svc L t (sa + i)) (services ! i)) \<and>
    (\<forall>a. a \<notin> todo L t sa ca da \<longrightarrow> ch_mem h' a = ch_mem h a)"
  using assms(4-)
proof (induction services arbitrary: sa ca da h)
  case Nil
  then show ?case by simp
next
  case (Cons s ss)
  let ?n = "length (sv_characteristics s)"
  have tot: "total_chars (s # ss) = ?n + total_chars ss" by (simp add: total_chars_def)
  have lens: "sa < cs_len (gt_svc_uuids t)" "ca + ?n \<le> cs_len (gt_chars t)" "da + ?n < cs_len (gt_chr_defs t)"
    using Cons.prems(1-3) tot by simp_all
  obtain h3 where h3: "\<And>ss. build_svcs k L t sa ca da (s # ss) h = build_svcs k L t (Suc sa) (ca + ?n) (Suc (da + ?n)) ss h3"
    "ch_blocks h3 = ch_blocks h" "ch_mem h3 (at_uuid L t sa) = Some (CellUuid (sv_uuid s))"
    "ch_mem h3 (at_svc L t sa) = Some (CellSvc \<lparr>sd_type = svc_type k (sv_primary s),
       sd_uuid = at_uuid L t sa + gl_header L (sv_uuid s), sd_includes = NULL, sd_characteristics = at_def L t da\<rparr>)"
    "chr_cells k L t ca da (sv_characteristics s) (ch_mem h3)"
    "\<And>a. a \<notin> {at_uuid L t sa, at_svc L t sa} \<Longrightarrow> a \<notin> at_char L t ` {ca..<ca + ?n} \<Longrightarrow>
       a \<notin> at_def L t ` {da..<da + ?n} \<Longrightarrow> ch_mem h3 a = ch_mem h a"
    using build_svc_round [OF ok(1,2) lens, of k h] by metis
  have zero: "ch_mem h3 (at_def L t i) = None" if "da + ?n \<le> i" "i < cs_len (gt_chr_defs t)" for i
  proof -
    have "at_def L t i \<notin> {at_uuid L t sa, at_svc L t sa}"
      using tbl_okD(8) [OF ok(1), of sa i] tbl_okD(10) [OF ok(1), of i sa] lens(1) that(2) ok(2) by auto
    moreover have "at_def L t i \<notin> at_char L t ` {ca..<ca + ?n}"
      by (rule not_in_image_ivl, rule tbl_okD(6) [OF ok(1)]) (use lens(2) that(2) in auto)
    moreover have "at_def L t i \<notin> at_def L t ` {da..<da + ?n}"
      by (rule not_in_image_ivl) (use that(1) in \<open>simp add: tbl_okD(3) [OF ok(1)]\<close>)
    ultimately have "ch_mem h3 (at_def L t i) = ch_mem h (at_def L t i)" by (rule h3(6))
    with Cons.prems(4) [of i] that show ?thesis by simp
  qed
  obtain h' where h': "build_svcs k L t (Suc sa) (ca + ?n) (Suc (da + ?n)) ss h3 = Some h'" "ch_blocks h' = ch_blocks h3"
    "\<forall>i < length ss. svc_entry k L (ch_mem h') (at_svc L t (Suc sa + i)) (ss ! i)"
    "\<And>a. a \<notin> todo L t (Suc sa) (ca + ?n) (Suc (da + ?n)) \<Longrightarrow> ch_mem h' a = ch_mem h3 a"
    using Cons.IH [of "Suc sa" "ca + ?n" "Suc (da + ?n)" h3] Cons.prems(1-3) tot zero by auto
  have "svc_entry k L (ch_mem h') (at_svc L t sa) s"
  proof (rule svc_entryI [OF ok(1,3) lens(1,2)])
    note kept = h'(4) [OF todo_done(1) [OF ok(1,2)]] h'(4) [OF todo_done(2) [OF ok(1,2)]]
      h'(4) [OF todo_done(3) [OF ok(1,2)]] h'(4) [OF todo_done(4) [OF ok(1,2)]]
    show "ch_mem h' (at_uuid L t sa) = Some (CellUuid (sv_uuid s))" using kept(1) lens(1) h3(3) by simp
    show "ch_mem h' (at_svc L t sa) = Some (CellSvc \<lparr>sd_type = svc_type k (sv_primary s),
       sd_uuid = at_uuid L t sa + gl_header L (sv_uuid s), sd_includes = NULL, sd_characteristics = at_def L t da\<rparr>)"
      using kept(2) lens(1) h3(4) by simp
    show "chr_cells k L t ca da (sv_characteristics s) (ch_mem h')"
      by (rule chr_cells_frame [OF h3(5)]) (use kept(3,4) lens in auto)
    show "ch_mem h' (at_def L t (da + ?n)) = None" using kept(4) lens(3) zero by simp
  qed
  then have "\<forall>i < length (s # ss). svc_entry k L (ch_mem h') (at_svc L t (sa + i)) ((s # ss) ! i)"
    using h'(3) by (auto simp: less_Suc_eq_0_disj)
  moreover have "ch_mem h' a = ch_mem h a" if a: "a \<notin> todo L t sa ca da" for a
  proof -
    have "a \<notin> todo L t (Suc sa) (ca + ?n) (Suc (da + ?n))"
      using a todo_mono [of sa "Suc sa" ca "ca + ?n" da "Suc (da + ?n)" L t] by auto
    moreover have "a \<notin> {at_uuid L t sa, at_svc L t sa}" using a lens(1) by (auto simp: todo_def)
    moreover have "a \<notin> at_char L t ` {ca..<ca + ?n}" "a \<notin> at_def L t ` {da..<da + ?n}"
      using a lens(2,3) by (auto simp: todo_def)
    ultimately show ?thesis using h'(4) h3(6) by metis
  qed
  ultimately show ?case using h'(1,2) h3(1,2) by auto
qed

section \<open>Allocation and release of the table\<close>

abbreviation blocks_of :: "(layout \<times> CSlice) list \<Rightarrow> (ptr \<times> nat) list" where
  "blocks_of ps \<equiv> concat (map (\<lambda>(ly, sl). slice_blocks ly sl) ps)"

lemma drop_all_prefix:
  "heap_ok h \<Longrightarrow> ch_blocks h = blocks_of ps @ old \<Longrightarrow>
   \<exists>h'. drop_all (map snd ps) h = Some h' \<and> ch_blocks h' = old \<and> heap_ok h'"
proof (induction ps arbitrary: h)
  case (Cons p ps)
  have "ch_blocks h = [] @ slice_blocks (fst p) (snd p) @ (blocks_of ps @ old)"
    using Cons.prems(2) by (cases p) simp
  then obtain h1 where "CSlice_drop (snd p) h = Some h1" "ch_blocks h1 = blocks_of ps @ old" "heap_ok h1"
    using drop_frees [OF Cons.prems(1)] by (metis append_Nil)
  with Cons.IH show ?case by auto
qed simp

lemma drop_all_rev:
  "heap_ok h \<Longrightarrow> ch_blocks h = blocks_of (rev ps) @ old \<Longrightarrow>
   \<exists>h'. drop_all (map snd ps) h = Some h' \<and> ch_blocks h' = old \<and> heap_ok h'"
proof (induction ps arbitrary: h)
  case (Cons p ps)
  have "ch_blocks h = blocks_of (rev ps) @ slice_blocks (fst p) (snd p) @ old"
    using Cons.prems(2) by (cases p) simp
  then obtain h1 where "CSlice_drop (snd p) h = Some h1" "ch_blocks h1 = blocks_of (rev ps) @ old" "heap_ok h1"
    using drop_frees [OF Cons.prems(1)] by blast
  with Cons.IH show ?case by auto
qed simp

lemma sepI:
  assumes "\<forall>b \<in> set (slice_blocks la a). \<forall>c \<in> set (slice_blocks lb b'). block_cells b \<inter> block_cells c = {}"
    and "0 < ly_size la" "0 < ly_size lb"
  shows "sep la a lb b'"
proof -
  have "elem_ptr la a i \<noteq> elem_ptr lb b' j" if "i < cs_len a" "j < cs_len b'" for i j
    using assms(1) elem_in_block [OF that(1) assms(2)] elem_in_block [OF that(2) assms(3)] by fastforce
  then show ?thesis by (simp add: sep_def)
qed

definition layout_ok :: "gatt_layout \<Rightarrow> bool" where
  "layout_ok L \<longleftrightarrow> 0 < ly_size (gl_char L) \<and> 0 < ly_size (gl_uuid L) \<and> 0 < ly_size (gl_chr_def L) \<and> 0 < ly_size (gl_svc_def L)"

text \<open>Once all four slices are allocated, the loop fills them and the table is right.\<close>

lemma built_table:
  assumes "place_ok place" "heap_ok h" "layout_ok L" "svc_types_ok k"
    and a1: "new_zeroed k place (gl_char L) (total_chars services) h = (Inr chars, h1)"
    and a2: "new_zeroed k place (gl_uuid L) (length services) h1 = (Inr svc_uuids, h2)"
    and a3: "new_zeroed k place (gl_chr_def L) (total_chars services + length services) h2 = (Inr chr_defs, h3)"
    and a4: "new_zeroed k place (gl_svc_def L) (length services + 1) h3 = (Inr svc_defs, h4)"
    and t: "t = \<lparr>gt_chars = chars, gt_svc_uuids = svc_uuids, gt_chr_defs = chr_defs, gt_svc_defs = svc_defs\<rparr>"
  shows "\<exists>h'. build_svcs k L t 0 0 0 services h4 = Some h' \<and> heap_ok h' \<and>
    ch_blocks h' = blocks_of (rev [(gl_char L, chars), (gl_uuid L, svc_uuids), (gl_chr_def L, chr_defs), (gl_svc_def L, svc_defs)]) @ ch_blocks h \<and>
    svc_table k L (ch_mem h') (BleGattServices_as_ref t) services"
proof -
  note z = new_zeroed_blocks [OF a1] new_zeroed_blocks [OF a2] new_zeroed_blocks [OF a3] new_zeroed_blocks [OF a4]
  have o1: "heap_ok h1" using new_zeroed_ok [OF assms(1,2) a1] by simp
  have o2: "heap_ok h2" and s2: "\<forall>b \<in> set (ch_blocks h1). \<forall>c \<in> set (slice_blocks (gl_uuid L) svc_uuids). block_cells b \<inter> block_cells c = {}"
    using new_zeroed_ok [OF assms(1) o1 a2] by simp_all
  have o3: "heap_ok h3" and s3: "\<forall>b \<in> set (ch_blocks h2). \<forall>c \<in> set (slice_blocks (gl_chr_def L) chr_defs). block_cells b \<inter> block_cells c = {}"
    using new_zeroed_ok [OF assms(1) o2 a3] by simp_all
  have o4: "heap_ok h4" and s4: "\<forall>b \<in> set (ch_blocks h3). \<forall>c \<in> set (slice_blocks (gl_svc_def L) svc_defs). block_cells b \<inter> block_cells c = {}"
    using new_zeroed_ok [OF assms(1) o3 a4] by simp_all
  have blocks: "ch_blocks h1 = slice_blocks (gl_char L) chars @ ch_blocks h"
    "ch_blocks h2 = slice_blocks (gl_uuid L) svc_uuids @ ch_blocks h1"
    "ch_blocks h3 = slice_blocks (gl_chr_def L) chr_defs @ ch_blocks h2"
    "ch_blocks h4 = slice_blocks (gl_svc_def L) svc_defs @ ch_blocks h3" using z by blast+
  have lens: "cs_len chars = total_chars services" "cs_len svc_uuids = length services"
    "cs_len chr_defs = total_chars services + length services" "cs_len svc_defs = length services + 1" using z by blast+
  have sizes: "0 < ly_size (gl_char L)" "0 < ly_size (gl_uuid L)" "0 < ly_size (gl_chr_def L)" "0 < ly_size (gl_svc_def L)"
    using assms(3) by (simp_all add: layout_ok_def)
  note d = s2 [unfolded blocks set_append ball_Un] s3 [unfolded blocks set_append ball_Un]
    s4 [unfolded blocks set_append ball_Un]
  have "sep (gl_char L) chars (gl_uuid L) svc_uuids \<and> sep (gl_char L) chars (gl_chr_def L) chr_defs \<and>
    sep (gl_char L) chars (gl_svc_def L) svc_defs \<and> sep (gl_uuid L) svc_uuids (gl_chr_def L) chr_defs \<and>
    sep (gl_uuid L) svc_uuids (gl_svc_def L) svc_defs \<and> sep (gl_chr_def L) chr_defs (gl_svc_def L) svc_defs"
    by (intro conjI; rule sepI [OF _ sizes(1,2)] sepI [OF _ sizes(1,3)] sepI [OF _ sizes(1,4)]
        sepI [OF _ sizes(2,3)] sepI [OF _ sizes(2,4)] sepI [OF _ sizes(3,4)]) (insert d, elim conjE, assumption)+
  then have ok: "tbl_ok L t"
    unfolding tbl_ok_def using sizes z lens by (simp add: t)
  have in_block: "\<exists>b \<in> set (slice_blocks ly sl). elem_ptr ly sl i \<in> block_cells b" if "i < cs_len sl" "0 < ly_size ly" for ly sl i
    using elem_in_block [OF that] by simp
  have zero: "ch_mem h4 (at_def L t i) = None" if "i < cs_len chr_defs" for i
    using z(3,4) in_block [OF that, of "gl_chr_def L"] assms(3) by (simp add: t layout_ok_def)
  have zero': "ch_mem h4 (at_svc L t (length services)) = None"
    using z(4) in_block [of "length services" svc_defs "gl_svc_def L"] assms(3) lens by (simp add: t layout_ok_def)
  obtain h' where h': "build_svcs k L t 0 0 0 services h4 = Some h'" "ch_blocks h' = ch_blocks h4"
    "\<forall>i < length services. svc_entry k L (ch_mem h') (at_svc L t i) (services ! i)"
    "\<forall>a. a \<notin> todo L t 0 0 0 \<longrightarrow> ch_mem h' a = ch_mem h4 a"
    using build_svcs_correct [OF ok _ assms(4), of 0 services 0 0 h4] zero lens by (auto simp: t)
  have "at_svc L t (length services) \<notin> todo L t 0 0 0"
    using todo_done(2) [OF ok, of "length services" 0] lens by (simp add: t)
  with h'(4) zero' have "ch_mem h' (at_svc L t (length services)) = None" by simp
  with h'(3) have "svc_table k L (ch_mem h') (BleGattServices_as_ref t) services"
    by (simp add: svc_table_nth BleGattServices_as_ref_def elem_ptr_def)
  moreover have "heap_ok h'" using o4 h'(2) by (simp add: heap_ok_def)
  ultimately show ?thesis using h'(1,2) by (simp add: blocks)
qed

text \<open>
  The outcome of the construction when the blocks \<open>old\<close> were live before it: an error that leaves
  them, or a table with property \<open>P\<close>.
\<close>

definition outcome :: "sys_consts \<Rightarrow> (ptr \<times> nat) list \<Rightarrow> ('t \<Rightarrow> 'c cheap \<Rightarrow> bool) \<Rightarrow> ('t ble_result \<times> 'c cheap) option \<Rightarrow> bool" where
  "outcome k old P x \<longleftrightarrow> (\<exists>r h'. x = Some (r, h') \<and> heap_ok h' \<and>
     (case r of Inl e \<Rightarrow> e = BleError (as_c_int (k BLE_HS_ENOMEM)) \<and> ch_blocks h' = old | Inr t \<Rightarrow> P t h'))"

lemma alloc_step:
  assumes "place_ok place" "heap_ok h" "ch_blocks h = blocks_of ps @ old" "sls = map snd ps"
    and "\<And>sl h1. new_zeroed k place ly n h = (Inr sl, h1) \<Longrightarrow> heap_ok h1 \<Longrightarrow>
      ch_blocks h1 = blocks_of ((ly, sl) # ps) @ old \<Longrightarrow> outcome k old P (f sl h1)"
  shows "outcome k old P (case new_zeroed k place ly n h of
      (Inl e, h1) \<Rightarrow> do { h' \<leftarrow> drop_all sls h1; Some (Inl e, h') }
    | (Inr sl, h1) \<Rightarrow> f sl h1)"
proof (cases "new_zeroed k place ly n h")
  case (Pair r h1)
  show ?thesis
  proof (cases r)
    case (Inl e)
    then show ?thesis using Pair new_zeroed_error [OF Pair [unfolded Inl]] drop_all_prefix [OF assms(2,3)]
      by (auto simp: outcome_def assms(4))
  next
    case (Inr sl)
    note a = Pair [unfolded Inr]
    have "outcome k old P (f sl h1)"
      using assms(3) new_zeroed_blocks [OF a] by (intro assms(5) [OF a]) (simp_all add: new_zeroed_ok [OF assms(1,2) a])
    with a show ?thesis by simp
  qed
qed

lemma alloc_first:
  assumes "place_ok place" "heap_ok h" "ch_blocks h = old"
    and "\<And>sl h1. new_zeroed k place ly n h = (Inr sl, h1) \<Longrightarrow> heap_ok h1 \<Longrightarrow>
      ch_blocks h1 = blocks_of [(ly, sl)] @ old \<Longrightarrow> outcome k old P (f sl h1)"
  shows "outcome k old P (case new_zeroed k place ly n h of (Inl e, h1) \<Rightarrow> Some (Inl e, h1) | (Inr sl, h1) \<Rightarrow> f sl h1)"
proof -
  have "(case x of (Inl e, h1) \<Rightarrow> do { h' \<leftarrow> drop_all [] h1; Some (Inl e, h') } | (Inr sl, h1) \<Rightarrow> f sl h1) =
      (case x of (Inl e, h1) \<Rightarrow> Some (Inl e, h1) | (Inr sl, h1) \<Rightarrow> f sl h1)" for x
    by (simp split: prod.split sum.split)
  with alloc_step [OF assms(1,2), of "[]" old "[]" k ly n P f] assms(3,4) show ?thesis by simp
qed

lemma services_new_outcome:
  assumes "place_ok place" "heap_ok h" "layout_ok L" "svc_types_ok k"
  shows "outcome k (ch_blocks h) (\<lambda>t h'. svc_table k L (ch_mem h') (BleGattServices_as_ref t) services \<and>
      (\<exists>h''. BleGattServices_drop t h' = Some h'' \<and> ch_blocks h'' = ch_blocks h \<and> heap_ok h''))
    (BleGattServices_new k place L services h)" (is "outcome k ?old ?P _")
proof -
  have built: "outcome k ?old ?P (do { h' \<leftarrow> build_svcs k L t 0 0 0 services h4; Some (Inr t, h') })"
    if asm: "new_zeroed k place (gl_char L) (total_chars services) h = (Inr chars, h1)"
      "new_zeroed k place (gl_uuid L) (length services) h1 = (Inr svc_uuids, h2)"
      "new_zeroed k place (gl_chr_def L) (total_chars services + length services) h2 = (Inr chr_defs, h3)"
      "new_zeroed k place (gl_svc_def L) (length services + 1) h3 = (Inr svc_defs, h4)"
      "t = \<lparr>gt_chars = chars, gt_svc_uuids = svc_uuids, gt_chr_defs = chr_defs, gt_svc_defs = svc_defs\<rparr>"
    for chars svc_uuids chr_defs svc_defs h1 h2 h3 h4 t
  proof -
    obtain h' where h': "build_svcs k L t 0 0 0 services h4 = Some h'" "heap_ok h'"
      "ch_blocks h' = blocks_of (rev [(gl_char L, chars), (gl_uuid L, svc_uuids), (gl_chr_def L, chr_defs), (gl_svc_def L, svc_defs)]) @ ch_blocks h"
      "svc_table k L (ch_mem h') (BleGattServices_as_ref t) services"
      using built_table [OF assms asm] by blast
    then show ?thesis using drop_all_rev [OF h'(2,3)]
      by (simp add: outcome_def BleGattServices_drop_def asm(5))
  qed
  note step = alloc_step [OF assms(1), where old = ?old and k = k and P = ?P]
  show ?thesis
    unfolding BleGattServices_new_def
  proof (rule alloc_first [OF assms(1,2) refl], goal_cases)
    case (1 chars h1)
    show ?case
    proof (rule step [OF 1(2,3)], goal_cases)
      case a2: (2 svc_uuids h2)
      show ?case
      proof (rule step [OF a2(2,3)], goal_cases)
        case a3: (2 chr_defs h3)
        show ?case
          by (rule step [OF a3(2,3)], simp) (simp only: Let_def, rule built [OF 1(1) a2(1) a3(1) _ refl])
      qed simp
    qed simp
  qed
qed

section \<open>Properties\<close>

text \<open>An allocator for examples: each block behind the end of all live ones.\<close>

definition bump :: "'c placement" where
  "bump h n = Suc (sum_list (map (\<lambda>b. fst b + snd b) (ch_blocks h)))"

lemma bump_ok: "place_ok bump"
  unfolding place_ok_def
proof (intro allI impI conjI ballI)
  fix h :: "'c cheap" and n
  have above: "fst b + snd b < bump h n" if "b \<in> set (ch_blocks h)" for b
    using member_le_sum_list [of "fst b + snd b" "map (\<lambda>b. fst b + snd b) (ch_blocks h)"] that by (auto simp: bump_def)
  show "block_cells b \<inter> block_cells (bump h n, n) = {}" if "b \<in> set (ch_blocks h)" for b
    using above [OF that] by (auto simp: block_cells_def)
  show "bump h n \<notin> fst ` set (ch_blocks h)" using above by fastforce
qed

definition demo_layout :: gatt_layout where
  "demo_layout = \<lparr>gl_char = \<lparr>ly_size = 24, ly_align = 4\<rparr>, gl_uuid = \<lparr>ly_size = 18, ly_align = 2\<rparr>,
     gl_chr_def = \<lparr>ly_size = 40, ly_align = 4\<rparr>, gl_svc_def = \<lparr>ly_size = 16, ly_align = 4\<rparr>,
     gl_char_uuid = 4, gl_header = (\<lambda>u. case u of Uuid16 _ \<Rightarrow> 2 | Uuid128 _ \<Rightarrow> 1)\<rparr>"

definition demo_services :: "BleGattService list" where
  "demo_services = [BleGattService_new True (uuid16 nimble_consts 0x180D)
     [BleGattCharacteristic_new (uuid16 nimble_consts 0x2A37) {Notify, Read}]]"

definition empty_heap :: "'c cheap" where
  "empty_heap = \<lparr>ch_blocks = [], ch_mem = (\<lambda>_. None)\<rparr>"

lemma demo_ok: "layout_ok demo_layout" "heap_ok empty_heap"
  by (simp_all add: layout_ok_def demo_layout_def heap_ok_def empty_heap_def)





lemma static_table:
  assumes "svc_types_ok k" "statics_in st (gatt_services k L st svcs) m"
  shows "svc_table k L m (st_name st) (macro_services svcs)"
proof -
  have "m (st_name st + length svcs * ly_size (gl_svc_def L)) = None"
    using assms(2) by (simp add: statics_in_def gatt_services_def)
  then show ?thesis using static_svc_entry [OF assms]
    by (simp add: svc_table_nth macro_services_def [THEN arg_cong [where f = length]])
qed

text \<open>
  C14: the static table is the same table. If the statics of a \<open>gatt_services!\<close> invocation are in
  memory with their initial values, the host sees from them exactly the services a runtime table
  built from the same description has.
\<close>

theorem gatt_services_refines:
  assumes "svc_types_ok k" "statics_in st (gatt_services k L st svcs) m"
  shows "svc_table k L m (st_name st) (macro_services svcs)"
  using assms by (rule static_table)

definition demo_statics :: statics where
  "demo_statics = \<lparr>st_name = 100, st_chrs = (\<lambda>i. 200), st_svc_uuid = (\<lambda>i. 300), st_chr_uuid = (\<lambda>i j. 400)\<rparr>"

definition demo_macro :: "macro_svc list" where
  "demo_macro = [(True, uuid16 nimble_consts 0x180D, [(uuid16 nimble_consts 0x2A37, [Notify, Read])])]"

theorem gatt_services_refines_witness:
  "svc_table nimble_consts demo_layout
     (fold (\<lambda>(a, v) m. m(a := v)) (gatt_services nimble_consts demo_layout demo_statics demo_macro) (\<lambda>_. None) ::
        ptr \<Rightarrow> 32 word gatt_cell option)
     (st_name demo_statics) demo_services"
proof -
  let ?img = "gatt_services nimble_consts demo_layout demo_statics demo_macro :: (ptr \<times> 32 word gatt_cell option) list"
  have "statics_in demo_statics ?img (fold (\<lambda>(a, v) m. m(a := v)) ?img (\<lambda>_. None))"
    by (simp add: statics_in_def demo_statics_def gatt_services_def expand_svc_def expand_chr_def demo_macro_def demo_layout_def)
  moreover have "macro_services demo_macro = demo_services"
    by (simp add: macro_services_def demo_macro_def demo_services_def)
  ultimately show ?thesis using gatt_services_refines [OF svc_types_nimble, of demo_statics demo_layout demo_macro] by simp
qed

text \<open>
  A function that takes ownership of the mbuf it is given frees it on all paths, as the sources
  note of \<open>ble_gatts_notify_custom\<close> and \<open>ble_gatts_indicate_custom\<close>.
\<close>

definition consumes :: "('s \<Rightarrow> ptr \<Rightarrow> bytes option) \<Rightarrow> (u16 \<Rightarrow> u16 \<Rightarrow> ptr \<Rightarrow> 's \<Rightarrow> c_int \<times> 's) \<Rightarrow> bool" where
  "consumes pool f \<longleftrightarrow> (\<forall>h v om s. pool s om \<noteq> None \<longrightarrow> pool (snd (f h v om s)) = (pool s)(om := None))"

lemma send_owned:
  assumes "mbuf_contract mc pool" "consumes pool f" "length data < 2 ^ 16"
    and "(case mbuf_from_slice k mc data s of (Inl e, s1) \<Rightarrow> (Inl e, s1) | (Inr om, s1) \<Rightarrow> checked (f h v om s1)) = (r, s')"
  shows "pool s' = pool s \<and> (r = Inl (BleError (as_c_int (k BLE_HS_ENOMEM))) \<or>
    (\<exists>om s1 rc. pool s1 om = Some data \<and> f h v om s1 = (rc, s') \<and> r = BleError_check rc))"
proof (cases "mbuf_from_slice k mc data s")
  case (Pair r1 s1)
  from mbuf_from_slice_cases [OF assms(1) Pair]
  consider om where "r1 = Inr om" "pool s om = None" "pool s1 = (pool s)(om \<mapsto> data)"
    | "r1 = Inl (BleError (as_c_int (k BLE_HS_ENOMEM)))" "pool s1 = pool s"
    using c_view_id [OF assms(3)] by auto
  then show ?thesis
  proof cases
    case 1
    obtain rc where f: "f h v om s1 = (rc, s')" "r = BleError_check rc"
      using assms(4) Pair 1(1) by (cases "f h v om s1") auto
    have "pool (snd (f h v om s1)) = (pool s1)(om := None)"
      using assms(2) 1(3) unfolding consumes_def by simp
    with 1(2,3) f have "pool s' = pool s" "pool s1 om = Some data" by (auto simp: fun_upd_idem)
    with f show ?thesis by blast
  qed (use assms(4) Pair in auto)
qed

text \<open>
  Notifying and indicating give the C host an mbuf with exactly the data, or fail with
  \<open>BLE_HS_ENOMEM\<close>; no mbuf is leaked or freed twice.
\<close>

theorem notify_sends_data:
  assumes "mbuf_contract mc pool" "consumes pool (gs_notify_custom gc)" "consumes pool (gs_indicate_custom gc)"
    and "length data < 2 ^ 16"
  shows "\<forall>(op, f) \<in> {(notify, gs_notify_custom gc), (indicate, gs_indicate_custom gc)}.
    case op k mc gc h v data s of (r, s') \<Rightarrow> pool s' = pool s \<and> (r = Inl (BleError (as_c_int (k BLE_HS_ENOMEM))) \<or>
      (\<exists>om s1 rc. pool s1 om = Some data \<and> f h v om s1 = (rc, s') \<and> r = BleError_check rc))"
  using send_owned [OF assms(1,2,4) prod.collapse [symmetric], where k = k and s = s and h = h and v = v]
    send_owned [OF assms(1,3,4) prod.collapse [symmetric], where k = k and s = s and h = h and v = v]
  by (simp add: notify_def indicate_def case_prod_beta)

text \<open>Registration events report the UUID of the definition that was registered.\<close>

definition register_ops_ok :: "sys_consts \<Rightarrow> bool" where
  "register_ops_ok k \<longleftrightarrow> u8_codes k [BLE_GATT_REGISTER_OP_SVC, BLE_GATT_REGISTER_OP_CHR, BLE_GATT_REGISTER_OP_DSC]"

lemma register_reports_uuid:
  assumes "register_ops_ok k" "uuid_types_ok k" "uuid_ok k u"
  shows "BleGattRegister_from k (ctxt\<lparr>rg_op := ucast (k BLE_GATT_REGISTER_OP_SVC), rg_svc_uuid := as_ptr pad u, rg_svc_handle := h\<rparr>) = Service u h"
    "BleGattRegister_from k (ctxt\<lparr>rg_op := ucast (k BLE_GATT_REGISTER_OP_CHR), rg_chr_uuid := as_ptr pad u,
       rg_chr_def_handle := h, rg_chr_val_handle := v\<rparr>) = Characteristic u h v"
    "BleGattRegister_from k (ctxt\<lparr>rg_op := ucast (k BLE_GATT_REGISTER_OP_DSC), rg_dsc_uuid := as_ptr pad u, rg_dsc_handle := h\<rparr>) = Descriptor u h"
  using assms(1) from_raw_as_ptr [OF assms(2,3)]
  by (auto simp: BleGattRegister_from_def register_ops_ok_def u8_codes_def ucast_u8_u32)

end
