(* ===== verification/Gatt_Client.thy ===== *)
theory Gatt_Client
  imports Gap Mbuf
begin

text \<open>
  The GATT client (\<open>nimble-rs/src/gatt/client.rs\<close>): its events, the four completion trampolines
  the C host calls, and the operations. A pointer argument of a trampoline is the structure it
  points to, \<open>None\<close> for null. The subscribed callback is the argument \<open>cb\<close>, \<open>None\<close> when the slot is
  empty; it may change the state \<open>'s\<close> in any way.
\<close>

section \<open>Events\<close>

record GattcService =
  gv_start_handle :: AttrHandle
  gv_end_handle :: AttrHandle
  gv_uuid :: BleUuid

record GattcChr =
  gr_def_handle :: AttrHandle
  gr_val_handle :: AttrHandle
  gr_properties :: u8
  gr_uuid :: BleUuid

datatype GattcEvent =
    GattcServiceEvent ConnHandle u16 "GattcService option"
  | GattcCharacteristic ConnHandle u16 "GattcChr option"
  | ReadComplete ConnHandle u16 AttrHandle Mbuf
  | WriteComplete ConnHandle u16 AttrHandle
  | GattcNotify ConnHandle AttrHandle bool Mbuf

definition GattcEvent_from_notify_rx :: "ble_gap_event \<Rightarrow> GattcEvent" where
  "GattcEvent_from_notify_rx event =
     (let e = ge_notify_rx event
      in GattcNotify (er_conn_handle e) (er_attr_handle e) (er_indication e \<noteq> 0) (Mbuf_from_raw (er_om e)))"

text \<open>The C structures; \<open>uuid\<close> is the memory of the \<open>ble_uuid_any_t\<close> member.\<close>

record ble_gatt_svc =
  gsv_start_handle :: u16
  gsv_end_handle :: u16
  gsv_uuid :: bytes

record ble_gatt_chr =
  gch_def_handle :: u16
  gch_val_handle :: u16
  gch_properties :: u8
  gch_uuid :: bytes

record ble_gatt_error =
  er_status :: u16

record ble_gatt_attr =
  at_handle :: u16
  at_om :: ptr

definition GattcService_from :: "sys_consts \<Rightarrow> ble_gatt_svc \<Rightarrow> GattcService" where
  "GattcService_from k svc = \<lparr>gv_start_handle = gsv_start_handle svc, gv_end_handle = gsv_end_handle svc,
     gv_uuid = from_raw k (gsv_uuid svc)\<rparr>"

definition GattcChr_from :: "sys_consts \<Rightarrow> ble_gatt_chr \<Rightarrow> GattcChr" where
  "GattcChr_from k chr = \<lparr>gr_def_handle = gch_def_handle chr, gr_val_handle = gch_val_handle chr,
     gr_properties = gch_properties chr, gr_uuid = from_raw k (gch_uuid chr)\<rparr>"

definition error_status :: "ble_gatt_error option \<Rightarrow> u16" where
  "error_status error = (case error of None \<Rightarrow> 0 | Some e \<Rightarrow> er_status e)"

section \<open>Trampolines\<close>

type_synonym 's gattc_cb = "(GattcEvent \<Rightarrow> 's \<Rightarrow> 's) option"

definition gattc_deliver :: "'s gattc_cb \<Rightarrow> GattcEvent \<Rightarrow> 's \<Rightarrow> c_int \<times> 's" where
  "gattc_deliver cb event s = (0, case cb of None \<Rightarrow> s | Some f \<Rightarrow> f event s)"

definition disc_svc_cb :: "sys_consts \<Rightarrow> 's gattc_cb \<Rightarrow> u16 \<Rightarrow> ble_gatt_error option \<Rightarrow> ble_gatt_svc option \<Rightarrow> 's \<Rightarrow> c_int \<times> 's" where
  "disc_svc_cb k cb conn_handle error service =
     gattc_deliver cb (GattcServiceEvent conn_handle (error_status error) (map_option (GattcService_from k) service))"

definition disc_chr_cb :: "sys_consts \<Rightarrow> 's gattc_cb \<Rightarrow> u16 \<Rightarrow> ble_gatt_error option \<Rightarrow> ble_gatt_chr option \<Rightarrow> 's \<Rightarrow> c_int \<times> 's" where
  "disc_chr_cb k cb conn_handle error chr =
     gattc_deliver cb (GattcCharacteristic conn_handle (error_status error) (map_option (GattcChr_from k) chr))"

definition read_cb :: "'s gattc_cb \<Rightarrow> u16 \<Rightarrow> ble_gatt_error option \<Rightarrow> ble_gatt_attr option \<Rightarrow> 's \<Rightarrow> c_int \<times> 's" where
  "read_cb cb conn_handle error attr =
     (let (attr_handle, om) = (case attr of None \<Rightarrow> (0, NULL) | Some a \<Rightarrow> (at_handle a, at_om a))
      in gattc_deliver cb (ReadComplete conn_handle (error_status error) attr_handle (Mbuf_from_raw om)))"

definition write_cb :: "'s gattc_cb \<Rightarrow> u16 \<Rightarrow> ble_gatt_error option \<Rightarrow> ble_gatt_attr option \<Rightarrow> 's \<Rightarrow> c_int \<times> 's" where
  "write_cb cb conn_handle error attr =
     gattc_deliver cb (WriteComplete conn_handle (error_status error) (case attr of None \<Rightarrow> 0 | Some a \<Rightarrow> at_handle a))"

section \<open>Operations\<close>

record 's gattc_c =
  cc_gap_connect :: "u8 \<Rightarrow> ble_addr_t \<Rightarrow> c_int \<Rightarrow> trampoline option \<Rightarrow> 's \<Rightarrow> c_int \<times> 's"
  cc_gap_terminate :: "u16 \<Rightarrow> u8 \<Rightarrow> 's \<Rightarrow> c_int \<times> 's"
  cc_disc_all_svcs :: "u16 \<Rightarrow> trampoline option \<Rightarrow> 's \<Rightarrow> c_int \<times> 's"
  cc_disc_all_chrs :: "u16 \<Rightarrow> u16 \<Rightarrow> u16 \<Rightarrow> trampoline option \<Rightarrow> 's \<Rightarrow> c_int \<times> 's"
  cc_read :: "u16 \<Rightarrow> u16 \<Rightarrow> trampoline option \<Rightarrow> 's \<Rightarrow> c_int \<times> 's"
  cc_write_flat :: "u16 \<Rightarrow> u16 \<Rightarrow> bytes \<Rightarrow> trampoline option \<Rightarrow> 's \<Rightarrow> c_int \<times> 's"
  cc_write_no_rsp_flat :: "u16 \<Rightarrow> u16 \<Rightarrow> bytes \<Rightarrow> 's \<Rightarrow> c_int \<times> 's"

definition connect :: "'s gattc_c \<Rightarrow> u8 \<Rightarrow> BleAddr \<Rightarrow> 's \<Rightarrow> unit ble_result \<times> 's" where
  "connect c own_addr_type peer s = checked (cc_gap_connect c own_addr_type (BleAddr_raw peer) I32_MAX (Some Gap_event_cb) s)"

definition disconnect :: "'s gattc_c \<Rightarrow> ConnHandle \<Rightarrow> 's \<Rightarrow> unit ble_result \<times> 's" where
  "disconnect c conn_handle s = checked (cc_gap_terminate c conn_handle 0x13 s)"

definition discover_services :: "'s gattc_c \<Rightarrow> ConnHandle \<Rightarrow> 's \<Rightarrow> unit ble_result \<times> 's" where
  "discover_services c conn_handle s = checked (cc_disc_all_svcs c conn_handle (Some Disc_svc_cb) s)"

definition discover_characteristics :: "'s gattc_c \<Rightarrow> ConnHandle \<Rightarrow> AttrHandle \<Rightarrow> AttrHandle \<Rightarrow> 's \<Rightarrow> unit ble_result \<times> 's" where
  "discover_characteristics c conn_handle start_handle end_handle s =
     checked (cc_disc_all_chrs c conn_handle start_handle end_handle (Some Disc_chr_cb) s)"

definition gattc_read :: "'s gattc_c \<Rightarrow> ConnHandle \<Rightarrow> AttrHandle \<Rightarrow> 's \<Rightarrow> unit ble_result \<times> 's" where
  "gattc_read c conn_handle attr_handle s = checked (cc_read c conn_handle attr_handle (Some Read_cb) s)"

definition gattc_write :: "'s gattc_c \<Rightarrow> ConnHandle \<Rightarrow> AttrHandle \<Rightarrow> bytes \<Rightarrow> 's \<Rightarrow> unit ble_result \<times> 's" where
  "gattc_write c conn_handle attr_handle data s =
     checked (cc_write_flat c conn_handle attr_handle (c_view data) (Some Write_cb) s)"

definition write_cmd :: "'s gattc_c \<Rightarrow> ConnHandle \<Rightarrow> AttrHandle \<Rightarrow> bytes \<Rightarrow> 's \<Rightarrow> unit ble_result \<times> 's" where
  "write_cmd c conn_handle attr_handle data s = checked (cc_write_no_rsp_flat c conn_handle attr_handle (c_view data) s)"

section \<open>Properties\<close>

text \<open>
  A discovery as the C host runs it: the discovery trampoline for each item, and once more with
  a status and no item.
\<close>

definition discovery :: "(ble_gatt_error option \<Rightarrow> 'x option \<Rightarrow> 's \<Rightarrow> c_int \<times> 's) \<Rightarrow> 'x list \<Rightarrow> u16 \<Rightarrow> 's \<Rightarrow> 's" where
  "discovery cb items final s = snd (cb (Some \<lparr>er_status = final\<rparr>) None (fold (\<lambda>x s. snd (cb None (Some x) s)) items s))"

text \<open>
  A discovery is delivered to the application item by item, in order, with the UUIDs of the
  peer's attributes, and completed by one event without an item that carries the final status;
  without a subscriber nothing happens.
\<close>

theorem discovery_delivered:
  assumes "uuid_types_ok k" "\<forall>(s, e, u) \<in> set items. uuid_ok k u"
  shows "discovery (disc_svc_cb k (Some (\<lambda>ev log. log @ [ev])) h)
      (map (\<lambda>(s, e, u). \<lparr>gsv_start_handle = s, gsv_end_handle = e, gsv_uuid = as_ptr pad u\<rparr>) items) final log =
    log @ map (\<lambda>(s, e, u). GattcServiceEvent h 0 (Some \<lparr>gv_start_handle = s, gv_end_handle = e, gv_uuid = u\<rparr>)) items @
      [GattcServiceEvent h final None] \<and>
    discovery (disc_svc_cb k None h) svcs final st = st"
proof -
  have one: "snd (disc_svc_cb k (Some (\<lambda>ev log. log @ [ev])) h None
        (Some \<lparr>gsv_start_handle = s, gsv_end_handle = e, gsv_uuid = as_ptr pad u\<rparr>) log) =
      log @ [GattcServiceEvent h 0 (Some \<lparr>gv_start_handle = s, gv_end_handle = e, gv_uuid = u\<rparr>)]"
    if "uuid_ok k u" for s e u log
    using from_raw_as_ptr [OF assms(1) that]
    by (simp add: disc_svc_cb_def gattc_deliver_def GattcService_from_def error_status_def)
  have "fold (\<lambda>x s. snd (disc_svc_cb k (Some (\<lambda>ev log. log @ [ev])) h None (Some x) s))
      (map (\<lambda>(s, e, u). \<lparr>gsv_start_handle = s, gsv_end_handle = e, gsv_uuid = as_ptr pad u\<rparr>) items) log =
    log @ map (\<lambda>(s, e, u). GattcServiceEvent h 0 (Some \<lparr>gv_start_handle = s, gv_end_handle = e, gv_uuid = u\<rparr>)) items" for log
    using assms(2)
  proof (induction items arbitrary: log)
    case (Cons x xs)
    obtain s e u where "x = (s, e, u)" by (cases x) auto
    with Cons show ?case by (auto simp: one)
  qed simp
  moreover have "fold (\<lambda>x s. snd (disc_svc_cb k None h None (Some x) s)) svcs st = st"
    by (induction svcs) (simp_all add: disc_svc_cb_def gattc_deliver_def)
  ultimately show ?thesis
    by (simp add: discovery_def) (simp add: disc_svc_cb_def gattc_deliver_def error_status_def)
qed

theorem discovery_delivered_witness:
  "discovery (disc_svc_cb nimble_consts (Some (\<lambda>ev log. log @ [ev])) 1)
     [\<lparr>gsv_start_handle = 1, gsv_end_handle = 5, gsv_uuid = as_ptr 0 (uuid16 nimble_consts 0x180D)\<rparr>] 14 [] =
   [GattcServiceEvent 1 0 (Some \<lparr>gv_start_handle = 1, gv_end_handle = 5, gv_uuid = uuid16 nimble_consts 0x180D\<rparr>),
    GattcServiceEvent 1 14 None]"
  using discovery_delivered [OF uuid_types_nimble, of "[(1, 5, uuid16 nimble_consts 0x180D)]" 1 0 14 "[]" "[]" "()"]
  by (simp add: uuid_ok_new)

end
