(* ===== verification/L2cap.thy ===== *)
theory L2cap
  imports Gap Mbuf
begin

text \<open>
  L2CAP connection-oriented channels (\<open>nimble-rs/src/l2cap.rs\<close>): events, the event trampoline and
  the channel operations, with the ownership of the mbufs they pass to and take from the C host.
  A channel handle is an opaque pointer.
\<close>

section \<open>Events\<close>

datatype L2capChan = L2capChan ptr

primrec chan_ptr :: "L2capChan \<Rightarrow> ptr" where "chan_ptr (L2capChan p) = p"

datatype SendOutcome = Sent | Stalled

datatype L2capEvent =
    Connected ConnHandle c_int L2capChan
  | Disconnected ConnHandle L2capChan
  | Accept ConnHandle u16 L2capChan
  | Received ConnHandle L2capChan Mbuf
  | TxUnstalled ConnHandle c_int L2capChan
  | Reconfigured ConnHandle c_int L2capChan bool

record lev_status = ls_conn_handle :: u16  ls_status :: c_int  ls_chan :: ptr
record lev_disconnect = ld_conn_handle :: u16  ld_chan :: ptr
record lev_accept = la_conn_handle :: u16  la_peer_sdu_size :: u16  la_chan :: ptr
record lev_receive = lr_conn_handle :: u16  lr_chan :: ptr  lr_sdu_rx :: ptr

record ble_l2cap_event =
  le_type :: u8
  le_connect :: lev_status
  le_disconnect :: lev_disconnect
  le_accept :: lev_accept
  le_receive :: lev_receive
  le_tx_unstalled :: lev_status
  le_reconfigured :: lev_status

definition L2capEvent_from_raw :: "sys_consts \<Rightarrow> ble_l2cap_event \<Rightarrow> L2capEvent option" where
  "L2capEvent_from_raw k event =
     (let t = (ucast (le_type event) :: u32)
      in if t = k BLE_L2CAP_EVENT_COC_CONNECTED then
           (let e = le_connect event in Some (Connected (ls_conn_handle e) (ls_status e) (L2capChan (ls_chan e))))
         else if t = k BLE_L2CAP_EVENT_COC_DISCONNECTED then
           (let e = le_disconnect event in Some (Disconnected (ld_conn_handle e) (L2capChan (ld_chan e))))
         else if t = k BLE_L2CAP_EVENT_COC_ACCEPT then
           (let e = le_accept event in Some (Accept (la_conn_handle e) (la_peer_sdu_size e) (L2capChan (la_chan e))))
         else if t = k BLE_L2CAP_EVENT_COC_DATA_RECEIVED then
           (let e = le_receive event
            in Some (Received (lr_conn_handle e) (L2capChan (lr_chan e)) (Mbuf_from_raw (lr_sdu_rx e))))
         else if t = k BLE_L2CAP_EVENT_COC_TX_UNSTALLED then
           (let e = le_tx_unstalled event in Some (TxUnstalled (ls_conn_handle e) (ls_status e) (L2capChan (ls_chan e))))
         else if t = k BLE_L2CAP_EVENT_COC_RECONFIG_COMPLETED \<or> t = k BLE_L2CAP_EVENT_COC_PEER_RECONFIGURED then
           (let e = le_reconfigured event
            in Some (Reconfigured (ls_conn_handle e) (ls_status e) (L2capChan (ls_chan e))
                 (t = k BLE_L2CAP_EVENT_COC_PEER_RECONFIGURED)))
         else None)"

section \<open>Buffers\<close>

definition free_mbuf :: "'s mbuf_c \<Rightarrow> ptr \<Rightarrow> 's \<Rightarrow> 's" where
  "free_mbuf mc om s = (if om \<noteq> NULL then mb_free_chain mc om s else s)"

definition alloc_sdu :: "sys_consts \<Rightarrow> 's mbuf_c \<Rightarrow> u16 \<Rightarrow> 's \<Rightarrow> ptr ble_result \<times> 's" where
  "alloc_sdu k mc sz s =
     (let (om, s1) = mb_get_pkthdr mc sz 0 s
      in if om = NULL then (Inl (BleError_new (as_c_int (k BLE_HS_ENOMEM))), s1) else (Inr om, s1))"

text \<open>The event trampoline; \<open>cb\<close> is the subscribed callback.\<close>

definition l2cap_event_cb :: "sys_consts \<Rightarrow> 's mbuf_c \<Rightarrow> (L2capEvent \<Rightarrow> 's \<Rightarrow> c_int \<times> 's) option \<Rightarrow> ble_l2cap_event \<Rightarrow> 's \<Rightarrow> c_int \<times> 's" where
  "l2cap_event_cb k mc cb event s =
     (let received_sdu = (if ucast (le_type event) = k BLE_L2CAP_EVENT_COC_DATA_RECEIVED
            then Some (lr_sdu_rx (le_receive event)) else None);
          (status, s1) = (case (cb, L2capEvent_from_raw k event) of
              (Some f, Some e) \<Rightarrow> f e s
            | _ \<Rightarrow> (0, s))
      in (status, case received_sdu of Some om \<Rightarrow> free_mbuf mc om s1 | None \<Rightarrow> s1))"

section \<open>Operations\<close>

record 's l2cap_c =
  lc_create_server :: "u16 \<Rightarrow> u16 \<Rightarrow> trampoline option \<Rightarrow> 's \<Rightarrow> c_int \<times> 's"
  lc_connect :: "u16 \<Rightarrow> u16 \<Rightarrow> u16 \<Rightarrow> ptr \<Rightarrow> trampoline option \<Rightarrow> 's \<Rightarrow> c_int \<times> 's"
  lc_send :: "ptr \<Rightarrow> ptr \<Rightarrow> 's \<Rightarrow> c_int \<times> 's"
  lc_recv_ready :: "ptr \<Rightarrow> ptr \<Rightarrow> 's \<Rightarrow> c_int \<times> 's"
  lc_disconnect :: "ptr \<Rightarrow> 's \<Rightarrow> c_int \<times> 's"

definition l2cap_create_server :: "'s l2cap_c \<Rightarrow> u16 \<Rightarrow> u16 \<Rightarrow> 's \<Rightarrow> unit ble_result \<times> 's" where
  "l2cap_create_server c psm mtu s = checked (lc_create_server c psm mtu (Some L2cap_event_cb) s)"

definition l2cap_connect :: "sys_consts \<Rightarrow> 's mbuf_c \<Rightarrow> 's l2cap_c \<Rightarrow> ConnHandle \<Rightarrow> u16 \<Rightarrow> u16 \<Rightarrow> 's \<Rightarrow> unit ble_result \<times> 's" where
  "l2cap_connect k mc c conn_handle psm mtu s =
     (case alloc_sdu k mc mtu s of
        (Inl e, s1) \<Rightarrow> (Inl e, s1)
      | (Inr sdu_rx, s1) \<Rightarrow>
          (let (rc, s2) = lc_connect c conn_handle psm mtu sdu_rx (Some L2cap_event_cb) s1;
               s3 = (if rc = as_c_int (k BLE_HS_ENOTCONN) \<or> rc = as_c_int (k BLE_HS_EINVAL)
                     then free_mbuf mc sdu_rx s2 else s2)
           in (BleError_check rc, s3)))"

definition as_u32 :: "c_int \<Rightarrow> u32" where "as_u32 rc = word_of_int rc"

definition l2cap_send :: "sys_consts \<Rightarrow> 's mbuf_c \<Rightarrow> 's l2cap_c \<Rightarrow> L2capChan \<Rightarrow> bytes \<Rightarrow> 's \<Rightarrow> SendOutcome ble_result \<times> 's" where
  "l2cap_send k mc c chan data s =
     (let (sdu, s1) = mb_from_flat mc (c_view data) s
      in if sdu = NULL then (Inl (BleError_new (as_c_int (k BLE_HS_ENOMEM))), s1)
         else let (rc, s2) = lc_send c (chan_ptr chan) sdu s1
           in if as_u32 rc = 0 then (Inr Sent, s2)
              else if as_u32 rc = k BLE_HS_ESTALLED then (Inr Stalled, s2)
              else if as_u32 rc = k BLE_HS_EBADDATA \<or> as_u32 rc = k BLE_HS_EBUSY
              then (map_sum id (\<lambda>_. Sent) (BleError_check rc), free_mbuf mc sdu s2)
              else (map_sum id (\<lambda>_. Sent) (BleError_check rc), s2))"

definition l2cap_recv_ready :: "sys_consts \<Rightarrow> 's mbuf_c \<Rightarrow> 's l2cap_c \<Rightarrow> L2capChan \<Rightarrow> u16 \<Rightarrow> 's \<Rightarrow> unit ble_result \<times> 's" where
  "l2cap_recv_ready k mc c chan sdu_size s =
     (case alloc_sdu k mc sdu_size s of
        (Inl e, s1) \<Rightarrow> (Inl e, s1)
      | (Inr sdu_rx, s1) \<Rightarrow>
          (let (rc, s2) = lc_recv_ready c (chan_ptr chan) sdu_rx s1;
               s3 = (if rc = as_c_int (k BLE_HS_EBUSY) \<or> rc = as_c_int (k BLE_HS_EINVAL)
                     then free_mbuf mc sdu_rx s2 else s2)
           in (BleError_check rc, s3)))"

definition l2cap_disconnect :: "'s l2cap_c \<Rightarrow> L2capChan \<Rightarrow> 's \<Rightarrow> unit ble_result \<times> 's" where
  "l2cap_disconnect c chan s = checked (lc_disconnect c (chan_ptr chan) s)"

section \<open>Ownership\<close>

text \<open>
  \<open>mine s\<close> is the set of live mbufs the C host has no hold of: a buffer the crate has allocated or
  was handed, until it frees it or passes it on. The contract is that of the C functions as the
  sources quote it: allocation gives a new buffer, only a buffer of ours may be freed, and the
  three channel functions take the buffer except on the return codes named here;
  \<open>ble_l2cap_connect\<close> may or may not have taken it when it fails with \<open>BLE_HS_ENOMEM\<close>.
\<close>

definition alloc_owned :: "('s \<Rightarrow> ptr set) \<Rightarrow> ptr \<times> 's \<Rightarrow> 's \<Rightarrow> bool" where
  "alloc_owned mine r s \<longleftrightarrow> (if fst r = NULL then mine (snd r) = mine s
     else fst r \<notin> mine s \<and> mine (snd r) = insert (fst r) (mine s))"

definition pool_owned :: "'s mbuf_c \<Rightarrow> ('s \<Rightarrow> ptr set) \<Rightarrow> bool" where
  "pool_owned mc mine \<longleftrightarrow>
     (\<forall>n pre s. alloc_owned mine (mb_get_pkthdr mc n pre s) s) \<and>
     (\<forall>d s. alloc_owned mine (mb_from_flat mc d s) s) \<and>
     (\<forall>p s. p \<in> mine s \<longrightarrow> mine (mb_free_chain mc p s) = mine s - {p})"

text \<open>A call that is given the buffer \<open>p\<close> and leaves it with the caller on the codes \<open>kept\<close>.\<close>

definition takes_unless :: "('s \<Rightarrow> ptr set) \<Rightarrow> (c_int \<Rightarrow> bool) \<Rightarrow> (ptr \<Rightarrow> 's \<Rightarrow> c_int \<times> 's) \<Rightarrow> bool" where
  "takes_unless mine kept f \<longleftrightarrow> (\<forall>p s rc s'. p \<in> mine s \<longrightarrow> f p s = (rc, s') \<longrightarrow>
     mine s' = (if kept rc then mine s else mine s - {p}))"

definition connect_owned :: "sys_consts \<Rightarrow> 's l2cap_c \<Rightarrow> ('s \<Rightarrow> ptr set) \<Rightarrow> bool" where
  "connect_owned k c mine \<longleftrightarrow> (\<forall>h psm mtu p cb s rc s'. p \<in> mine s \<longrightarrow> lc_connect c h psm mtu p cb s = (rc, s') \<longrightarrow>
     (if rc = as_c_int (k BLE_HS_ENOTCONN) \<or> rc = as_c_int (k BLE_HS_EINVAL) then mine s' = mine s
      else mine s' = mine s - {p} \<or> rc = as_c_int (k BLE_HS_ENOMEM) \<and> mine s' = mine s))"

definition l2cap_contract :: "sys_consts \<Rightarrow> 's mbuf_c \<Rightarrow> 's l2cap_c \<Rightarrow> ('s \<Rightarrow> ptr set) \<Rightarrow> bool" where
  "l2cap_contract k mc c mine \<longleftrightarrow> pool_owned mc mine \<and> connect_owned k c mine \<and>
     (\<forall>ch. takes_unless mine (\<lambda>rc. as_u32 rc = k BLE_HS_EBADDATA \<or> as_u32 rc = k BLE_HS_EBUSY) (lc_send c ch)) \<and>
     (\<forall>ch. takes_unless mine (\<lambda>rc. rc = as_c_int (k BLE_HS_EBUSY) \<or> rc = as_c_int (k BLE_HS_EINVAL)) (lc_recv_ready c ch))"

definition send_codes_ok :: "sys_consts \<Rightarrow> bool" where
  "send_codes_ok k \<longleftrightarrow> distinct [0, k BLE_HS_ESTALLED, k BLE_HS_EBADDATA, k BLE_HS_EBUSY]"

lemma free_mbuf_owned:
  "pool_owned mc mine \<Longrightarrow> om \<in> mine s \<Longrightarrow> om \<noteq> NULL \<Longrightarrow> mine (free_mbuf mc om s) = mine s - {om}"
  by (simp add: pool_owned_def free_mbuf_def)

lemma alloc_sdu_owned:
  assumes "pool_owned mc mine" "alloc_sdu k mc n s = (r, s')"
  shows "(\<exists>om. r = Inr om \<and> om \<noteq> NULL \<and> om \<notin> mine s \<and> mine s' = insert om (mine s)) \<or> (\<exists>e. r = Inl e \<and> mine s' = mine s)"
proof -
  have "alloc_owned mine (mb_get_pkthdr mc n 0 s) s" using assms(1) by (simp add: pool_owned_def)
  then show ?thesis using assms(2)
    by (auto simp: alloc_sdu_def alloc_owned_def split: prod.splits if_splits)
qed

lemma recv_ready_owned:
  assumes "l2cap_contract k mc c mine" "l2cap_recv_ready k mc c chan n s = (r, s')"
  shows "mine s' = mine s"
proof (cases "alloc_sdu k mc n s")
  case (Pair r1 s1)
  have pool: "pool_owned mc mine" and tk: "takes_unless mine (\<lambda>rc. rc = as_c_int (k BLE_HS_EBUSY) \<or> rc = as_c_int (k BLE_HS_EINVAL)) (lc_recv_ready c (chan_ptr chan))"
    using assms(1) by (simp_all add: l2cap_contract_def)
  from alloc_sdu_owned [OF pool Pair]
  consider om where "r1 = Inr om" "om \<noteq> NULL" "om \<notin> mine s" "mine s1 = insert om (mine s)"
    | e where "r1 = Inl e" "mine s1 = mine s" by blast
  then show ?thesis
  proof cases
    case 1
    obtain rc s2 where f: "lc_recv_ready c (chan_ptr chan) om s1 = (rc, s2)" by fastforce
    have "mine s2 = (if rc = as_c_int (k BLE_HS_EBUSY) \<or> rc = as_c_int (k BLE_HS_EINVAL) then mine s1 else mine s1 - {om})"
      using tk f 1(4) unfolding takes_unless_def by blast
    then show ?thesis using assms(2) Pair 1 f free_mbuf_owned [OF pool, of om s2]
      by (auto simp: l2cap_recv_ready_def Let_def split: if_splits)
  qed (use assms(2) Pair in \<open>simp add: l2cap_recv_ready_def\<close>)
qed

lemma l2cap_send_owned:
  assumes "l2cap_contract k mc c mine" "send_codes_ok k" "l2cap_send k mc c chan data s = (r, s')"
  shows "mine s' = mine s"
proof -
  have pool: "pool_owned mc mine" and tk: "takes_unless mine (\<lambda>rc. as_u32 rc = k BLE_HS_EBADDATA \<or> as_u32 rc = k BLE_HS_EBUSY) (lc_send c (chan_ptr chan))"
    using assms(1) by (simp_all add: l2cap_contract_def)
  obtain om s1 where a: "mb_from_flat mc (c_view data) s = (om, s1)" by fastforce
  then have own: "if om = NULL then mine s1 = mine s else om \<notin> mine s \<and> mine s1 = insert om (mine s)"
    using pool unfolding pool_owned_def alloc_owned_def by (metis fst_conv snd_conv)
  show ?thesis
  proof (cases "om = NULL")
    case False
    obtain rc s2 where f: "lc_send c (chan_ptr chan) om s1 = (rc, s2)" by fastforce
    have "mine s2 = (if as_u32 rc = k BLE_HS_EBADDATA \<or> as_u32 rc = k BLE_HS_EBUSY then mine s1 else mine s1 - {om})"
      using tk f own False unfolding takes_unless_def by simp
    then show ?thesis using assms(2,3) a f own False free_mbuf_owned [OF pool, of om s2]
      by (auto simp: l2cap_send_def send_codes_ok_def split: if_splits)
  qed (use assms(3) a own in \<open>simp add: l2cap_send_def\<close>)
qed

lemma connect_balance:
  assumes "l2cap_contract k mc c mine" "l2cap_connect k mc c h psm mtu s = (r, s')"
  shows "mine s' = mine s \<or> r = Inl (BleError (as_c_int (k BLE_HS_ENOMEM))) \<or> as_c_int (k BLE_HS_ENOMEM) = 0"
proof (cases "alloc_sdu k mc mtu s")
  case (Pair r1 s1)
  have pool: "pool_owned mc mine" and con: "connect_owned k c mine" using assms(1) by (simp_all add: l2cap_contract_def)
  from alloc_sdu_owned [OF pool Pair]
  consider om where "r1 = Inr om" "om \<noteq> NULL" "om \<notin> mine s" "mine s1 = insert om (mine s)"
    | e where "r1 = Inl e" "mine s1 = mine s" by blast
  then show ?thesis
  proof cases
    case 1
    obtain rc s2 where f: "lc_connect c h psm mtu om (Some L2cap_event_cb) s1 = (rc, s2)" by fastforce
    have "if rc = as_c_int (k BLE_HS_ENOTCONN) \<or> rc = as_c_int (k BLE_HS_EINVAL) then mine s2 = mine s1
      else mine s2 = mine s1 - {om} \<or> rc = as_c_int (k BLE_HS_ENOMEM) \<and> mine s2 = mine s1"
      using con f 1(4) unfolding connect_owned_def by blast
    then show ?thesis using assms(2) Pair 1 f free_mbuf_owned [OF pool, of om s2]
      by (auto simp: l2cap_connect_def Let_def BleError_check_def split: if_splits)
  qed (use assms(2) Pair in \<open>simp add: l2cap_connect_def\<close>)
qed

lemma event_owned:
  assumes "pool_owned mc mine" "\<And>f e s. cb = Some f \<Longrightarrow> mine (snd (f e s)) = mine s"
    and "received \<Longrightarrow> om \<noteq> NULL \<Longrightarrow> om \<in> mine s"
    and "received \<longleftrightarrow> ucast (le_type event) = k BLE_L2CAP_EVENT_COC_DATA_RECEIVED" "om = lr_sdu_rx (le_receive event)"
  shows "mine (snd (l2cap_event_cb k mc cb event s)) = (if received \<and> om \<noteq> NULL then mine s - {om} else mine s)"
proof -
  define r where "r = (case (cb, L2capEvent_from_raw k event) of (Some f, Some e) \<Rightarrow> f e s | _ \<Rightarrow> (0, s))"
  have "mine (snd r) = mine s" using assms(2) by (auto simp: r_def split: option.split)
  moreover have "snd (l2cap_event_cb k mc cb event s) = (if received then free_mbuf mc om (snd r) else snd r)"
    using assms(4,5) by (simp add: l2cap_event_cb_def Let_def case_prod_beta r_def)
  ultimately show ?thesis
    using assms(3) free_mbuf_owned [OF assms(1), of om "snd r"] by (auto simp: free_mbuf_def)
qed

section \<open>Properties\<close>


text \<open>A host to instantiate the contract: its state is the list of our buffers.\<close>

definition list_host_mbuf :: "ptr list mbuf_c" where
  "list_host_mbuf = \<lparr>
     mb_to_flat = (\<lambda>om n s. (0, [], 0, s)), mb_append = (\<lambda>om d s. (0, s)),
     mb_from_flat = (\<lambda>d s. (Suc (sum_list s), Suc (sum_list s) # s)),
     mb_get_pkthdr = (\<lambda>n pre s. (Suc (sum_list s), Suc (sum_list s) # s)),
     mb_free_chain = (\<lambda>p s. removeAll p s)\<rparr>"

definition list_host :: "ptr list l2cap_c" where
  "list_host = \<lparr>
     lc_create_server = (\<lambda>psm mtu cb s. (0, s)),
     lc_connect = (\<lambda>h psm mtu p cb s. (7, s)),
     lc_send = (\<lambda>ch p s. (0, removeAll p s)),
     lc_recv_ready = (\<lambda>ch p s. (15, s)),
     lc_disconnect = (\<lambda>ch s. (0, s))\<rparr>"

lemma list_host_contract: "l2cap_contract nimble_consts list_host_mbuf list_host set"
proof -
  have "Suc (sum_list s) \<notin> set s" for s :: "nat list" using member_le_sum_list [of "Suc (sum_list s)" s] by auto
  then have "pool_owned list_host_mbuf set"
    by (auto simp: pool_owned_def list_host_mbuf_def alloc_owned_def)
  moreover have "connect_owned nimble_consts list_host set"
    by (simp add: connect_owned_def list_host_def)
  moreover have "takes_unless set (\<lambda>rc. as_u32 rc = nimble_consts BLE_HS_EBADDATA \<or> as_u32 rc = nimble_consts BLE_HS_EBUSY) (lc_send list_host ch)" for ch
    by (auto simp: takes_unless_def list_host_def as_u32_def)
  moreover have "takes_unless set (\<lambda>rc. rc = as_c_int (nimble_consts BLE_HS_EBUSY) \<or> rc = as_c_int (nimble_consts BLE_HS_EINVAL)) (lc_recv_ready list_host ch)" for ch
    by (simp add: takes_unless_def list_host_def)
  ultimately show ?thesis by (simp add: l2cap_contract_def)
qed

definition demo_received :: ble_l2cap_event where
  "demo_received = \<lparr>le_type = 3, le_connect = \<lparr>ls_conn_handle = 0, ls_status = 0, ls_chan = 0\<rparr>,
     le_disconnect = \<lparr>ld_conn_handle = 0, ld_chan = 0\<rparr>, le_accept = \<lparr>la_conn_handle = 0, la_peer_sdu_size = 0, la_chan = 0\<rparr>,
     le_receive = \<lparr>lr_conn_handle = 1, lr_chan = 9, lr_sdu_rx = 5\<rparr>,
     le_tx_unstalled = \<lparr>ls_conn_handle = 0, ls_status = 0, ls_chan = 0\<rparr>,
     le_reconfigured = \<lparr>ls_conn_handle = 0, ls_status = 0, ls_chan = 0\<rparr>\<rparr>"


end
