(* ===== verification/Ble_Driver.thy ===== *)
theory Ble_Driver
  imports Port Hci_Pump Gatt_Server Gatt_Client L2cap
begin

text \<open>
  The driver (\<open>nimble-rs/src/lib.rs\<close>, from line 253): the callback slots, the trampolines the C
  host calls, construction and drop of the singleton, and the future that runs everything.

  The state extends that of the NPL by the statics of the crate and the global \<open>ble_hs_cfg\<close> of the
  C host. A subscribed callback is known by its address; what the application does when it is
  called is the record \<open>app\<close>. The functions of the C host are the record \<open>driver_c\<close>.
\<close>

section \<open>State\<close>

record ble_state = npl_state +
  HOST_CALLBACK :: "ptr CallbackSlot"
  GAP_CALLBACK :: "ptr CallbackSlot"
  GATTS_CALLBACK :: "ptr CallbackSlot"
  GATTC_CALLBACK :: "ptr CallbackSlot"
  L2CAP_CALLBACK :: "ptr CallbackSlot"
  TAKEN :: bool
  ACTIVE :: active_slot
  PUMP :: pump_slot
  hs_cfg :: ble_hs_cfg

record 's app =
  app_host :: "ptr \<Rightarrow> HostEvent \<Rightarrow> 's \<Rightarrow> 's"
  app_gap :: "ptr \<Rightarrow> GapEvent \<Rightarrow> 's \<Rightarrow> c_int \<times> 's"
  app_gatts :: "ptr \<Rightarrow> GattsEvent \<Rightarrow> 's \<Rightarrow> u8 \<times> 's"
  app_gattc :: "ptr \<Rightarrow> GattcEvent \<Rightarrow> 's \<Rightarrow> 's"
  app_l2cap :: "ptr \<Rightarrow> L2capEvent \<Rightarrow> 's \<Rightarrow> c_int \<times> 's"

record 's driver_c =
  dc_port :: "'s port_c"
  dc_svc_gap_init :: "'s \<Rightarrow> 's"
  dc_svc_gatt_init :: "'s \<Rightarrow> 's"
  dc_store_ram_init :: "'s \<Rightarrow> 's"
  dc_gatts_count_cfg :: "ptr \<Rightarrow> 's \<Rightarrow> c_int \<times> 's"
  dc_gatts_add_svcs :: "ptr \<Rightarrow> 's \<Rightarrow> c_int \<times> 's"
  dc_ensure_addr :: "c_int \<Rightarrow> 's \<Rightarrow> c_int \<times> 's"
  dc_infer_auto :: "c_int \<Rightarrow> 's \<Rightarrow> c_int \<times> u8 \<times> 's"
  dc_copy_addr :: "u8 \<Rightarrow> 's \<Rightarrow> c_int \<times> bytes \<times> 's"
  dc_synced :: "'s \<Rightarrow> c_int"

definition taken_swap :: "bool \<Rightarrow> 'a ble_state_scheme \<Rightarrow> bool \<times> 'a ble_state_scheme" where
  "taken_swap new st = (TAKEN st, st\<lparr>TAKEN := new\<rparr>)"

section \<open>Trampolines\<close>

definition on_sync :: "'a ble_state_scheme app \<Rightarrow> 'a ble_state_scheme \<Rightarrow> 'a ble_state_scheme" where
  "on_sync ap st = (case slot_get (HOST_CALLBACK st) of Some cb \<Rightarrow> app_host ap cb Sync st | None \<Rightarrow> st)"

definition on_reset :: "'a ble_state_scheme app \<Rightarrow> c_int \<Rightarrow> 'a ble_state_scheme \<Rightarrow> 'a ble_state_scheme" where
  "on_reset ap reason st =
     (case slot_get (HOST_CALLBACK st) of Some cb \<Rightarrow> app_host ap cb (HostEvent.Reset reason) st | None \<Rightarrow> st)"

definition gap_event_cb :: "ble_cfg \<Rightarrow> sys_consts \<Rightarrow> 'a ble_state_scheme app \<Rightarrow> ble_gap_event \<Rightarrow> 'a ble_state_scheme \<Rightarrow>
    c_int \<times> 'a ble_state_scheme" where
  "gap_event_cb cf k ap event st =
     (let t = (ucast (ge_type event) :: u32)
      in if cf_peripheral cf \<and> (t = k BLE_GAP_EVENT_SUBSCRIBE \<or> t = k BLE_GAP_EVENT_NOTIFY_TX) then
           (0, case (slot_get (GATTS_CALLBACK st), GattsEvent_from_gap k event) of
                 (Some cb, Some e) \<Rightarrow> snd (app_gatts ap cb e st)
               | _ \<Rightarrow> st)
         else if cf_central cf \<and> t = k BLE_GAP_EVENT_NOTIFY_RX then
           (0, case slot_get (GATTC_CALLBACK st) of
                 Some cb \<Rightarrow> app_gattc ap cb (GattcEvent_from_notify_rx event) st
               | None \<Rightarrow> st)
         else (case slot_get (GAP_CALLBACK st) of
                 Some cb \<Rightarrow> app_gap ap cb (GapEvent_from cf k event) st
               | None \<Rightarrow> (0, st)))"

definition gatts_register_cb :: "sys_consts \<Rightarrow> 'a ble_state_scheme app \<Rightarrow> ble_gatt_register_ctxt \<Rightarrow> 'a ble_state_scheme \<Rightarrow> 'a ble_state_scheme" where
  "gatts_register_cb k ap ctxt st =
     (case slot_get (GATTS_CALLBACK st) of
        Some cb \<Rightarrow> snd (app_gatts ap cb (Register (BleGattRegister_from k ctxt)) st)
      | None \<Rightarrow> st)"

record ble_gatt_access_ctxt =
  ax_op :: u8
  ax_om :: ptr
  ax_offset :: u16

definition gatts_access_cb :: "sys_consts \<Rightarrow> 'a ble_state_scheme app \<Rightarrow> u16 \<Rightarrow> u16 \<Rightarrow> ble_gatt_access_ctxt \<Rightarrow> 'a ble_state_scheme \<Rightarrow>
    c_int \<times> 'a ble_state_scheme" where
  "gatts_access_cb k ap conn_handle attr_handle ctxt st =
     (case slot_get (GATTS_CALLBACK st) of
        None \<Rightarrow> (as_c_int (k BLE_ATT_ERR_UNLIKELY), st)
      | Some cb \<Rightarrow>
          (let mbuf = Mbuf_from_raw (ax_om ctxt); op = (ucast (ax_op ctxt) :: u32);
               event = (if op = k BLE_GATT_ACCESS_OP_READ_CHR
                          then Some (GattsRead conn_handle attr_handle (ax_offset ctxt) mbuf)
                        else if op = k BLE_GATT_ACCESS_OP_WRITE_CHR
                          then Some (GattsWrite conn_handle attr_handle mbuf)
                        else None)
           in case event of
                None \<Rightarrow> (as_c_int (k BLE_ATT_ERR_UNLIKELY), st)
              | Some e \<Rightarrow> (let (status, st1) = app_gatts ap cb e st in (int (unat status), st1))))"

section \<open>Subscriptions\<close>

definition host_subscribe :: "ptr \<Rightarrow> 'a ble_state_scheme \<Rightarrow> 'a ble_state_scheme" where
  "host_subscribe cb st = st\<lparr>HOST_CALLBACK := slot_set (Some cb) (HOST_CALLBACK st)\<rparr>"

definition gap_subscribe :: "ptr \<Rightarrow> 'a ble_state_scheme \<Rightarrow> 'a ble_state_scheme" where
  "gap_subscribe cb st = st\<lparr>GAP_CALLBACK := slot_set (Some cb) (GAP_CALLBACK st)\<rparr>"

definition gap_unsubscribe :: "'a ble_state_scheme \<Rightarrow> 'a ble_state_scheme" where
  "gap_unsubscribe st = st\<lparr>GAP_CALLBACK := slot_set None (GAP_CALLBACK st)\<rparr>"

definition gatts_subscribe :: "ptr \<Rightarrow> 'a ble_state_scheme \<Rightarrow> 'a ble_state_scheme" where
  "gatts_subscribe cb st = st\<lparr>GATTS_CALLBACK := slot_set (Some cb) (GATTS_CALLBACK st)\<rparr>"

definition gatts_unsubscribe :: "'a ble_state_scheme \<Rightarrow> 'a ble_state_scheme" where
  "gatts_unsubscribe st = st\<lparr>GATTS_CALLBACK := slot_set None (GATTS_CALLBACK st)\<rparr>"

definition gattc_subscribe :: "ptr \<Rightarrow> 'a ble_state_scheme \<Rightarrow> 'a ble_state_scheme" where
  "gattc_subscribe cb st = st\<lparr>GATTC_CALLBACK := slot_set (Some cb) (GATTC_CALLBACK st)\<rparr>"

definition gattc_unsubscribe :: "'a ble_state_scheme \<Rightarrow> 'a ble_state_scheme" where
  "gattc_unsubscribe st = st\<lparr>GATTC_CALLBACK := slot_set None (GATTC_CALLBACK st)\<rparr>"

definition l2cap_subscribe :: "ptr \<Rightarrow> 'a ble_state_scheme \<Rightarrow> 'a ble_state_scheme" where
  "l2cap_subscribe cb st = st\<lparr>L2CAP_CALLBACK := slot_set (Some cb) (L2CAP_CALLBACK st)\<rparr>"

definition l2cap_unsubscribe :: "'a ble_state_scheme \<Rightarrow> 'a ble_state_scheme" where
  "l2cap_unsubscribe st = st\<lparr>L2CAP_CALLBACK := slot_set None (L2CAP_CALLBACK st)\<rparr>"

section \<open>Construction and drop\<close>

definition Ble_init :: "ble_cfg \<Rightarrow> sys_consts \<Rightarrow> 'a ble_state_scheme driver_c \<Rightarrow> ptr \<Rightarrow> 'a ble_state_scheme \<Rightarrow>
    unit ble_result \<times> 'a ble_state_scheme" where
  "Ble_init cf k c dflt st =
     (let (was, st1) = taken_swap True st
      in if was then (Inl (BleError_new (as_c_int (k BLE_HS_EALREADY))), st1)
         else case port_init (dc_port c) dflt st1 of
             (Inl _, st2) \<Rightarrow>
               (let (_, st3) = taken_swap False st2 in (Inl (BleError_new (as_c_int (k BLE_HS_ENOMEM))), st3))
           | (Inr _, st2) \<Rightarrow>
               (let st3 = st2\<lparr>hs_cfg := (hs_cfg st2)\<lparr>hcfg_sync_cb := Some On_sync, hcfg_reset_cb := Some On_reset\<rparr>\<rparr>;
                    st4 = (if cf_peripheral cf then dc_svc_gatt_init c (dc_svc_gap_init c st3) else st3)
                in (Inr (), dc_store_ram_init c st4)))"

definition Ble_drop :: "ble_cfg \<Rightarrow> 'a ble_state_scheme driver_c \<Rightarrow> ptr \<Rightarrow> 'a ble_state_scheme \<Rightarrow> 'a ble_state_scheme" where
  "Ble_drop cf c dflt st =
     (let st = st\<lparr>hs_cfg := (hs_cfg st)\<lparr>hcfg_sync_cb := None, hcfg_reset_cb := None\<rparr>\<rparr>;
          st = (if cf_peripheral cf then st\<lparr>hs_cfg := (hs_cfg st)\<lparr>hcfg_gatts_register_cb := None\<rparr>\<rparr> else st);
          st = st\<lparr>ACTIVE := set_active None (ACTIVE st)\<rparr>;
          st = st\<lparr>HOST_CALLBACK := slot_set None (HOST_CALLBACK st)\<rparr>;
          st = st\<lparr>GAP_CALLBACK := slot_set None (GAP_CALLBACK st)\<rparr>;
          st = (if cf_peripheral cf then st\<lparr>GATTS_CALLBACK := slot_set None (GATTS_CALLBACK st)\<rparr> else st);
          st = (if cf_central cf then st\<lparr>GATTC_CALLBACK := slot_set None (GATTC_CALLBACK st)\<rparr> else st);
          st = (if cf_l2cap cf then st\<lparr>L2CAP_CALLBACK := slot_set None (L2CAP_CALLBACK st)\<rparr> else st);
          st = port_deinit (dc_port c) dflt st
      in snd (taken_swap False st))"

definition Ble_new :: "ble_cfg \<Rightarrow> sys_consts \<Rightarrow> 'a ble_state_scheme driver_c \<Rightarrow> ptr \<Rightarrow> 'a ble_state_scheme \<Rightarrow>
    unit ble_result \<times> 'a ble_state_scheme" where
  "Ble_new cf k c dflt st = Ble_init cf k c dflt st"

definition Ble_new_with_parker :: "ble_cfg \<Rightarrow> sys_consts \<Rightarrow> 'a ble_state_scheme driver_c \<Rightarrow> ptr \<Rightarrow> parker_obj \<Rightarrow> 'a ble_state_scheme \<Rightarrow>
    unit ble_result \<times> 'a ble_state_scheme" where
  "Ble_new_with_parker cf k c dflt pk st =
     (case Ble_new cf k c dflt st of
        (Inl e, st1) \<Rightarrow> (Inl e, st1)
      | (Inr _, st1) \<Rightarrow> (Inr (), st1\<lparr>ACTIVE := set_active (Some pk) (ACTIVE st1)\<rparr>))"

text \<open>\<open>defs\<close> is the pointer of the service table.\<close>

definition Ble_new_with_services :: "ble_cfg \<Rightarrow> sys_consts \<Rightarrow> 'a ble_state_scheme driver_c \<Rightarrow> ptr \<Rightarrow> ptr \<Rightarrow> 'a ble_state_scheme \<Rightarrow>
    unit ble_result \<times> 'a ble_state_scheme" where
  "Ble_new_with_services cf k c dflt defs st =
     (case Ble_init cf k c dflt st of
        (Inl e, st1) \<Rightarrow> (Inl e, st1)
      | (Inr _, st1) \<Rightarrow>
          (let st2 = st1\<lparr>hs_cfg := (hs_cfg st1)\<lparr>hcfg_gatts_register_cb := Some Gatts_register_cb\<rparr>\<rparr>;
               (result, st3) = (case checked (dc_gatts_count_cfg c defs st2) of
                   (Inl e, st3) \<Rightarrow> (Inl e, st3)
                 | (Inr _, st3) \<Rightarrow> checked (dc_gatts_add_svcs c defs st3))
           in case result of
                Inl e \<Rightarrow> (Inl e, Ble_drop cf c dflt st3)
              | Inr _ \<Rightarrow> (Inr (), st3)))"

definition Ble_new_with_services_and_parker :: "ble_cfg \<Rightarrow> sys_consts \<Rightarrow> 'a ble_state_scheme driver_c \<Rightarrow> ptr \<Rightarrow> ptr \<Rightarrow> parker_obj \<Rightarrow>
    'a ble_state_scheme \<Rightarrow> unit ble_result \<times> 'a ble_state_scheme" where
  "Ble_new_with_services_and_parker cf k c dflt defs pk st =
     (case Ble_new_with_services cf k c dflt defs st of
        (Inl e, st1) \<Rightarrow> (Inl e, st1)
      | (Inr _, st1) \<Rightarrow> (Inr (), st1\<lparr>ACTIVE := set_active (Some pk) (ACTIVE st1)\<rparr>))"

definition ble_address :: "'s driver_c \<Rightarrow> 's \<Rightarrow> (bytes \<times> u8) ble_result \<times> 's" where
  "ble_address c st =
     (case checked (dc_ensure_addr c 0 st) of
        (Inl e, st1) \<Rightarrow> (Inl e, st1)
      | (Inr _, st1) \<Rightarrow>
     (case dc_infer_auto c 0 st1 of (rc, t, st2) \<Rightarrow>
     (case BleError_check rc of
        Inl e \<Rightarrow> (Inl e, st2)
      | Inr _ \<Rightarrow>
     (case dc_copy_addr c t st2 of (rc, addr, st3) \<Rightarrow>
     (case BleError_check rc of
        Inl e \<Rightarrow> (Inl e, st3)
      | Inr _ \<Rightarrow> (Inr (addr, t), st3))))))"

definition synced :: "'s driver_c \<Rightarrow> 's \<Rightarrow> bool" where
  "synced c st \<longleftrightarrow> dc_synced c st \<noteq> 0"

definition ble_set_security :: "BleSecurity \<Rightarrow> 'a ble_state_scheme \<Rightarrow> 'a ble_state_scheme" where
  "ble_set_security security st = st\<lparr>hs_cfg := set_security security (hs_cfg st)\<rparr>"

section \<open>The run future\<close>

text \<open>
  One poll of \<open>run\<close>: \<open>select3\<close> polls the event loop, the timer loop and the pump arm in this
  order. None of the three completes, so neither does \<open>run\<close>. The pump is polled through its
  registration; \<open>poll\<close> is the poll of the pinned pump future.
\<close>

definition pump_arm :: "(nat \<Rightarrow> waker \<Rightarrow> 'a ble_state_scheme \<Rightarrow> 'a ble_state_scheme option) \<Rightarrow> waker \<Rightarrow> 'a ble_state_scheme \<Rightarrow> 'a ble_state_scheme option" where
  "pump_arm poll w st = do {
     (_, slot, st1) \<leftarrow> pump_manual (\<lambda>fut w (slot, s). map_option (\<lambda>s. (PUMP s, s)) (poll fut w (s\<lparr>PUMP := slot\<rparr>))) w (PUMP st, st);
     Some (st1\<lparr>PUMP := slot\<rparr>)
   }"

definition run_poll :: "(ptr \<Rightarrow> ptr \<Rightarrow> 'a ble_state_scheme \<Rightarrow> 'a ble_state_scheme) \<Rightarrow>
    (instant \<Rightarrow> waker \<Rightarrow> 'a ble_state_scheme \<Rightarrow> bool \<times> 'a ble_state_scheme) \<Rightarrow> (nat \<Rightarrow> nat \<Rightarrow> instant) \<Rightarrow>
    (nat \<Rightarrow> waker \<Rightarrow> 'a ble_state_scheme \<Rightarrow> 'a ble_state_scheme option) \<Rightarrow> ptr \<Rightarrow> waker \<Rightarrow>
    'a ble_state_scheme \<Rightarrow> 'a ble_state_scheme option" where
  "run_poll run tpoll clock poll dflt w st = do {
     st1 \<leftarrow> run_events run dflt w st;
     st2 \<leftarrow> run_timers run tpoll clock w 0 st1;
     pump_arm poll w st2
   }"

text \<open>Entering \<open>run\<close> registers the pump; dropping the future deregisters it.\<close>

definition run_start :: "bool \<Rightarrow> nat \<Rightarrow> 'a ble_state_scheme \<Rightarrow> 'a ble_state_scheme option" where
  "run_start checks fut st = map_option (\<lambda>slot. st\<lparr>PUMP := slot\<rparr>) (register_pump checks fut (PUMP st))"

definition run_drop :: "'a ble_state_scheme \<Rightarrow> 'a ble_state_scheme" where
  "run_drop st = st\<lparr>PUMP := PumpGuard_drop (PUMP st)\<rparr>"

section \<open>The life of the singleton\<close>

text \<open>What the driver installs: the callback slots, the parker and the callbacks of \<open>ble_hs_cfg\<close>.\<close>

definition installed :: "'a ble_state_scheme \<Rightarrow> ptr option list \<times> active_slot \<times> trampoline option list" where
  "installed st = ([HOST_CALLBACK st, GAP_CALLBACK st, GATTS_CALLBACK st, GATTC_CALLBACK st, L2CAP_CALLBACK st], ACTIVE st,
     [hcfg_sync_cb (hs_cfg st), hcfg_reset_cb (hs_cfg st), hcfg_gatts_register_cb (hs_cfg st)])"

definition nothing_installed :: "ptr option list \<times> active_slot \<times> trampoline option list" where
  "nothing_installed = ([None, None, None, None, None], None, [None, None, None])"

definition keeps :: "('a ble_state_scheme \<Rightarrow> 'a ble_state_scheme) \<Rightarrow> bool" where
  "keeps f \<longleftrightarrow> (\<forall>st. installed (f st) = installed st \<and> TAKEN (f st) = TAKEN st)"

text \<open>The C functions the driver calls do not touch the crate's statics or these callbacks.\<close>

definition host_keeps :: "'a ble_state_scheme driver_c \<Rightarrow> bool" where
  "host_keeps c \<longleftrightarrow>
     keeps (pc_os_mempool_module_init (dc_port c)) \<and> keeps (\<lambda>st. snd (pc_ble_buf_alloc (dc_port c) st)) \<and>
     keeps (pc_ble_buf_free (dc_port c)) \<and> keeps (pc_ble_transport_init (dc_port c)) \<and>
     keeps (pc_os_msys_init (dc_port c)) \<and> keeps (pc_ble_transport_hs_init (dc_port c)) \<and>
     keeps (pc_ble_transport_ll_init (dc_port c)) \<and> keeps (pc_ble_hs_deinit (dc_port c)) \<and>
     keeps (pc_ble_transport_ll_deinit (dc_port c)) \<and> keeps (pc_ble_transport_deinit (dc_port c)) \<and>
     keeps (dc_svc_gap_init c) \<and> keeps (dc_svc_gatt_init c) \<and> keeps (dc_store_ram_init c) \<and>
     (\<forall>p. keeps (\<lambda>st. snd (dc_gatts_count_cfg c p st)) \<and> keeps (\<lambda>st. snd (dc_gatts_add_svcs c p st)))"

lemma eventq_keeps [simp]:
  "installed (ble_npl_eventq_init q st) = installed st" "TAKEN (ble_npl_eventq_init q st) = TAKEN st"
  "installed (ble_npl_eventq_deinit q st) = installed st" "TAKEN (ble_npl_eventq_deinit q st) = TAKEN st"
  by (simp_all add: installed_def ble_npl_eventq_init_def ble_npl_eventq_deinit_def upd_eventq_def wake_def Let_def
      split: option.split)

lemma port_keeps:
  assumes "host_keeps c"
  shows "keeps (\<lambda>st. snd (port_init (dc_port c) dflt st))" "keeps (port_deinit (dc_port c) dflt)"
  using assms unfolding host_keeps_def keeps_def
  by (simp_all add: port_init_def port_deinit_def Let_def case_prod_beta)

lemma installed_upd [simp]:
  "installed (st\<lparr>TAKEN := b\<rparr>) = installed st" "installed (st\<lparr>PUMP := p\<rparr>) = installed st"
  by (simp_all add: installed_def)

text \<open>A failed construction installs nothing, and a taken driver is left alone.\<close>

lemma init_taken: "TAKEN st \<Longrightarrow> Ble_init cf k c dflt st = (Inl (BleError (as_c_int (k BLE_HS_EALREADY))), st)"
  by (simp add: Ble_init_def taken_swap_def BleError_new_def)

lemma init_free:
  assumes "host_keeps c" "\<not> TAKEN st" "Ble_init cf k c dflt st = (r, st')"
  shows "if r = Inr () then TAKEN st' else \<not> TAKEN st' \<and> installed st' = installed st"
proof -
  obtain r1 st2 where p: "port_init (dc_port c) dflt (st\<lparr>TAKEN := True\<rparr>) = (r1, st2)" by fastforce
  have pk: "installed st2 = installed st" "TAKEN st2"
    using port_keeps(1) [OF assms(1), of dflt, unfolded keeps_def, rule_format, of "st\<lparr>TAKEN := True\<rparr>"] p by simp_all
  show ?thesis
  proof (cases r1)
    case (Inl u)
    then show ?thesis using assms(2,3) p pk by (auto simp: Ble_init_def taken_swap_def)
  next
    case (Inr u)
    have kt: "TAKEN (dc_store_ram_init c x) = TAKEN x" "TAKEN (dc_svc_gatt_init c x) = TAKEN x"
      "TAKEN (dc_svc_gap_init c x) = TAKEN x" for x
      using assms(1) by (simp_all add: host_keeps_def keeps_def)
    have "r = Inr ()" "TAKEN st'"
      using assms(2,3) p pk(2) Inr by (auto simp: Ble_init_def taken_swap_def Let_def kt split: if_splits)
    then show ?thesis by simp
  qed
qed

text \<open>A drop leaves nothing installed, as long as only what the features provide was.\<close>

definition feature_slots :: "ble_cfg \<Rightarrow> 'a ble_state_scheme \<Rightarrow> bool" where
  "feature_slots cf st \<longleftrightarrow>
     (\<not> cf_peripheral cf \<longrightarrow> GATTS_CALLBACK st = None \<and> hcfg_gatts_register_cb (hs_cfg st) = None) \<and>
     (\<not> cf_central cf \<longrightarrow> GATTC_CALLBACK st = None) \<and> (\<not> cf_l2cap cf \<longrightarrow> L2CAP_CALLBACK st = None)"

lemma drop_clears:
  assumes "host_keeps c" "feature_slots cf st"
  shows "\<not> TAKEN (Ble_drop cf c dflt st) \<and> installed (Ble_drop cf c dflt st) = nothing_installed"
proof -
  have "installed (port_deinit (dc_port c) dflt x) = installed x" for x
    using port_keeps(2) [OF assms(1)] by (simp add: keeps_def)
  then show ?thesis using assms(2)
    by (auto simp: Ble_drop_def taken_swap_def Let_def set_active_def slot_defs feature_slots_def)
      (auto simp: installed_def nothing_installed_def)
qed

text \<open>
  The steps of a program that uses the driver. The number counts the driver values that exist;
  the operations on a driver need one. \<open>other\<close> is any activity that does not install callbacks.
\<close>

inductive driver_step :: "ble_cfg \<Rightarrow> sys_consts \<Rightarrow> 'a ble_state_scheme driver_c \<Rightarrow> ptr \<Rightarrow>
    nat \<times> 'a ble_state_scheme \<Rightarrow> nat \<times> 'a ble_state_scheme \<Rightarrow> bool"
  for cf k c dflt where
  new: "Ble_new cf k c dflt st = (r, st') \<Longrightarrow> driver_step cf k c dflt (n, st) (if r = Inr () then Suc n else n, st')"
| new_with_parker: "Ble_new_with_parker cf k c dflt pk st = (r, st') \<Longrightarrow>
    driver_step cf k c dflt (n, st) (if r = Inr () then Suc n else n, st')"
| new_with_services: "cf_peripheral cf \<Longrightarrow> Ble_new_with_services cf k c dflt defs st = (r, st') \<Longrightarrow>
    driver_step cf k c dflt (n, st) (if r = Inr () then Suc n else n, st')"
| new_with_services_and_parker: "cf_peripheral cf \<Longrightarrow> Ble_new_with_services_and_parker cf k c dflt defs pk st = (r, st') \<Longrightarrow>
    driver_step cf k c dflt (n, st) (if r = Inr () then Suc n else n, st')"
| drop: "driver_step cf k c dflt (Suc n, st) (n, Ble_drop cf c dflt st)"
| host_sub: "driver_step cf k c dflt (Suc n, st) (Suc n, host_subscribe cb st)"
| gap_sub: "f \<in> {gap_subscribe cb, gap_unsubscribe} \<Longrightarrow> driver_step cf k c dflt (Suc n, st) (Suc n, f st)"
| gatts_sub: "cf_peripheral cf \<Longrightarrow> f \<in> {gatts_subscribe cb, gatts_unsubscribe} \<Longrightarrow> driver_step cf k c dflt (Suc n, st) (Suc n, f st)"
| gattc_sub: "cf_central cf \<Longrightarrow> f \<in> {gattc_subscribe cb, gattc_unsubscribe} \<Longrightarrow> driver_step cf k c dflt (Suc n, st) (Suc n, f st)"
| l2cap_sub: "cf_l2cap cf \<Longrightarrow> f \<in> {l2cap_subscribe cb, l2cap_unsubscribe} \<Longrightarrow> driver_step cf k c dflt (Suc n, st) (Suc n, f st)"
| security: "cf_sm cf \<Longrightarrow> driver_step cf k c dflt (Suc n, st) (Suc n, ble_set_security sec st)"
| other: "installed st' = installed st \<Longrightarrow> TAKEN st' = TAKEN st \<Longrightarrow> driver_step cf k c dflt (n, st) (n, st')"

text \<open>The invariant: one driver while the flag is taken, none and nothing installed otherwise.\<close>

definition driver_inv :: "ble_cfg \<Rightarrow> nat \<times> 'a ble_state_scheme \<Rightarrow> bool" where
  "driver_inv cf = (\<lambda>(n, st). n = (if TAKEN st then 1 else 0) \<and> feature_slots cf st \<and>
     (n = 0 \<longrightarrow> installed st = nothing_installed))"

lemma feature_slots_cong:
  "installed st' = installed st \<Longrightarrow> feature_slots cf st' = feature_slots cf st"
  by (simp add: feature_slots_def installed_def)

lemma feature_slots_nothing: "installed st = nothing_installed \<Longrightarrow> feature_slots cf st"
  by (simp add: feature_slots_def installed_def nothing_installed_def)

lemma init_slots:
  assumes "host_keeps c" "Ble_init cf k c dflt st = (Inr u, st')" "feature_slots cf st"
  shows "feature_slots cf st'"
proof -
  obtain st2 where p: "port_init (dc_port c) dflt (st\<lparr>TAKEN := True\<rparr>) = (Inr (), st2)"
    using assms(2) by (auto simp: Ble_init_def taken_swap_def Let_def split: prod.splits sum.splits if_splits)
  have pk: "installed st2 = installed st"
    using port_keeps(1) [OF assms(1), of dflt, unfolded keeps_def, rule_format, of "st\<lparr>TAKEN := True\<rparr>"] p by simp
  have kp: "installed (dc_store_ram_init c x) = installed x" "installed (dc_svc_gatt_init c x) = installed x"
    "installed (dc_svc_gap_init c x) = installed x" for x
    using assms(1) by (simp_all add: host_keeps_def keeps_def)
  have "installed st' = installed (st2\<lparr>hs_cfg := (hs_cfg st2)\<lparr>hcfg_sync_cb := Some On_sync, hcfg_reset_cb := Some On_reset\<rparr>\<rparr>)"
    using assms(2) p by (auto simp: Ble_init_def taken_swap_def Let_def kp split: if_splits)
  then show ?thesis using assms(3) pk by (simp add: feature_slots_def installed_def)
qed

text \<open>All four constructors keep the invariant, whatever the C host answers.\<close>

definition constructs :: "ble_cfg \<Rightarrow> ('a ble_state_scheme \<Rightarrow> unit ble_result \<times> 'a ble_state_scheme) \<Rightarrow> bool" where
  "constructs cf f \<longleftrightarrow> (\<forall>n st r st'. driver_inv cf (n, st) \<longrightarrow> f st = (r, st') \<longrightarrow>
     (if r = Inr () then n = 0 \<and> TAKEN st' \<and> feature_slots cf st' else driver_inv cf (n, st')))"

lemma constructs_init:
  assumes "host_keeps c"
  shows "constructs cf (Ble_init cf k c dflt)"
  unfolding constructs_def
proof (intro allI impI)
  fix n st r st' assume inv: "driver_inv cf (n, st)" and i: "Ble_init cf k c dflt st = (r, st')"
  show "if r = Inr () then n = 0 \<and> TAKEN st' \<and> feature_slots cf st' else driver_inv cf (n, st')"
  proof (cases "TAKEN st")
    case True
    then show ?thesis using inv i init_taken [of st cf k c dflt] by auto
  next
    case False
    have fs: "feature_slots cf st" "n = 0" "installed st = nothing_installed" using inv False by (auto simp: driver_inv_def)
    show ?thesis
      using init_free [OF assms False i] init_slots [OF assms _ fs(1)] i fs
      by (auto simp: driver_inv_def feature_slots_nothing)
  qed
qed

lemma constructs_parker:
  assumes "constructs cf f"
  shows "constructs cf (\<lambda>st. case f st of (Inl e, st1) \<Rightarrow> (Inl e, st1)
    | (Inr _, st1) \<Rightarrow> (Inr (), st1\<lparr>ACTIVE := set_active (Some pk) (ACTIVE st1)\<rparr>))"
  unfolding constructs_def
proof (intro allI impI)
  fix n st r st' assume inv: "driver_inv cf (n, st)"
    and e: "(case f st of (Inl e, st1) \<Rightarrow> (Inl e, st1)
      | (Inr _, st1) \<Rightarrow> (Inr (), st1\<lparr>ACTIVE := set_active (Some pk) (ACTIVE st1)\<rparr>)) = (r, st')"
  obtain r1 st1 where f: "f st = (r1, st1)" by fastforce
  with assms inv have "if r1 = Inr () then n = 0 \<and> TAKEN st1 \<and> feature_slots cf st1 else driver_inv cf (n, st1)"
    unfolding constructs_def by blast
  with e f show "if r = Inr () then n = 0 \<and> TAKEN st' \<and> feature_slots cf st' else driver_inv cf (n, st')"
    by (cases r1) (auto simp: feature_slots_def)
qed

lemma constructs_services:
  assumes "host_keeps c" "cf_peripheral cf"
  shows "constructs cf (Ble_new_with_services cf k c dflt defs)"
  unfolding constructs_def
proof (intro allI impI)
  fix n st r st' assume inv: "driver_inv cf (n, st)" and e: "Ble_new_with_services cf k c dflt defs st = (r, st')"
  obtain r1 st1 where i: "Ble_init cf k c dflt st = (r1, st1)" by fastforce
  with constructs_init [OF assms(1)] inv
  have ok: "if r1 = Inr () then n = 0 \<and> TAKEN st1 \<and> feature_slots cf st1 else driver_inv cf (n, st1)"
    unfolding constructs_def by blast
  show "if r = Inr () then n = 0 \<and> TAKEN st' \<and> feature_slots cf st' else driver_inv cf (n, st')"
  proof (cases r1)
    case (Inl e1)
    then show ?thesis using e i ok by (auto simp: Ble_new_with_services_def)
  next
    case (Inr u)
    define st2 where "st2 = st1\<lparr>hs_cfg := (hs_cfg st1)\<lparr>hcfg_gatts_register_cb := Some Gatts_register_cb\<rparr>\<rparr>"
    obtain rc1 st3 where c1: "dc_gatts_count_cfg c defs st2 = (rc1, st3)" by fastforce
    obtain rc2 st4 where c2: "dc_gatts_add_svcs c defs st3 = (rc2, st4)" by fastforce
    have "installed (snd (dc_gatts_count_cfg c defs x)) = installed x" "TAKEN (snd (dc_gatts_count_cfg c defs x)) = TAKEN x"
      "installed (snd (dc_gatts_add_svcs c defs x)) = installed x" "TAKEN (snd (dc_gatts_add_svcs c defs x)) = TAKEN x" for x
      using assms(1) by (simp_all add: host_keeps_def keeps_def)
    from this(1,2) [of st2] this(3,4) [of st3]
    have ins: "installed st3 = installed st2" "TAKEN st3 = TAKEN st2" "installed st4 = installed st2" "TAKEN st4 = TAKEN st2"
      by (simp_all add: c1 c2)
    have fs2: "feature_slots cf st2" "TAKEN st2" "n = 0" using ok Inr assms(2) by (simp_all add: st2_def feature_slots_def)
    then have fs: "feature_slots cf st3" "feature_slots cf st4" using ins feature_slots_cong by blast+
    have "r = Inr () \<and> st' = st4 \<or> r \<noteq> Inr () \<and> st' \<in> {Ble_drop cf c dflt st3, Ble_drop cf c dflt st4}"
      using e i Inr c1 c2
      by (auto simp: Ble_new_with_services_def BleError_check_def Let_def split: if_splits simp flip: st2_def)
    then show ?thesis
      using fs fs2 ins drop_clears [OF assms(1) fs(1), of dflt] drop_clears [OF assms(1) fs(2), of dflt]
      by (auto simp: driver_inv_def feature_slots_nothing)
  qed
qed

lemma constructs_step:
  assumes "constructs cf f" "driver_inv cf (n, st)" "f st = (r, st')"
  shows "driver_inv cf (if r = Inr () then Suc n else n, st')"
proof -
  have "if r = Inr () then n = 0 \<and> TAKEN st' \<and> feature_slots cf st' else driver_inv cf (n, st')"
    using assms unfolding constructs_def by blast
  then show ?thesis by (auto simp: driver_inv_def split: if_splits)
qed

lemma inv_upd:
  "driver_inv cf (Suc n, st) \<Longrightarrow> TAKEN st' = TAKEN st \<Longrightarrow> feature_slots cf st' \<Longrightarrow> driver_inv cf (Suc n, st')"
  by (simp add: driver_inv_def)

lemma driver_step_inv:
  assumes "host_keeps c" "driver_step cf k c dflt s s'" "driver_inv cf s"
  shows "driver_inv cf s'"
  using assms(2,3)
proof (induction rule: driver_step.induct)
  case (new st r st' n)
  then show ?case using constructs_step [OF constructs_init [OF assms(1)]] by (simp add: Ble_new_def)
next
  case (new_with_parker pk st r st' n)
  then show ?case using constructs_step [OF constructs_parker [OF constructs_init [OF assms(1)]]]
    by (simp add: Ble_new_def Ble_new_with_parker_def)
next
  case (new_with_services defs st r st' n)
  then show ?case using constructs_step [OF constructs_services [OF assms(1)]] by simp
next
  case (new_with_services_and_parker defs pk st r st' n)
  then show ?case using constructs_step [OF constructs_parker [OF constructs_services [OF assms(1)]]]
    by (simp add: Ble_new_with_services_and_parker_def)
next
  case (drop n st)
  then show ?case using drop_clears [OF assms(1), of cf st dflt]
    by (auto simp: driver_inv_def feature_slots_nothing split: if_splits)
next
  case (other st' st n)
  then show ?case using feature_slots_cong [of st' st cf] by (auto simp: driver_inv_def)
qed (auto intro!: inv_upd simp: driver_inv_def feature_slots_def host_subscribe_def gap_subscribe_def gap_unsubscribe_def
    gatts_subscribe_def gatts_unsubscribe_def gattc_subscribe_def gattc_unsubscribe_def l2cap_subscribe_def
    l2cap_unsubscribe_def ble_set_security_def set_security_def Let_def split: if_splits)

section \<open>Properties\<close>

text \<open>
  C11: the driver is a singleton and cleans up after itself. However constructors, drops,
  subscriptions and other activity follow each other, at most one driver exists, and while one
  does every constructor fails with \<open>BLE_HS_EALREADY\<close> and changes nothing. While none does, also
  after a constructor that failed half way, no callback, parker or trampoline is installed and a
  new driver can be made.
\<close>

theorem driver_singleton:
  assumes "host_keeps c" "(driver_step cf k c dflt)\<^sup>*\<^sup>* (0, st0) (n, st)"
    and "installed st0 = nothing_installed" "\<not> TAKEN st0"
  shows "n \<le> 1 \<and>
    (n = 1 \<longrightarrow> Ble_new cf k c dflt st = (Inl (BleError (as_c_int (k BLE_HS_EALREADY))), st) \<and>
       Ble_new_with_services cf k c dflt defs st = (Inl (BleError (as_c_int (k BLE_HS_EALREADY))), st)) \<and>
    (n = 0 \<longrightarrow> installed st = nothing_installed \<and> \<not> TAKEN st)"
proof -
  have "driver_inv cf (0, st0)" using assms(3,4) by (simp add: driver_inv_def feature_slots_nothing)
  with assms(2) have "driver_inv cf (n, st)"
    by (induction rule: rtranclp_induct) (auto intro: driver_step_inv [OF assms(1)])
  then show ?thesis
    by (auto simp: driver_inv_def Ble_new_def Ble_new_with_services_def init_taken split: if_splits)
qed

text \<open>A host for examples, on which every call succeeds except the registration of services.\<close>

definition demo_driver_c :: "'a ble_state_scheme driver_c" where
  "demo_driver_c = \<lparr>
     dc_port = \<lparr>pc_os_mempool_module_init = id, pc_ble_buf_alloc = Pair 0, pc_ble_buf_free = id, pc_ble_transport_init = id,
       pc_os_msys_init = id, pc_ble_transport_hs_init = id, pc_ble_transport_ll_init = id, pc_ble_hs_deinit = id,
       pc_ble_transport_ll_deinit = id, pc_ble_transport_deinit = id\<rparr>,
     dc_svc_gap_init = id, dc_svc_gatt_init = id, dc_store_ram_init = id,
     dc_gatts_count_cfg = (\<lambda>_ st. (0, st)), dc_gatts_add_svcs = (\<lambda>_ st. (6, st)),
     dc_ensure_addr = (\<lambda>_ st. (0, st)), dc_infer_auto = (\<lambda>_ st. (0, 0, st)), dc_copy_addr = (\<lambda>_ st. (0, replicate 6 0, st)),
     dc_synced = (\<lambda>_. 1)\<rparr>"

definition ble_mem0 :: ble_state where
  "ble_mem0 = npl_state.extend npl_mem0
     (ble_state.fields None None None None None False None PUMP_init
       \<lparr>hcfg_sync_cb = None, hcfg_reset_cb = None, hcfg_gatts_register_cb = None, hcfg_sm_io_cap = 0, hcfg_sm_bonding = 0,
         hcfg_sm_mitm = 0, hcfg_sm_sc = 0, hcfg_sm_our_key_dist = 0, hcfg_sm_their_key_dist = 0\<rparr>)"

lemma ble_mem0_simps [simp]:
  "installed ble_mem0 = nothing_installed" "\<not> TAKEN ble_mem0"
  by (simp_all add: ble_mem0_def ble_state.defs npl_state.defs installed_def nothing_installed_def)

lemma demo_keeps: "host_keeps demo_driver_c"
  by (simp add: host_keeps_def keeps_def demo_driver_c_def)

theorem driver_singleton_witness:
  "Ble_new all_features nimble_consts demo_driver_c 1000
     (snd (Ble_new all_features nimble_consts demo_driver_c 1000 ble_mem0)) =
   (Inl (BleError 2), snd (Ble_new all_features nimble_consts demo_driver_c 1000 ble_mem0))"
proof -
  have ok: "fst (Ble_new all_features nimble_consts demo_driver_c 1000 ble_mem0) = Inr ()"
    by (simp add: Ble_new_def Ble_init_def taken_swap_def port_init_def demo_driver_c_def Let_def)
  let ?st = "snd (Ble_new all_features nimble_consts demo_driver_c 1000 ble_mem0)"
  have "driver_step all_features nimble_consts demo_driver_c 1000 (0, ble_mem0) (1, ?st)"
    using driver_step.new [OF prod.collapse [symmetric], where cf = all_features and k = nimble_consts and
        c = demo_driver_c and dflt = 1000 and st = ble_mem0 and n = 0] ok by simp
  then show ?thesis
    using driver_singleton [OF demo_keeps r_into_rtranclp ble_mem0_simps] by fastforce
qed

lemma gap_event_cb_report:
  assumes "u8_codes k gap_event_consts" "u8_codes k ioact_consts" "reportable cf k e"
  shows "gap_event_cb cf k ap (report k e raw) st =
    (case GAP_CALLBACK st of Some cb \<Rightarrow> app_gap ap cb e st | None \<Rightarrow> (0, st))"
proof -
  have codes: "distinct (map k gap_event_consts)" "\<forall>x \<in> set gap_event_consts. k x < 256"
    using assms(1) by (simp_all add: u8_codes_def)
  have t: "ucast (ge_type (report k e raw)) \<notin> {k BLE_GAP_EVENT_SUBSCRIBE, k BLE_GAP_EVENT_NOTIFY_TX, k BLE_GAP_EVENT_NOTIFY_RX}"
    using assms(3) codes by (cases e) (auto simp: gap_event_consts_def ucast_u8_u32)
  have "GapEvent_from cf k (report k e raw) = e"
    by (rule gap_event_decode [OF assms])
  with t show ?thesis
    by (auto simp: gap_event_cb_def slot_defs split: option.split)
qed


text \<open>An application for examples: callbacks that record the event in the wake log.\<close>

definition demo_app :: "'a ble_state_scheme app" where
  "demo_app = \<lparr>app_host = (\<lambda>cb e st. st), app_gap = (\<lambda>cb e st. (5, st\<lparr>woken := woken st @ [cb]\<rparr>)),
     app_gatts = (\<lambda>cb e st. (1, st\<lparr>woken := woken st @ [cb]\<rparr>)), app_gattc = (\<lambda>cb e st. st), app_l2cap = (\<lambda>cb e st. (0, st))\<rparr>"


text \<open>
  Attribute accesses. A read or write of a characteristic reaches the server hook with the
  connection, the attribute and the buffer, and the host gets the status the hook returns; every
  other access, and any access without a subscriber, is refused with \<open>BLE_ATT_ERR_UNLIKELY\<close> and
  changes nothing.
\<close>

theorem gatts_access_dispatch:
  assumes "k BLE_GATT_ACCESS_OP_READ_CHR \<noteq> k BLE_GATT_ACCESS_OP_WRITE_CHR"
  shows "gatts_access_cb k ap h a ctxt st =
    (if GATTS_CALLBACK st \<noteq> None \<and> ucast (ax_op ctxt) \<in> {k BLE_GATT_ACCESS_OP_READ_CHR, k BLE_GATT_ACCESS_OP_WRITE_CHR}
     then map_prod (\<lambda>s. int (unat s)) id (app_gatts ap (the (GATTS_CALLBACK st))
       (if ucast (ax_op ctxt) = k BLE_GATT_ACCESS_OP_WRITE_CHR then GattsWrite h a (Mbuf (ax_om ctxt))
        else GattsRead h a (ax_offset ctxt) (Mbuf (ax_om ctxt))) st)
     else (as_c_int (k BLE_ATT_ERR_UNLIKELY), st))"
  using assms
  by (cases "GATTS_CALLBACK st") (auto simp: gatts_access_cb_def slot_defs Mbuf_from_raw_def Let_def case_prod_beta map_prod_def)

theorem gatts_access_dispatch_witness:
  "gatts_access_cb nimble_consts demo_app 1 3 \<lparr>ax_op = 1, ax_om = 40, ax_offset = 0\<rparr> (gatts_subscribe 78 ble_mem0) =
     (1, (gatts_subscribe 78 ble_mem0)\<lparr>woken := woken (gatts_subscribe 78 ble_mem0) @ [78]\<rparr>) \<and>
   gatts_access_cb nimble_consts demo_app 1 3 \<lparr>ax_op = 2, ax_om = 40, ax_offset = 0\<rparr> (gatts_subscribe 78 ble_mem0) =
     (14, gatts_subscribe 78 ble_mem0)"
proof -
  have "nimble_consts BLE_GATT_ACCESS_OP_READ_CHR \<noteq> nimble_consts BLE_GATT_ACCESS_OP_WRITE_CHR" by simp
  note access = gatts_access_dispatch [OF this]
  show ?thesis unfolding access by (simp add: gatts_subscribe_def slot_defs demo_app_def)
qed

end
