(* ===== verification/Example_Server.thy ===== *)
theory Example_Server
  imports Ble_Driver
begin

text \<open>
  The portable GATT server scenario (\<open>examples/app/src/lib.rs\<close> and \<open>gatt_server.rs\<close>), an
  application on top of the driver: its hooks, its advertising and one round of its loop. The
  state extends that of the driver by the statics of the scenario. A \<open>heapless::Vec\<close> is a list
  whose \<open>push\<close> fails at its capacity. Logging is left out. The comparison of two UUIDs, which the C
  host does, is the argument \<open>ueq\<close> (\<^term>\<open>BleUuid_eq\<close> of its \<open>ble_uuid_cmp\<close>).
\<close>

section \<open>Names and UUIDs\<close>

definition DEVICE_NAME :: bytes where
  "DEVICE_NAME = map (of_char :: char \<Rightarrow> u8) ''nimble-rs''"

definition SERVICE_UUID :: "sys_consts \<Rightarrow> BleUuid" where
  "SERVICE_UUID k = uuid128 k 0xad91b201734740479e173bed82d75f9d"

definition RECV_CHARACTERISTIC_UUID :: "sys_consts \<Rightarrow> BleUuid" where
  "RECV_CHARACTERISTIC_UUID k = uuid128 k 0xb6fccb5087be44f3ae22f85485ea42c4"

definition IND_CHARACTERISTIC_UUID :: "sys_consts \<Rightarrow> BleUuid" where
  "IND_CHARACTERISTIC_UUID k = uuid128 k 0x503de214868246c4828fd59144da41be"

text \<open>The table of the \<open>gatt_services!\<close> invocation.\<close>

definition SERVICES :: "sys_consts \<Rightarrow> macro_svc list" where
  "SERVICES k = [(True, SERVICE_UUID k, [(RECV_CHARACTERISTIC_UUID k, [Write]), (IND_CHARACTERISTIC_UUID k, [Indicate])])]"

definition MAX_SUBSCRIBERS :: nat where "MAX_SUBSCRIBERS = 4"

section \<open>State and hooks\<close>

record server_app = ble_state +
  SUBSCRIBERS :: "ConnHandle list"
  IND_VAL_HANDLE :: AttrHandle
  RECV_VAL_HANDLE :: AttrHandle
  NEEDS_ADV :: bool

definition needs_adv_swap :: "bool \<Rightarrow> 'a server_app_scheme \<Rightarrow> bool \<times> 'a server_app_scheme" where
  "needs_adv_swap new st = (NEEDS_ADV st, st\<lparr>NEEDS_ADV := new\<rparr>)"

definition vec_push :: "nat \<Rightarrow> 'x \<Rightarrow> 'x list \<Rightarrow> 'x list" where
  "vec_push cap x xs = (if length xs < cap then xs @ [x] else xs)"

definition server_on_host_event :: "HostEvent \<Rightarrow> 'a server_app_scheme \<Rightarrow> 'a server_app_scheme" where
  "server_on_host_event event st = (case event of Sync \<Rightarrow> snd (needs_adv_swap True st) | _ \<Rightarrow> st)"

definition server_on_gap_event :: "GapEvent \<Rightarrow> 'a server_app_scheme \<Rightarrow> c_int \<times> 'a server_app_scheme" where
  "server_on_gap_event event st =
     (0, case event of
           Disconnect conn_handle reason \<Rightarrow>
             snd (needs_adv_swap True (st\<lparr>SUBSCRIBERS := filter (\<lambda>c. c \<noteq> conn_handle) (SUBSCRIBERS st)\<rparr>))
         | _ \<Rightarrow> st)"

definition server_on_gatts_event :: "sys_consts \<Rightarrow> 'a server_app_scheme mbuf_c \<Rightarrow> (BleUuid \<Rightarrow> BleUuid \<Rightarrow> bool) \<Rightarrow> GattsEvent \<Rightarrow>
    'a server_app_scheme \<Rightarrow> u8 \<times> 'a server_app_scheme" where
  "server_on_gatts_event k mc ueq event st =
     (0, case event of
           Register (Characteristic uuid def_handle val_handle) \<Rightarrow>
             (if ueq uuid (IND_CHARACTERISTIC_UUID k) then st\<lparr>IND_VAL_HANDLE := val_handle\<rparr>
              else if ueq uuid (RECV_CHARACTERISTIC_UUID k) then st\<lparr>RECV_VAL_HANDLE := val_handle\<rparr>
              else st)
         | GattsWrite conn_handle attr_handle data \<Rightarrow>
             (if attr_handle = RECV_VAL_HANDLE st then snd (snd (Mbuf_read mc data (replicate 64 0) st)) else st)
         | SubscriptionChanged conn_handle attr_handle reason prev_notify cur_notify prev_indicate cur_indicate \<Rightarrow>
             (if attr_handle = IND_VAL_HANDLE st then
                (let subs = filter (\<lambda>c. c \<noteq> conn_handle) (SUBSCRIBERS st)
                 in st\<lparr>SUBSCRIBERS := (if cur_indicate then vec_push MAX_SUBSCRIBERS conn_handle subs else subs)\<rparr>)
              else st)
         | _ \<Rightarrow> st)"

definition server_hooks :: "sys_consts \<Rightarrow> 'a server_app_scheme mbuf_c \<Rightarrow> (BleUuid \<Rightarrow> BleUuid \<Rightarrow> bool) \<Rightarrow> 'a server_app_scheme app" where
  "server_hooks k mc ueq = \<lparr>app_host = (\<lambda>_. server_on_host_event), app_gap = (\<lambda>_. server_on_gap_event),
     app_gatts = (\<lambda>_. server_on_gatts_event k mc ueq), app_gattc = (\<lambda>_ _ st. st), app_l2cap = (\<lambda>_ _ st. (0, st))\<rparr>"

section \<open>Advertising and the loop\<close>

definition server_adv_fields :: BleAdvFields where
  "server_adv_fields = \<lparr>af_flags = 0x06, af_name = Some DEVICE_NAME, af_tx_power_level = None, af_appearance = None,
     af_service_data_uuid16 = None, af_manufacturer_data = None\<rparr>"

definition server_adv_params :: BleAdvParams where
  "server_adv_params = \<lparr>ap_conn_mode = 2, ap_disc_mode = 2, ap_itvl_min = 0x30, ap_itvl_max = 0x60, ap_channel_map = 0,
     ap_filter_policy = 0, ap_high_duty_cycle = False\<rparr>"

definition start_advertising :: "sys_consts \<Rightarrow> 's driver_c \<Rightarrow> 's gap_c \<Rightarrow> 's \<Rightarrow> unit ble_result \<times> 's" where
  "start_advertising k dc gc st =
     (case ble_address dc st of
        (Inl e, st1) \<Rightarrow> (Inl e, st1)
      | (Inr (_, own_addr_type), st1) \<Rightarrow>
     (case set_device_name k gc DEVICE_NAME st1 of
        (Inl e, st2) \<Rightarrow> (Inl e, st2)
      | (Inr _, st2) \<Rightarrow>
     (case adv_set_fields gc server_adv_fields st2 of
        (Inl e, st3) \<Rightarrow> (Inl e, st3)
      | (Inr _, st3) \<Rightarrow> adv_start k gc own_addr_type server_adv_params st3)))"

text \<open>Construction and subscriptions; a construction that fails panics.\<close>

definition server_start :: "ble_cfg \<Rightarrow> sys_consts \<Rightarrow> 'a server_app_scheme driver_c \<Rightarrow> ptr \<Rightarrow> ptr \<Rightarrow> ptr \<times> ptr \<times> ptr \<Rightarrow> parker_obj option \<Rightarrow>
    'a server_app_scheme \<Rightarrow> 'a server_app_scheme option" where
  "server_start cf k dc dflt defs = (\<lambda>(on_host, on_gap, on_gatts) pk st.
     case (case pk of
             Some p \<Rightarrow> Ble_new_with_services_and_parker cf k dc dflt defs p st
           | None \<Rightarrow> Ble_new_with_services cf k dc dflt defs st) of
       (Inl _, _) \<Rightarrow> None
     | (Inr _, st1) \<Rightarrow> Some (gatts_subscribe on_gatts (gap_subscribe on_gap (host_subscribe on_host st1))))"

text \<open>One round of the application loop, after its timer, with the counter.\<close>

definition server_round :: "sys_consts \<Rightarrow> 'a server_app_scheme driver_c \<Rightarrow> 'a server_app_scheme gap_c \<Rightarrow> 'a server_app_scheme mbuf_c \<Rightarrow>
    'a server_app_scheme gatts_c \<Rightarrow> u16 \<Rightarrow> 'a server_app_scheme \<Rightarrow> u16 \<times> 'a server_app_scheme" where
  "server_round k dc gc mc sc counter st =
     (let (needed, st1) = needs_adv_swap False st;
          st2 = (if needed then snd (start_advertising k dc gc st1) else st1);
          ind_handle = IND_VAL_HANDLE st2
      in if ind_handle = 0 then (counter, st2)
         else let counter = counter + 1
           in (counter, fold (\<lambda>conn st. snd (indicate k mc sc conn ind_handle (u16_to_le_bytes counter) st)) (SUBSCRIBERS st2) st2))"

section \<open>The set of subscribers\<close>

text \<open>What the C host reported about the indications of attribute \<open>h\<close>, as a set.\<close>

definition sub_step :: "sys_consts \<Rightarrow> AttrHandle \<Rightarrow> ble_gap_event \<Rightarrow> ConnHandle set \<Rightarrow> ConnHandle set" where
  "sub_step k h e S =
     (if (ucast (ge_type e) :: u32) = k BLE_GAP_EVENT_SUBSCRIBE \<and> es_attr_handle (ge_subscribe e) = h then
        (if es_cur_indicate (ge_subscribe e) \<noteq> 0 then insert (es_conn_handle (ge_subscribe e)) S
         else S - {es_conn_handle (ge_subscribe e)})
      else if (ucast (ge_type e) :: u32) = k BLE_GAP_EVENT_DISCONNECT then S - {ed_conn_handle (ge_disconnect e)}
      else S)"

definition handle_events :: "ble_cfg \<Rightarrow> sys_consts \<Rightarrow> 'a ble_state_scheme app \<Rightarrow> ble_gap_event list \<Rightarrow> 'a ble_state_scheme \<Rightarrow> 'a ble_state_scheme" where
  "handle_events cf k ap es st = fold (\<lambda>e st. snd (gap_event_cb cf k ap e st)) es st"

lemma filter_set: "set (filter (\<lambda>c. c \<noteq> x) xs) = set xs - {x}" by auto

lemma gap_event_disconnect:
  assumes "u8_codes k gap_event_consts"
  shows "(ucast (ge_type e) :: u32) = k BLE_GAP_EVENT_DISCONNECT \<Longrightarrow>
      GapEvent_from cf k e = Disconnect (ed_conn_handle (ge_disconnect e)) (BleError_new (ed_reason (ge_disconnect e)))"
    and "(ucast (ge_type e) :: u32) \<noteq> k BLE_GAP_EVENT_DISCONNECT \<Longrightarrow> GapEvent_from cf k e \<noteq> Disconnect c r"
proof -
  have "k BLE_GAP_EVENT_DISCONNECT \<noteq> k BLE_GAP_EVENT_CONNECT"
    using assms by (auto simp: u8_codes_def gap_event_consts_def)
  then show "(ucast (ge_type e) :: u32) = k BLE_GAP_EVENT_DISCONNECT \<Longrightarrow>
      GapEvent_from cf k e = Disconnect (ed_conn_handle (ge_disconnect e)) (BleError_new (ed_reason (ge_disconnect e)))"
    by (simp add: GapEvent_from_def Let_def)
  show "(ucast (ge_type e) :: u32) \<noteq> k BLE_GAP_EVENT_DISCONNECT \<Longrightarrow> GapEvent_from cf k e \<noteq> Disconnect c r"
    by (simp add: GapEvent_from_def Let_def)
qed

text \<open>
  What a server promises of its hooks: a disconnection removes the connection, a change of the
  subscription to the indications removes it and pushes it again if it is subscribed now, and
  nothing else that the driver reports as a GAP event touches the list or the registrations.
  \<open>push\<close> is that of its container, which takes an element when it \<open>fits\<close> those already there.
\<close>

definition hook_frame :: "'a server_app_scheme \<Rightarrow> 'a server_app_scheme \<Rightarrow> bool" where
  "hook_frame st st' \<longleftrightarrow> GAP_CALLBACK st' = GAP_CALLBACK st \<and> GATTS_CALLBACK st' = GATTS_CALLBACK st \<and> IND_VAL_HANDLE st' = IND_VAL_HANDLE st"

lemma hook_frame_refl [simp]: "hook_frame st st"
  by (simp add: hook_frame_def)

locale subscriber_hooks =
  fixes hooks :: "'a server_app_scheme app"
    and push :: "ConnHandle \<Rightarrow> ConnHandle list \<Rightarrow> ConnHandle list"
    and fits :: "nat \<Rightarrow> bool"
  assumes gap_hook: "SUBSCRIBERS (snd (app_gap hooks p event st)) =
      (case event of Disconnect c r \<Rightarrow> filter (\<lambda>x. x \<noteq> c) (SUBSCRIBERS st) | _ \<Rightarrow> SUBSCRIBERS st)"
    and gap_frame: "hook_frame st (snd (app_gap hooks p event st))"
    and sub_hook: "SUBSCRIBERS (snd (app_gatts hooks p (SubscriptionChanged c h reason pn cn pi ci) st)) =
      (if h = IND_VAL_HANDLE st then
         (let subs = filter (\<lambda>x. x \<noteq> c) (SUBSCRIBERS st) in if ci then push c subs else subs)
       else SUBSCRIBERS st)"
    and sub_frame: "hook_frame st (snd (app_gatts hooks p (SubscriptionChanged c h reason pn cn pi ci) st))"
    and tx_hook: "snd (app_gatts hooks p (NotifyComplete c h i status) st) = st"
    and gattc_hook: "app_gattc hooks p ev st = st"
    and push_new: "x \<notin> set xs \<Longrightarrow> push x xs \<in> {xs, xs @ [x]}"
    and push_fits: "fits (length xs) \<Longrightarrow> push x xs = xs @ [x]"
begin

lemma gap_event_subscribers:
  assumes "u8_codes k gap_event_consts" and "cf_peripheral cf" and "GAP_CALLBACK st \<noteq> None" and "GATTS_CALLBACK st \<noteq> None"
  shows "SUBSCRIBERS (snd (gap_event_cb cf k hooks e st)) =
      (if (ucast (ge_type e) :: u32) = k BLE_GAP_EVENT_SUBSCRIBE \<and> es_attr_handle (ge_subscribe e) = IND_VAL_HANDLE st then
         (let subs = filter (\<lambda>c. c \<noteq> es_conn_handle (ge_subscribe e)) (SUBSCRIBERS st)
          in if es_cur_indicate (ge_subscribe e) \<noteq> 0 then push (es_conn_handle (ge_subscribe e)) subs else subs)
       else if (ucast (ge_type e) :: u32) = k BLE_GAP_EVENT_DISCONNECT then filter (\<lambda>c. c \<noteq> ed_conn_handle (ge_disconnect e)) (SUBSCRIBERS st)
       else SUBSCRIBERS st) \<and>
    hook_frame st (snd (gap_event_cb cf k hooks e st))"
proof -
  obtain g where g: "GAP_CALLBACK st = Some g" using assms(3) by blast
  obtain s where s: "GATTS_CALLBACK st = Some s" using assms(4) by blast
  let ?t = "ucast (ge_type e) :: u32"
  let ?d = "k BLE_GAP_EVENT_DISCONNECT"
  have d: "?d \<noteq> k BLE_GAP_EVENT_SUBSCRIBE" "?d \<noteq> k BLE_GAP_EVENT_NOTIFY_TX" "?d \<noteq> k BLE_GAP_EVENT_NOTIFY_RX"
      "k BLE_GAP_EVENT_NOTIFY_TX \<noteq> k BLE_GAP_EVENT_SUBSCRIBE" "k BLE_GAP_EVENT_NOTIFY_RX \<noteq> k BLE_GAP_EVENT_SUBSCRIBE"
    using assms(1) by (auto simp: u8_codes_def gap_event_consts_def)
  consider (sub) "?t = k BLE_GAP_EVENT_SUBSCRIBE" | (tx) "?t = k BLE_GAP_EVENT_NOTIFY_TX"
    | (disc) "?t = ?d" | (other) "?t \<notin> {k BLE_GAP_EVENT_SUBSCRIBE, k BLE_GAP_EVENT_NOTIFY_TX, ?d}"
    by blast
  then show ?thesis
  proof cases
    case sub
    then show ?thesis using d(1) [symmetric] assms(2)
      by (simp add: gap_event_cb_def slot_defs s GattsEvent_from_gap_def sub_hook sub_frame Let_def)
  next
    case tx
    then show ?thesis using d(2) [symmetric] d(4) assms(2)
      by (simp add: gap_event_cb_def slot_defs s GattsEvent_from_gap_def tx_hook Let_def)
  next
    case disc
    then show ?thesis using d
      by (simp add: gap_event_cb_def slot_defs g gap_hook gap_frame gap_event_disconnect(1) [OF assms(1)])
  next
    case other
    have "SUBSCRIBERS (snd (app_gap hooks g (GapEvent_from cf k e) st)) = SUBSCRIBERS st"
      using gap_event_disconnect(2) [OF assms(1)] other by (simp add: gap_hook split: GapEvent.split)
    with other show ?thesis using d
      by (simp add: gap_event_cb_def slot_defs g gattc_hook gap_frame split: option.split)
  qed
qed

text \<open>The list follows the set of subscriptions, exactly as long as every new one fits.\<close>

lemma subs_step:
  assumes "u8_codes k gap_event_consts" "cf_peripheral cf" "GAP_CALLBACK st \<noteq> None" "GATTS_CALLBACK st \<noteq> None"
    and "IND_VAL_HANDLE st = h" and "distinct (SUBSCRIBERS st)" "set (SUBSCRIBERS st) \<subseteq> S"
  shows "distinct (SUBSCRIBERS (snd (gap_event_cb cf k hooks e st))) \<and>
    set (SUBSCRIBERS (snd (gap_event_cb cf k hooks e st))) \<subseteq> sub_step k h e S \<and>
    (set (SUBSCRIBERS st) = S \<longrightarrow> (\<forall>c. c < card (sub_step k h e S) \<longrightarrow> fits c) \<longrightarrow>
      set (SUBSCRIBERS (snd (gap_event_cb cf k hooks e st))) = sub_step k h e S)"
proof -
  have filt: "distinct (filter (\<lambda>c. c \<noteq> x) (SUBSCRIBERS st))" "set (filter (\<lambda>c. c \<noteq> x) (SUBSCRIBERS st)) \<subseteq> S - {x}" for x
    using assms(6,7) by auto
  have push: "distinct (push x (filter (\<lambda>c. c \<noteq> x) (SUBSCRIBERS st)))" "set (push x (filter (\<lambda>c. c \<noteq> x) (SUBSCRIBERS st))) \<subseteq> insert x S" for x
    using push_new [of x "filter (\<lambda>c. c \<noteq> x) (SUBSCRIBERS st)"] filt [of x] by auto
  have pushed: "set (push x (filter (\<lambda>c. c \<noteq> x) (SUBSCRIBERS st))) = insert x S"
    if "set (SUBSCRIBERS st) = S" "\<forall>c. c < card (insert x S) \<longrightarrow> fits c" for x
  proof -
    have "length (filter (\<lambda>c. c \<noteq> x) (SUBSCRIBERS st)) = card (S - {x})"
      using that(1) distinct_card [OF filt(1) [of x]] filter_set [of x "SUBSCRIBERS st"] by simp
    also have "\<dots> < card (insert x S)"
      by (rule psubset_card_mono) (use that(1) in auto)
    finally show ?thesis using that push_fits by auto
  qed
  let ?subs = "SUBSCRIBERS (snd (gap_event_cb cf k hooks e st))"
  note ev = gap_event_subscribers [OF assms(1-4), of e, THEN conjunct1, unfolded assms(5) Let_def]
  consider (on) x where "?subs = push x (filter (\<lambda>c. c \<noteq> x) (SUBSCRIBERS st))" "sub_step k h e S = insert x S"
    | (off) x where "?subs = filter (\<lambda>c. c \<noteq> x) (SUBSCRIBERS st)" "sub_step k h e S = S - {x}"
    | (same) "?subs = SUBSCRIBERS st" "sub_step k h e S = S"
    unfolding ev sub_step_def by presburger
  then show ?thesis
  proof cases
    case on
    then show ?thesis using push [of x] pushed [of x] by simp
  next
    case off
    then show ?thesis using filt [of x] by auto
  next
    case same
    then show ?thesis using assms(6,7) by simp
  qed
qed

lemma subs_refine:
  assumes "u8_codes k gap_event_consts" "cf_peripheral cf" "GAP_CALLBACK st \<noteq> None" "GATTS_CALLBACK st \<noteq> None"
    and "SUBSCRIBERS st = []"
  defines "spec \<equiv> \<lambda>es. fold (sub_step k (IND_VAL_HANDLE st)) es {}"
  shows "distinct (SUBSCRIBERS (handle_events cf k hooks es st)) \<and> set (SUBSCRIBERS (handle_events cf k hooks es st)) \<subseteq> spec es \<and>
    ((\<forall>n \<le> length es. \<forall>c < card (spec (take n es)). fits c) \<longrightarrow> set (SUBSCRIBERS (handle_events cf k hooks es st)) = spec es)"
proof -
  let ?st = "\<lambda>es. handle_events cf k hooks es st"
  have "hook_frame st (?st es) \<and> distinct (SUBSCRIBERS (?st es)) \<and> set (SUBSCRIBERS (?st es)) \<subseteq> spec es \<and>
      ((\<forall>n \<le> length es. \<forall>c < card (spec (take n es)). fits c) \<longrightarrow> set (SUBSCRIBERS (?st es)) = spec es)"
  proof (induction es rule: rev_induct)
    case Nil
    then show ?case using assms by (simp add: handle_events_def hook_frame_def)
  next
    case (snoc e es)
    have st': "?st (es @ [e]) = snd (gap_event_cb cf k hooks e (?st es))" and sp: "spec (es @ [e]) = sub_step k (IND_VAL_HANDLE st) e (spec es)"
      by (simp_all add: handle_events_def spec_def)
    have fit: "(\<forall>n \<le> length es. \<forall>c < card (spec (take n es)). fits c) \<and> (\<forall>c < card (spec (es @ [e])). fits c)"
      if all: "\<forall>n \<le> length (es @ [e]). \<forall>c < card (spec (take n (es @ [e]))). fits c"
    proof (intro conjI allI impI)
      show "fits c" if "n \<le> length es" "c < card (spec (take n es))" for n c
        using all [rule_format, of n c] that by simp
      show "fits c" if "c < card (spec (es @ [e]))" for c
        using all [rule_format, of "Suc (length es)" c] that by simp
    qed
    have cb: "GAP_CALLBACK (?st es) \<noteq> None" "GATTS_CALLBACK (?st es) \<noteq> None" "IND_VAL_HANDLE (?st es) = IND_VAL_HANDLE st"
      using snoc.IH assms(3,4) by (simp_all add: hook_frame_def)
    have dist: "distinct (SUBSCRIBERS (?st es))" and sub: "set (SUBSCRIBERS (?st es)) \<subseteq> spec es"
      and eq: "(\<forall>n \<le> length es. \<forall>c < card (spec (take n es)). fits c) \<longrightarrow> set (SUBSCRIBERS (?st es)) = spec es"
      using snoc.IH by blast+
    note step = subs_step [OF assms(1,2) cb dist sub, of e, folded st' sp]
    have frame: "hook_frame st (?st (es @ [e]))"
      using snoc.IH gap_event_subscribers [OF assms(1,2) cb(1,2), of e] unfolding st' hook_frame_def by simp
    show ?case
      using frame step eq fit by blast
  qed
  then show ?thesis by blast
qed

end

lemma vec_push_bound: "length xs \<le> cap \<Longrightarrow> length (vec_push cap x xs) \<le> cap"
  by (simp add: vec_push_def)

interpretation portable_server: subscriber_hooks "server_hooks k mc ueq" "vec_push MAX_SUBSCRIBERS" "\<lambda>n. n < MAX_SUBSCRIBERS" for k mc ueq
proof (unfold_locales, goal_cases)
  case (1 p event st)
  show ?case by (cases event) (simp_all add: server_hooks_def server_on_gap_event_def needs_adv_swap_def)
next
  case (2 st p event)
  show ?case by (cases event) (simp_all add: server_hooks_def server_on_gap_event_def needs_adv_swap_def hook_frame_def)
qed (simp_all add: server_hooks_def server_on_gatts_event_def hook_frame_def vec_push_def Let_def)

lemma subs_bounded:
  fixes st :: "'a server_app_scheme"
  assumes "u8_codes k gap_event_consts" "cf_peripheral cf" "GAP_CALLBACK st \<noteq> None" "GATTS_CALLBACK st \<noteq> None"
  shows "length (SUBSCRIBERS st) \<le> MAX_SUBSCRIBERS \<Longrightarrow>
    length (SUBSCRIBERS (handle_events cf k (server_hooks k mc ueq) es st)) \<le> MAX_SUBSCRIBERS"
  using assms(3,4)
proof (induction es arbitrary: st)
  case (Cons e es)
  let ?st = "snd (gap_event_cb cf k (server_hooks k mc ueq) e st)"
  note ev = portable_server.gap_event_subscribers [OF assms(1,2) Cons.prems(2,3), where e = e and mc = mc and ueq = ueq]
  have "length (SUBSCRIBERS ?st) \<le> MAX_SUBSCRIBERS"
    using ev Cons.prems(1) le_trans [OF length_filter_le] by (auto simp: Let_def intro!: vec_push_bound)
  moreover have "GAP_CALLBACK ?st \<noteq> None" "GATTS_CALLBACK ?st \<noteq> None"
    using ev Cons.prems(2,3) by (simp_all add: hook_frame_def)
  ultimately show ?case using Cons.IH [of ?st] by (simp add: handle_events_def)
qed (simp add: handle_events_def)

section \<open>Properties\<close>

text \<open>
  C34: the server's list of subscribers refines the set of connections the C host reported as
  subscribed to the indications. Whatever events the host reports, through the driver's trampoline
  and the hooks, the list has no duplicates, never exceeds its capacity and holds only connections
  that are subscribed and connected; it holds all of them as long as at most four were subscribed
  at any time.
\<close>

theorem subscribers_refine:
  fixes st :: "'a server_app_scheme"
  assumes "u8_codes k gap_event_consts" and "cf_peripheral cf"
    and "GAP_CALLBACK st \<noteq> None" and "GATTS_CALLBACK st \<noteq> None" and "SUBSCRIBERS st = []"
  shows "let subs = SUBSCRIBERS (handle_events cf k (server_hooks k mc ueq) es st);
             spec = (\<lambda>es. fold (sub_step k (IND_VAL_HANDLE st)) es {})
         in distinct subs \<and> length subs \<le> MAX_SUBSCRIBERS \<and> set subs \<subseteq> spec es \<and>
            ((\<forall>n \<le> length es. card (spec (take n es)) \<le> MAX_SUBSCRIBERS) \<longrightarrow> set subs = spec es)"
proof -
  have "length (SUBSCRIBERS (handle_events cf k (server_hooks k mc ueq) es st)) \<le> MAX_SUBSCRIBERS"
    using subs_bounded [OF assms(1-4), of mc ueq es] assms(5) by simp
  moreover have "\<forall>n \<le> length es. \<forall>c < card (fold (sub_step k (IND_VAL_HANDLE st)) (take n es) {}). c < MAX_SUBSCRIBERS"
    if "\<forall>n \<le> length es. card (fold (sub_step k (IND_VAL_HANDLE st)) (take n es) {}) \<le> MAX_SUBSCRIBERS"
    using that less_le_trans by blast
  ultimately show ?thesis
    using portable_server.subs_refine [OF assms, where es = es and mc = mc and ueq = ueq] by (simp add: Let_def)
qed

definition server_mem0 :: server_app where
  "server_mem0 = ble_state.extend (gatts_subscribe 3 (gap_subscribe 2 ble_mem0))
     \<lparr>SUBSCRIBERS = [], IND_VAL_HANDLE = 6, RECV_VAL_HANDLE = 3, NEEDS_ADV = False\<rparr>"

definition sub_event :: "u16 \<Rightarrow> bool \<Rightarrow> ble_gap_event" where
  "sub_event c on = zeroed_event\<lparr>ge_type := ucast (nimble_consts BLE_GAP_EVENT_SUBSCRIBE),
     ge_subscribe := (ge_subscribe zeroed_event)\<lparr>es_conn_handle := c, es_attr_handle := 6, es_cur_indicate := (if on then 1 else 0)\<rparr>\<rparr>"

theorem subscribers_refine_witness:
  "\<forall>mc. set (SUBSCRIBERS (handle_events all_features nimble_consts (server_hooks nimble_consts mc (=))
     [sub_event 1 True, sub_event 2 True, sub_event 1 False] server_mem0)) = {2}"
proof -
  have st: "GAP_CALLBACK server_mem0 \<noteq> None" "GATTS_CALLBACK server_mem0 \<noteq> None" "SUBSCRIBERS server_mem0 = []" "IND_VAL_HANDLE server_mem0 = 6"
    by (simp_all add: server_mem0_def ble_state.defs server_app.defs gap_subscribe_def gatts_subscribe_def slot_defs)
  have spec: "fold (sub_step nimble_consts 6) [sub_event 1 True, sub_event 2 True, sub_event 1 False] {} = {2}"
    "fold (sub_step nimble_consts 6) [sub_event 1 True, sub_event 2 True] {} = {1, 2}"
    "fold (sub_step nimble_consts 6) [sub_event 1 True] {} = {1}"
    by (auto simp: sub_step_def sub_event_def)
  have "\<forall>n \<le> 3. card (fold (sub_step nimble_consts 6) (take n [sub_event 1 True, sub_event 2 True, sub_event 1 False]) {}) \<le> MAX_SUBSCRIBERS"
    using spec by (auto simp: MAX_SUBSCRIBERS_def le_Suc_eq numeral_3_eq_3)
  moreover have "cf_peripheral all_features" by (simp add: all_features_def)
  ultimately show ?thesis
    using subscribers_refine [OF u8_codes_nimble(1) _ st(1-3), of all_features _ "(=)" "[sub_event 1 True, sub_event 2 True, sub_event 1 False]"]
      spec(1) st(4) by (auto simp: Let_def)
qed

end
