(* ===== verification/Example_Client.thy ===== *)
theory Example_Client
  imports Example_Server
begin

text \<open>
  The portable GATT client and scanner scenarios (\<open>examples/app/src/gatt_client.rs\<close>,
  \<open>scanner.rs\<close>): the search of an advertising payload for the name of the server, the hooks, and
  the tasks as state machines. A phase is the place where a task waits; a step is the code from
  there to the next wait, \<open>None\<close> when it panics. Logging is left out.
\<close>

section \<open>State and hooks\<close>

record client_app = ble_state +
  SYNCED :: bool
  PEER :: "BleAddr option"
  CONN :: ConnHandle
  CONNECTED :: bool
  DISCONNECTED :: bool
  SVC_RANGE :: "(AttrHandle \<times> AttrHandle) option"
  SVC_DONE :: bool
  RECV_VAL :: AttrHandle
  IND_VAL :: AttrHandle
  CHR_DONE :: bool

definition client_on_host_event :: "HostEvent \<Rightarrow> 'a client_app_scheme \<Rightarrow> 'a client_app_scheme" where
  "client_on_host_event event st = (if event = Sync then st\<lparr>SYNCED := True\<rparr> else st)"

text \<open>The loop over the structures of an advertising payload: a length, a type, the data. The
  scenarios have a copy each, which differ in the name they look for.\<close>

function adv_scan :: "bytes \<Rightarrow> bytes \<Rightarrow> bool" where
  "adv_scan name [] = False"
| "adv_scan name [l] = False"
| "adv_scan name (l # ad_type # rest) =
     (let len = unat l
      in if len = 0 \<or> length (l # ad_type # rest) < 1 + len then False
         else if ad_type = 0x09 \<and> take (1 + len - 2) rest = name then True
         else adv_scan name (drop (1 + len) (l # ad_type # rest)))"
  by pat_completeness auto

termination by (relation "measure (length \<circ> snd)") auto

definition adv_has_name :: "bytes \<Rightarrow> bool" where
  "adv_has_name data = adv_scan DEVICE_NAME data"

definition client_on_gap_event :: "GapEvent \<Rightarrow> 'a client_app_scheme \<Rightarrow> c_int \<times> 'a client_app_scheme" where
  "client_on_gap_event event st =
     (0, case event of
           Discovery event_type addr rssi data \<Rightarrow>
             (if adv_has_name data \<and> PEER st = None then st\<lparr>PEER := Some addr\<rparr> else st)
         | Connect conn_handle status \<Rightarrow> st\<lparr>CONN := conn_handle, CONNECTED := True\<rparr>
         | Disconnect conn_handle reason \<Rightarrow> st\<lparr>DISCONNECTED := True\<rparr>
         | _ \<Rightarrow> st)"

definition client_on_gattc_event :: "sys_consts \<Rightarrow> 'a client_app_scheme mbuf_c \<Rightarrow> (BleUuid \<Rightarrow> BleUuid \<Rightarrow> bool) \<Rightarrow> GattcEvent \<Rightarrow>
    'a client_app_scheme \<Rightarrow> 'a client_app_scheme" where
  "client_on_gattc_event k mc ueq event st =
     (case event of
        GattcServiceEvent conn_handle status service \<Rightarrow>
          (case service of
             Some svc \<Rightarrow>
               (if ueq (gv_uuid svc) (SERVICE_UUID k) then st\<lparr>SVC_RANGE := Some (gv_start_handle svc, gv_end_handle svc)\<rparr> else st)
           | None \<Rightarrow> st\<lparr>SVC_DONE := True\<rparr>)
      | GattcCharacteristic conn_handle status chr \<Rightarrow>
          (case chr of
             Some c \<Rightarrow>
               (if ueq (gr_uuid c) (RECV_CHARACTERISTIC_UUID k) then st\<lparr>RECV_VAL := gr_val_handle c\<rparr>
                else if ueq (gr_uuid c) (IND_CHARACTERISTIC_UUID k) then st\<lparr>IND_VAL := gr_val_handle c\<rparr>
                else st)
           | None \<Rightarrow> st\<lparr>CHR_DONE := True\<rparr>)
      | GattcNotify conn_handle attr_handle indication data \<Rightarrow> snd (snd (Mbuf_read mc data (replicate 64 0) st))
      | _ \<Rightarrow> st)"

definition client_hooks :: "sys_consts \<Rightarrow> 'a client_app_scheme mbuf_c \<Rightarrow> (BleUuid \<Rightarrow> BleUuid \<Rightarrow> bool) \<Rightarrow> 'a client_app_scheme app" where
  "client_hooks k mc ueq = \<lparr>app_host = (\<lambda>_. client_on_host_event), app_gap = (\<lambda>_. client_on_gap_event),
     app_gatts = (\<lambda>_ _ st. (0, st)), app_gattc = (\<lambda>_. client_on_gattc_event k mc ueq), app_l2cap = (\<lambda>_ _ st. (0, st))\<rparr>"

section \<open>The task of the client\<close>

definition client_start :: "ble_cfg \<Rightarrow> sys_consts \<Rightarrow> 'a client_app_scheme driver_c \<Rightarrow> ptr \<Rightarrow> ptr \<times> ptr \<times> ptr \<Rightarrow> parker_obj option \<Rightarrow>
    'a client_app_scheme \<Rightarrow> 'a client_app_scheme option" where
  "client_start cf k dc dflt = (\<lambda>(on_host, on_gap, on_gattc) pk st.
     case (case pk of Some p \<Rightarrow> Ble_new_with_parker cf k dc dflt p st | None \<Rightarrow> Ble_new cf k dc dflt st) of
       (Inl _, _) \<Rightarrow> None
     | (Inr _, st1) \<Rightarrow> Some (gattc_subscribe on_gattc (gap_subscribe on_gap (host_subscribe on_host st1))))"

datatype client_phase =
    WaitSync
  | WaitPeer u8
  | WaitConnected
  | WaitServices ConnHandle
  | WaitCharacteristics ConnHandle
  | WaitSecond ConnHandle AttrHandle u32

definition default_disc_params :: BleDiscParams where
  "default_disc_params = \<lparr>dp_itvl = 0, dp_window = 0, dp_filter_policy = 0, dp_limited = False, dp_passive = False,
     dp_filter_duplicates = False\<rparr>"

text \<open>The head of the write loop: when the server is gone the task ends, which is a panic.\<close>

definition write_loop :: "ConnHandle \<Rightarrow> AttrHandle \<Rightarrow> u32 \<Rightarrow> 'a client_app_scheme \<Rightarrow> (client_phase \<times> 'a client_app_scheme) option" where
  "write_loop conn recv counter st = (if DISCONNECTED st then None else Some (WaitSecond conn recv counter, st))"

fun client_step :: "bool \<Rightarrow> 'a client_app_scheme driver_c \<Rightarrow> 'a client_app_scheme gap_c \<Rightarrow> 'a client_app_scheme gattc_c \<Rightarrow> client_phase \<Rightarrow>
    'a client_app_scheme \<Rightarrow> (client_phase \<times> 'a client_app_scheme) option" where
  "client_step checks dc gc cc WaitSync st =
     (if \<not> SYNCED st then Some (WaitSync, st)
      else case ble_address dc st of
          (Inl _, _) \<Rightarrow> None
        | (Inr (_, own_addr_type), st1) \<Rightarrow>
            (case disc gc own_addr_type None default_disc_params st1 of
               (Inl _, _) \<Rightarrow> None
             | (Inr _, st2) \<Rightarrow> Some (WaitPeer own_addr_type, st2)))"
| "client_step checks dc gc cc (WaitPeer own_addr_type) st =
     (if PEER st = None then Some (WaitPeer own_addr_type, st)
      else let st1 = snd (disc_cancel gc st)
        in case PEER st1 of
             None \<Rightarrow> None
           | Some peer \<Rightarrow>
               (case connect cc own_addr_type peer st1 of
                  (Inl _, _) \<Rightarrow> None
                | (Inr _, st2) \<Rightarrow> Some (WaitConnected, st2)))"
| "client_step checks dc gc cc WaitConnected st =
     (if \<not> CONNECTED st then Some (WaitConnected, st)
      else let conn = CONN st
        in case discover_services cc conn st of
             (Inl _, _) \<Rightarrow> None
           | (Inr _, st1) \<Rightarrow> Some (WaitServices conn, st1))"
| "client_step checks dc gc cc (WaitServices conn) st =
     (if \<not> SVC_DONE st then Some (WaitServices conn, st)
      else case SVC_RANGE st of
          None \<Rightarrow> None
        | Some (start, end_handle) \<Rightarrow>
            (case discover_characteristics cc conn start end_handle st of
               (Inl _, _) \<Rightarrow> None
             | (Inr _, st1) \<Rightarrow> Some (WaitCharacteristics conn, st1)))"
| "client_step checks dc gc cc (WaitCharacteristics conn) st =
     (if \<not> CHR_DONE st then Some (WaitCharacteristics conn, st)
      else let recv = RECV_VAL st; ind = IND_VAL st
        in if recv = 0 \<or> ind = 0 then None
           else do {
             cccd \<leftarrow> rust_inc checks ind;
             case gattc_write cc conn cccd [0x02, 0x00] st of
               (Inl _, _) \<Rightarrow> None
             | (Inr _, st1) \<Rightarrow> write_loop conn recv 0 st1
           })"
| "client_step checks dc gc cc (WaitSecond conn recv counter) st =
     (let counter = counter + 1
      in write_loop conn recv counter (snd (gattc_write cc conn recv (to_le_bytes 4 counter) st)))"

section \<open>The scanner\<close>

record scanner_app = ble_state +
  SC_SYNCED :: bool
  ROUND_DONE :: bool

definition scanner_on_host_event :: "HostEvent \<Rightarrow> 'a scanner_app_scheme \<Rightarrow> 'a scanner_app_scheme" where
  "scanner_on_host_event event st = (if event = Sync then st\<lparr>SC_SYNCED := True\<rparr> else st)"

definition scanner_on_gap_event :: "GapEvent \<Rightarrow> 'a scanner_app_scheme \<Rightarrow> c_int \<times> 'a scanner_app_scheme" where
  "scanner_on_gap_event event st = (0, case event of DiscoveryComplete reason \<Rightarrow> st\<lparr>ROUND_DONE := True\<rparr> | _ \<Rightarrow> st)"

definition scanner_start :: "ble_cfg \<Rightarrow> sys_consts \<Rightarrow> 'a scanner_app_scheme driver_c \<Rightarrow> ptr \<Rightarrow> ptr \<times> ptr \<Rightarrow> parker_obj option \<Rightarrow>
    'a scanner_app_scheme \<Rightarrow> 'a scanner_app_scheme option" where
  "scanner_start cf k dc dflt = (\<lambda>(on_host, on_gap) pk st.
     case (case pk of Some p \<Rightarrow> Ble_new_with_parker cf k dc dflt p st | None \<Rightarrow> Ble_new cf k dc dflt st) of
       (Inl _, _) \<Rightarrow> None
     | (Inr _, st1) \<Rightarrow> Some (gap_subscribe on_gap (host_subscribe on_host st1)))"

datatype scanner_phase = ScanWaitSync | ScanRound u8

definition scan_round :: "'a scanner_app_scheme gap_c \<Rightarrow> u8 \<Rightarrow> 'a scanner_app_scheme \<Rightarrow> (scanner_phase \<times> 'a scanner_app_scheme) option" where
  "scan_round gc own_addr_type st =
     (case disc gc own_addr_type (Some 10000) (default_disc_params\<lparr>dp_passive := False, dp_filter_duplicates := True\<rparr>)
        (st\<lparr>ROUND_DONE := False\<rparr>) of
        (Inl _, _) \<Rightarrow> None
      | (Inr _, st1) \<Rightarrow> Some (ScanRound own_addr_type, st1))"

fun scanner_step :: "'a scanner_app_scheme driver_c \<Rightarrow> 'a scanner_app_scheme gap_c \<Rightarrow> scanner_phase \<Rightarrow> 'a scanner_app_scheme \<Rightarrow>
    (scanner_phase \<times> 'a scanner_app_scheme) option" where
  "scanner_step dc gc ScanWaitSync st =
     (if \<not> SC_SYNCED st then Some (ScanWaitSync, st)
      else case ble_address dc st of
          (Inl _, _) \<Rightarrow> None
        | (Inr (_, own_addr_type), st1) \<Rightarrow> scan_round gc own_addr_type st1)"
| "scanner_step dc gc (ScanRound own_addr_type) st =
     (if \<not> ROUND_DONE st then Some (ScanRound own_addr_type, st) else scan_round gc own_addr_type st)"

section \<open>Advertising payloads\<close>

text \<open>An advertising payload as the Bluetooth specification has it: structures of a type and data.\<close>

definition ad_struct :: "u8 \<times> bytes \<Rightarrow> bytes" where
  "ad_struct = (\<lambda>(t, v). word_of_nat (length v + 1) # t # v)"

definition ad_payload :: "(u8 \<times> bytes) list \<Rightarrow> bytes" where
  "ad_payload ads = concat (map ad_struct ads)"

definition ad_ok :: "(u8 \<times> bytes) list \<Rightarrow> bool" where
  "ad_ok ads \<longleftrightarrow> (\<forall>(t, v) \<in> set ads. length v < 255)"

lemma ad_struct_len: "length v < 255 \<Longrightarrow> unat (word_of_nat (length v + 1) :: u8) = length v + 1"
  by (simp add: unat_of_nat del: of_nat_add of_nat_Suc)

lemma adv_scan_struct:
  "length v < 255 \<Longrightarrow> adv_scan name (ad_struct (t, v) @ rest) \<longleftrightarrow> (t = 0x09 \<and> v = name) \<or> adv_scan name rest"
  using ad_struct_len [of v] by (auto simp: ad_struct_def Let_def simp del: of_nat_add of_nat_Suc)

lemma adv_scan_payload:
  "ad_ok ads \<Longrightarrow> adv_scan name (ad_payload ads @ rest) \<longleftrightarrow> (0x09, name) \<in> set ads \<or> adv_scan name rest"
  by (induction ads) (auto simp: ad_ok_def ad_payload_def adv_scan_struct)

lemma adv_scan_found:
  "adv_scan name data \<Longrightarrow> \<exists>ads tail. ad_ok ads \<and> data = ad_payload ads @ tail \<and> (0x09, name) \<in> set ads"
proof (induction name data rule: adv_scan.induct)
  case (3 name l t rest)
  let ?n = "unat l"
  have n: "?n \<noteq> 0" "1 + ?n \<le> length (l # t # rest)" using 3 by (auto simp: Let_def split: if_splits)
  define v where "v = take (?n - 1) rest"
  have "?n < 256" using unsigned_less [where 'a = nat, of l] by simp
  then have len: "length v + 1 = ?n" "length v < 255" using n by (auto simp: v_def min_def)
  define d where "d = drop (1 + ?n) (l # t # rest)"
  have split: "l # t # rest = ad_struct (t, v) @ d"
    using n len(1) by (simp add: ad_struct_def v_def d_def) (metis Suc_pred append_take_drop_id drop_Suc_Cons not_gr_zero)
  show ?case
  proof (cases "t = 0x09 \<and> v = name")
    case True
    then show ?thesis unfolding split using len
      by (intro exI [of _ "[(t, v)]"] exI [of _ d]) (simp add: ad_ok_def ad_payload_def)
  next
    case False
    have "adv_scan name d" using "3.prems" n False by (auto simp: Let_def v_def d_def split: if_splits)
    with "3.IH" [OF refl] n False obtain ads tail where "ad_ok ads" "d = ad_payload ads @ tail" "(0x09, name) \<in> set ads"
      by (auto simp: v_def d_def)
    then show ?thesis unfolding split using len
      by (intro exI [of _ "(t, v) # ads"] exI [of _ tail]) (simp add: ad_ok_def ad_payload_def)
  qed
qed simp_all

section \<open>Properties\<close>

text \<open>
  C38: the search of a payload for a name, which the client and its hosted relatives share,
  returns, and finds the name exactly when the payload starts with well-formed structures of
  which one is that name as complete local name; a zero length, a truncated structure and
  whatever follows them are never read as a name.
\<close>

theorem adv_scan_iff:
  "adv_scan name data \<longleftrightarrow>
     (\<exists>ads tail. ad_ok ads \<and> data = ad_payload ads @ tail \<and> (0x09, name) \<in> set ads)"
  using adv_scan_found [of name data] adv_scan_payload by blast

text \<open>
  C35: the client finds the server. If the C host encodes flags and a complete name into a payload
  of those two structures, then a report of the server's advertisement, through the trampoline
  and the hook, makes its sender the peer of a client that has none.
\<close>

theorem client_finds_server:
  fixes st :: "'a client_app_scheme"
  assumes "u8_codes k gap_event_consts" "u8_codes k ioact_consts" and "GAP_CALLBACK st \<noteq> None" and "PEER st = None"
    and "\<And>flags name. length name \<le> 26 \<Longrightarrow>
      enc (zeroed_adv_fields\<lparr>raw_flags := flags, raw_name := Some name, raw_name_len := as_u8 (length name), raw_name_is_complete := 1\<rparr>) =
        ad_payload [(0x01, [flags]), (0x09, name)]"
  shows "PEER (snd (gap_event_cb cf k (client_hooks k mc ueq)
    (report k (Discovery event_type addr rssi (enc (adv_fields_from server_adv_fields))) raw) st)) = Some addr"
proof -
  have "enc (adv_fields_from server_adv_fields) = ad_payload [(0x01, [0x06]), (0x09, DEVICE_NAME)]"
    using assms(5) [of DEVICE_NAME "0x06"] by (simp add: adv_fields_from_def server_adv_fields_def DEVICE_NAME_def)
  moreover have named: "adv_has_name (ad_payload [(0x01, [0x06]), (0x09, DEVICE_NAME)])"
    using adv_scan_payload [of "[(0x01, [0x06]), (0x09, DEVICE_NAME)]" DEVICE_NAME "[]"] by (simp add: adv_has_name_def ad_ok_def DEVICE_NAME_def)
  moreover have "reportable cf k (Discovery event_type addr rssi (ad_payload [(0x01, [0x06]), (0x09, DEVICE_NAME)]))"
    by (simp add: ad_payload_def ad_struct_def DEVICE_NAME_def)
  ultimately have "gap_event_cb cf k (client_hooks k mc ueq)
      (report k (Discovery event_type addr rssi (enc (adv_fields_from server_adv_fields))) raw) st =
      client_on_gap_event (Discovery event_type addr rssi (ad_payload [(0x01, [0x06]), (0x09, DEVICE_NAME)])) st"
    using assms(3) gap_event_cb_report [OF assms(1,2), of cf _ "client_hooks k mc ueq" raw st]
    by (auto simp: client_hooks_def simp del: report.simps)
  with named assms(4) show ?thesis by (simp add: client_on_gap_event_def)
qed

definition demo_enc :: "ble_hs_adv_fields \<Rightarrow> bytes" where
  "demo_enc raw = ad_payload ([(0x01, [raw_flags raw])] @ (case raw_name raw of None \<Rightarrow> [] | Some n \<Rightarrow> [(0x09, n)]))"

definition client_mem0 :: client_app where
  "client_mem0 = ble_state.extend (gap_subscribe 2 ble_mem0)
     \<lparr>SYNCED = True, PEER = None, CONN = 0, CONNECTED = False, DISCONNECTED = False, SVC_RANGE = None, SVC_DONE = False,
       RECV_VAL = 0, IND_VAL = 0, CHR_DONE = False\<rparr>"

lemma client_mem0_simps [simp]:
  "GAP_CALLBACK client_mem0 = Some 2" "PEER client_mem0 = None" "\<not> DISCONNECTED client_mem0"
  by (simp_all add: client_mem0_def ble_state.defs client_app.defs gap_subscribe_def slot_defs)

theorem client_finds_server_witness:
  "\<forall>mc. PEER (snd (gap_event_cb all_features nimble_consts (client_hooks nimble_consts mc (=))
     (report nimble_consts (Discovery 0 (BleAddr_new 1 [1, 2, 3, 4, 5, 6]) 0 (demo_enc (adv_fields_from server_adv_fields))) zeroed_event)
     client_mem0)) = Some (BleAddr_new 1 [1, 2, 3, 4, 5, 6])"
proof
  fix mc
  show "PEER (snd (gap_event_cb all_features nimble_consts (client_hooks nimble_consts mc (=))
     (report nimble_consts (Discovery 0 (BleAddr_new 1 [1, 2, 3, 4, 5, 6]) 0 (demo_enc (adv_fields_from server_adv_fields))) zeroed_event)
     client_mem0)) = Some (BleAddr_new 1 [1, 2, 3, 4, 5, 6])"
    by (rule client_finds_server [OF u8_codes_nimble]) (simp_all add: demo_enc_def)
qed

text \<open>The hook over the items of a characteristic discovery.\<close>

lemma chr_items_fold:
  fixes st :: "'a client_app_scheme"
  assumes "\<And>c. c \<in> set chrs \<Longrightarrow> ueq (from_raw k (gch_uuid c)) (RECV_CHARACTERISTIC_UUID k) \<longleftrightarrow> c = r"
    and "\<And>c. c \<in> set chrs \<Longrightarrow> ueq (from_raw k (gch_uuid c)) (IND_CHARACTERISTIC_UUID k) \<longleftrightarrow> c = i" and "r \<noteq> i"
  shows "let st' = fold (\<lambda>c st. snd (disc_chr_cb k (Some (client_on_gattc_event k mc ueq)) conn None (Some c) st)) chrs st
    in RECV_VAL st' = (if r \<in> set chrs then gch_val_handle r else RECV_VAL st) \<and>
       IND_VAL st' = (if i \<in> set chrs then gch_val_handle i else IND_VAL st)"
  using assms(1,2)
proof (induction chrs arbitrary: st)
  case (Cons c chrs)
  let ?st = "snd (disc_chr_cb k (Some (client_on_gattc_event k mc ueq)) conn None (Some c) st)"
  have "RECV_VAL ?st = (if c = r then gch_val_handle r else RECV_VAL st)" "IND_VAL ?st = (if c = i then gch_val_handle i else IND_VAL st)"
    using Cons.prems [of c] assms(3)
    by (auto simp: disc_chr_cb_def gattc_deliver_def client_on_gattc_event_def GattcChr_from_def)
  moreover have "\<And>c'. c' \<in> set chrs \<Longrightarrow> ueq (from_raw k (gch_uuid c')) (RECV_CHARACTERISTIC_UUID k) \<longleftrightarrow> c' = r"
    "\<And>c'. c' \<in> set chrs \<Longrightarrow> ueq (from_raw k (gch_uuid c')) (IND_CHARACTERISTIC_UUID k) \<longleftrightarrow> c' = i"
    using Cons.prems by auto
  note Cons.IH [OF this, of ?st]
  ultimately show ?case by (auto simp: Let_def)
qed simp

text \<open>
  C36: the client subscribes to the right attribute. When the service of the peer has one
  characteristic with each of the two UUIDs, then after their discovery the client knows their
  value handles, and its next step writes the value 2 to the descriptor right behind the value
  of the indicated one and starts to write to the other.
\<close>

theorem client_subscribes:
  fixes st :: "'a client_app_scheme"
  assumes "r \<in> set chrs" "i \<in> set chrs" "r \<noteq> i" and "gch_val_handle r \<noteq> 0" "gch_val_handle i \<noteq> 0" "gch_val_handle i \<noteq> - 1"
    and "\<And>c. c \<in> set chrs \<Longrightarrow> ueq (from_raw k (gch_uuid c)) (RECV_CHARACTERISTIC_UUID k) \<longleftrightarrow> c = r"
    and "\<And>c. c \<in> set chrs \<Longrightarrow> ueq (from_raw k (gch_uuid c)) (IND_CHARACTERISTIC_UUID k) \<longleftrightarrow> c = i"
    and "st1 = discovery (disc_chr_cb k (Some (client_on_gattc_event k mc ueq)) conn) chrs final st"
    and "cc_write_flat cc conn (gch_val_handle i + 1) [2, 0] (Some Write_cb) st1 = (0, st2)" and "\<not> DISCONNECTED st2"
  shows "RECV_VAL st1 = gch_val_handle r \<and> IND_VAL st1 = gch_val_handle i \<and> CHR_DONE st1 \<and>
    client_step checks dc gc cc (WaitCharacteristics conn) st1 = Some (WaitSecond conn (gch_val_handle r) 0, st2)"
proof -
  let ?items = "fold (\<lambda>c st. snd (disc_chr_cb k (Some (client_on_gattc_event k mc ueq)) conn None (Some c) st)) chrs st"
  have fin: "st1 = ?items\<lparr>CHR_DONE := True\<rparr>"
    by (simp add: assms(9) discovery_def disc_chr_cb_def gattc_deliver_def client_on_gattc_event_def)
  have vals: "RECV_VAL st1 = gch_val_handle r" "IND_VAL st1 = gch_val_handle i" "CHR_DONE st1"
    using chr_items_fold [where chrs = chrs and k = k and ueq = ueq and mc = mc and conn = conn and st = st, OF assms(7,8,3)] assms(1,2)
    by (simp_all add: fin Let_def)
  then show ?thesis
    using assms(4-6,10,11) by (simp add: gattc_write_def c_view_def as_u16_def checked_def BleError_check_def write_loop_def)
qed

definition demo_chr :: "u16 \<Rightarrow> BleUuid \<Rightarrow> ble_gatt_chr" where
  "demo_chr h u = \<lparr>gch_def_handle = h - 1, gch_val_handle = h, gch_properties = 0, gch_uuid = as_ptr 0 u\<rparr>"

definition demo_gattc :: "'a client_app_scheme gattc_c" where
  "demo_gattc = \<lparr>cc_gap_connect = (\<lambda>_ _ _ _ st. (0, st)), cc_gap_terminate = (\<lambda>_ _ st. (0, st)), cc_disc_all_svcs = (\<lambda>_ _ st. (0, st)),
     cc_disc_all_chrs = (\<lambda>_ _ _ _ st. (0, st)), cc_read = (\<lambda>_ _ _ st. (0, st)),
     cc_write_flat = (\<lambda>_ h _ _ st. (0, st\<lparr>woken := woken st @ [unat h], DISCONNECTED := False\<rparr>)), cc_write_no_rsp_flat = (\<lambda>_ _ _ st. (0, st))\<rparr>"

lemma recv_ind_differ: "RECV_CHARACTERISTIC_UUID k \<noteq> IND_CHARACTERISTIC_UUID k"
  by (simp add: RECV_CHARACTERISTIC_UUID_def IND_CHARACTERISTIC_UUID_def uuid128_def to_le_bytes_def upt_rec)

theorem client_subscribes_witness:
  "\<forall>mc dc gc. \<exists>st2. client_step True dc gc demo_gattc (WaitCharacteristics 1)
      (discovery (disc_chr_cb nimble_consts (Some (client_on_gattc_event nimble_consts mc (=))) 1)
        [demo_chr 3 (RECV_CHARACTERISTIC_UUID nimble_consts), demo_chr 5 (IND_CHARACTERISTIC_UUID nimble_consts)] 14 client_mem0) =
    Some (WaitSecond 1 3 0, st2)"
proof (intro allI)
  fix mc :: "client_app mbuf_c" and dc :: "client_app driver_c" and gc :: "client_app gap_c"
  let ?R = "RECV_CHARACTERISTIC_UUID nimble_consts" and ?I = "IND_CHARACTERISTIC_UUID nimble_consts"
  let ?st1 = "discovery (disc_chr_cb nimble_consts (Some (client_on_gattc_event nimble_consts mc (=))) 1) [demo_chr 3 ?R, demo_chr 5 ?I] 14 client_mem0"
  let ?st2 = "?st1\<lparr>woken := woken ?st1 @ [6], DISCONNECTED := False\<rparr>"
  have raw: "from_raw nimble_consts (as_ptr 0 ?R) = ?R" "from_raw nimble_consts (as_ptr 0 ?I) = ?I"
    unfolding RECV_CHARACTERISTIC_UUID_def IND_CHARACTERISTIC_UUID_def
    by (rule from_raw_as_ptr [OF uuid_types_nimble uuid_ok_new(2)])+
  have vals: "gch_val_handle (demo_chr h u) = h" "gch_uuid (demo_chr h u) = as_ptr 0 u" for h u by (simp_all add: demo_chr_def)
  have differ: "demo_chr 3 ?R \<noteq> demo_chr 5 ?I" by (simp add: demo_chr_def)
  have "RECV_VAL ?st1 = gch_val_handle (demo_chr 3 ?R) \<and> IND_VAL ?st1 = gch_val_handle (demo_chr 5 ?I) \<and> CHR_DONE ?st1 \<and>
    client_step True dc gc demo_gattc (WaitCharacteristics 1) ?st1 = Some (WaitSecond 1 (gch_val_handle (demo_chr 3 ?R)) 0, ?st2)"
  proof (rule client_subscribes [where chrs = "[demo_chr 3 ?R, demo_chr 5 ?I]" and ueq = "(=)" and k = nimble_consts])
    show "cc_write_flat demo_gattc 1 (gch_val_handle (demo_chr 5 ?I) + 1) [2, 0] (Some Write_cb) ?st1 = (0, ?st2)"
      by (simp add: vals demo_gattc_def)
  qed (use differ recv_ind_differ [of nimble_consts] raw in \<open>auto simp: vals\<close>)
  then have "client_step True dc gc demo_gattc (WaitCharacteristics 1) ?st1 = Some (WaitSecond 1 3 0, ?st2)"
    by (simp only: vals)
  then show "\<exists>st2. client_step True dc gc demo_gattc (WaitCharacteristics 1) ?st1 = Some (WaitSecond 1 3 0, st2)" ..
qed

end
