(* ===== verification/Linux_Transport.thy ===== *)
theory Linux_Transport
  imports Ble_Types
begin

text \<open>
  The HCI-socket transport of the hosted examples (\<open>examples/std/src/linux.rs\<close>): opening a user
  channel on an HCI device, reading and writing whole packets. The C library and \<open>async-io\<close> are
  the record \<open>libc\<close> on an operating-system state \<open>'s\<close>; the parsers of \<open>bt-hci\<close> are the record
  \<open>hci_codec\<close>. A panic is \<open>None\<close>.
\<close>

section \<open>The environment\<close>

record sockaddr_hci =
  hci_family :: u16
  hci_dev :: u16
  hci_channel :: u16

text \<open>
  \<open>os_read fd n\<close> returns the value of \<open>read\<close> and the bytes it stored at the start of the
  buffer of \<open>n\<close> bytes. \<open>os_async_new\<close> takes over the descriptor; \<open>os_read_with\<close> and
  \<open>os_write_with\<close> run an operation when the descriptor is ready.
\<close>

record 's libc =
  AF_BLUETOOTH :: int
  SOCK_RAW :: int
  SOCK_CLOEXEC :: int
  SOCK_NONBLOCK :: int
  os_socket :: "int \<Rightarrow> int \<Rightarrow> int \<Rightarrow> 's \<Rightarrow> int \<times> 's"
  os_bind :: "int \<Rightarrow> sockaddr_hci \<Rightarrow> nat \<Rightarrow> 's \<Rightarrow> int \<times> 's"
  os_close :: "int \<Rightarrow> 's \<Rightarrow> 's"
  os_errno :: "'s \<Rightarrow> int"
  os_read :: "int \<Rightarrow> nat \<Rightarrow> 's \<Rightarrow> int \<times> bytes \<times> 's"
  os_write :: "int \<Rightarrow> bytes \<Rightarrow> 's \<Rightarrow> int \<times> 's"
  os_async_new :: "int \<Rightarrow> 's \<Rightarrow> (int + unit) \<times> 's"
  os_read_with :: "int \<Rightarrow> ('s \<Rightarrow> (int + nat) \<times> bytes \<times> 's) \<Rightarrow> 's \<Rightarrow> (int + nat) \<times> bytes \<times> 's"
  os_write_with :: "int \<Rightarrow> ('s \<Rightarrow> (int + nat) \<times> 's) \<Rightarrow> 's \<Rightarrow> (int + nat) \<times> 's"

record ('kind, 'p, 'q, 'e) hci_codec =
  kind_read :: "bytes \<Rightarrow> 'e + ('kind \<times> bytes)"
  packet_read :: "'kind \<Rightarrow> bytes \<Rightarrow> bytes \<Rightarrow> 'e + 'p"
  with_indicator :: "'q \<Rightarrow> bytes option"

section \<open>The transport\<close>

datatype 'e transport_error = ReadHci 'e | Io int

definition BTPROTO_HCI :: int where "BTPROTO_HCI = 1"

definition HCI_CHANNEL_USER :: u16 where "HCI_CHANNEL_USER = 1"

definition sockaddr_size :: nat where "sockaddr_size = 6"

definition hci_addr :: "'s libc \<Rightarrow> u16 \<Rightarrow> sockaddr_hci" where
  "hci_addr l dev = \<lparr>hci_family = word_of_int (AF_BLUETOOTH l), hci_dev = dev, hci_channel = HCI_CHANNEL_USER\<rparr>"

text \<open>\<open>Transport::new\<close>; an \<open>OwnedFd\<close> that goes out of scope is closed, after the error was read.\<close>

definition Transport_new :: "'s libc \<Rightarrow> u16 \<Rightarrow> 's \<Rightarrow> (int + int) \<times> 's" where
  "Transport_new l dev s =
     (let (fd, s1) = os_socket l (AF_BLUETOOTH l) (or (or (SOCK_RAW l) (SOCK_CLOEXEC l)) (SOCK_NONBLOCK l)) BTPROTO_HCI s
      in if fd < 0 then (Inl (os_errno l s1), s1)
         else let (rc, s2) = os_bind l fd (hci_addr l dev) sockaddr_size s1
           in if rc < 0 then (Inl (os_errno l s2), os_close l fd s2)
              else case os_async_new l fd s2 of
                  (Inl e, s3) \<Rightarrow> (Inl e, s3)
                | (Inr _, s3) \<Rightarrow> (Inr fd, s3))"

text \<open>The closures passed to \<open>read_with\<close> and \<open>write_with\<close>.\<close>

definition read_op :: "'s libc \<Rightarrow> int \<Rightarrow> nat \<Rightarrow> 's \<Rightarrow> (int + nat) \<times> bytes \<times> 's" where
  "read_op l fd n s =
     (let (ret, stored, s1) = os_read l fd n s
      in if ret < 0 then (Inl (os_errno l s1), stored, s1) else (Inr (nat ret), stored, s1))"

definition write_op :: "'s libc \<Rightarrow> int \<Rightarrow> bytes \<Rightarrow> 's \<Rightarrow> (int + nat) \<times> 's" where
  "write_op l fd buf s =
     (let (ret, s1) = os_write l fd buf s
      in if ret < 0 then (Inl (os_errno l s1), s1) else (Inr (nat ret), s1))"

definition Transport_read :: "'s libc \<Rightarrow> ('kind, 'p, 'q, 'e) hci_codec \<Rightarrow> int \<Rightarrow> bytes \<Rightarrow> 's \<Rightarrow>
    ('e transport_error + 'p) option \<times> 's" where
  "Transport_read l h fd rx s =
     (let wire = replicate (length rx + 1) 0;
          (r, stored, s1) = os_read_with l fd (read_op l fd (length wire)) s;
          wire = stored @ drop (length stored) wire
      in case r of
           Inl e \<Rightarrow> (Some (Inl (Io e)), s1)
         | Inr read \<Rightarrow>
             (if length wire < read then (None, s1)
              else case kind_read h (take read wire) of
                  Inl e \<Rightarrow> (Some (Inl (ReadHci e)), s1)
                | Inr (kind, data) \<Rightarrow>
                    (case packet_read h kind data rx of
                       Inl e \<Rightarrow> (Some (Inl (ReadHci e)), s1)
                     | Inr p \<Rightarrow> (Some (Inr p), s1))))"

definition Transport_write :: "'s libc \<Rightarrow> ('kind, 'p, 'q, 'e) hci_codec \<Rightarrow> int \<Rightarrow> 'q \<Rightarrow> 's \<Rightarrow>
    ('e transport_error + unit) option \<times> 's" where
  "Transport_write l h fd val s =
     (case with_indicator h val of
        None \<Rightarrow> (None, s)
      | Some buf \<Rightarrow>
          (let (r, s1) = os_write_with l fd (write_op l fd buf) s
           in case r of
                Inl e \<Rightarrow> (Some (Inl (Io e)), s1)
              | Inr written \<Rightarrow> (if written = length buf then (Some (Inr ()), s1) else (None, s1))))"

section \<open>Contracts\<close>

text \<open>
  The descriptors of the process and the address each is bound to: \<open>socket\<close> gives a new one,
  \<open>close\<close> and a failing \<open>Async::new\<close> release it, \<open>bind\<close> and \<open>Async::new\<close> keep it.
\<close>

definition fds_contract :: "'s libc \<Rightarrow> ('s \<Rightarrow> int \<rightharpoonup> sockaddr_hci option) \<Rightarrow> bool" where
  "fds_contract l fds \<longleftrightarrow>
     (\<forall>a b c s fd s1. os_socket l a b c s = (fd, s1) \<longrightarrow>
        (if fd < 0 then fds s1 = fds s else fds s fd = None \<and> fds s1 = (fds s)(fd \<mapsto> None))) \<and>
     (\<forall>fd a n s rc s1. os_bind l fd a n s = (rc, s1) \<longrightarrow> fds s fd = Some None \<longrightarrow>
        fds s1 = (if rc < 0 then fds s else (fds s)(fd \<mapsto> Some a))) \<and>
     (\<forall>fd s. fds (os_close l fd s) = (fds s)(fd := None)) \<and>
     (\<forall>fd s r s1. os_async_new l fd s = (r, s1) \<longrightarrow> fds s1 = (if isl r then (fds s)(fd := None) else fds s))"

text \<open>
  The socket: \<open>inbox\<close> holds the packets the kernel has for the descriptor, of which a read takes
  one and cuts it at the buffer; \<open>outbox\<close> those handed to the kernel, whole. A descriptor that is
  ready is read and written at once.
\<close>

definition socket_contract :: "'s libc \<Rightarrow> int \<Rightarrow> ('s \<Rightarrow> bytes list) \<Rightarrow> ('s \<Rightarrow> bytes list) \<Rightarrow> bool" where
  "socket_contract l fd inbox outbox \<longleftrightarrow>
     (\<forall>s n p ps. inbox s = p # ps \<longrightarrow> (\<exists>s1. os_read l fd n s = (int (min n (length p)), take n p, s1) \<and>
        inbox s1 = ps \<and> outbox s1 = outbox s)) \<and>
     (\<forall>s buf. \<exists>s1. os_write l fd buf s = (int (length buf), s1) \<and> inbox s1 = inbox s \<and> outbox s1 = outbox s @ [buf]) \<and>
     (\<forall>s f n st s1. inbox s \<noteq> [] \<longrightarrow> f s = (Inr n, st, s1) \<longrightarrow> os_read_with l fd f s = (Inr n, st, s1)) \<and>
     (\<forall>s f n s1. f s = (Inr n, s1) \<longrightarrow> os_write_with l fd f s = (Inr n, s1))"

text \<open>The wire form of a packet: its indicator byte and its body; a body is parsed into \<open>rx\<close> if it fits.\<close>

definition codec_contract :: "('kind, 'p, 'q, 'e) hci_codec \<Rightarrow> ('kind \<Rightarrow> u8) \<Rightarrow> ('p \<Rightarrow> 'kind \<times> bytes) \<Rightarrow> bool" where
  "codec_contract h ind body \<longleftrightarrow>
     (\<forall>kind data. kind_read h (ind kind # data) = Inr (kind, data)) \<and>
     (\<forall>p rx. length (snd (body p)) \<le> length rx \<longrightarrow> packet_read h (fst (body p)) (snd (body p)) rx = Inr p)"

lemma os_writeD:
  "socket_contract l fd inbox outbox \<Longrightarrow>
     \<exists>s1. os_write l fd buf s = (int (length buf), s1) \<and> inbox s1 = inbox s \<and> outbox s1 = outbox s @ [buf]"
  unfolding socket_contract_def by simp

lemma os_readD:
  "socket_contract l fd inbox outbox \<Longrightarrow> inbox s = p # ps \<Longrightarrow>
     \<exists>s1. os_read l fd n s = (int (min n (length p)), take n p, s1) \<and> inbox s1 = ps \<and> outbox s1 = outbox s"
  unfolding socket_contract_def by simp

lemma os_withD:
  "socket_contract l fd inbox outbox \<Longrightarrow> g s = (Inr n, s1) \<Longrightarrow> os_write_with l fd g s = (Inr n, s1)"
  "socket_contract l fd inbox outbox \<Longrightarrow> inbox s \<noteq> [] \<Longrightarrow> f s = (Inr n, st, s1) \<Longrightarrow> os_read_with l fd f s = (Inr n, st, s1)"
  unfolding socket_contract_def by simp_all

section \<open>Properties\<close>

lemma transport_new_fds:
  assumes "fds_contract l fds"
  shows "case Transport_new l dev s of
      (Inr fd, s') \<Rightarrow> fds s fd = None \<and> fds s' = (fds s)(fd \<mapsto> Some (hci_addr l dev))
    | (Inl e, s') \<Rightarrow> fds s' = fds s"
proof -
  obtain fd s1 where sock: "os_socket l (AF_BLUETOOTH l) (or (or (SOCK_RAW l) (SOCK_CLOEXEC l)) (SOCK_NONBLOCK l)) BTPROTO_HCI s = (fd, s1)"
    by fastforce
  have new: "if fd < 0 then fds s1 = fds s else fds s fd = None \<and> fds s1 = (fds s)(fd \<mapsto> None)"
    using assms sock unfolding fds_contract_def by blast
  show ?thesis
  proof (cases "fd < 0")
    case False
    obtain rc s2 where bind: "os_bind l fd (hci_addr l dev) sockaddr_size s1 = (rc, s2)" by fastforce
    have bound: "fds s2 = (if rc < 0 then fds s1 else (fds s1)(fd \<mapsto> Some (hci_addr l dev)))"
      using assms bind new False unfolding fds_contract_def by simp
    obtain r s3 where async: "os_async_new l fd s2 = (r, s3)" by fastforce
    have "fds s3 = (if isl r then (fds s2)(fd := None) else fds s2)" "fds (os_close l fd s2) = (fds s2)(fd := None)"
      using assms async unfolding fds_contract_def by blast+
    with False sock bind async new bound show ?thesis
      by (cases r) (auto simp: Transport_new_def)
  qed (use sock new in \<open>simp add: Transport_new_def\<close>)
qed

text \<open>
  Opening a device leaks no descriptor: when it succeeds the process has exactly one more, bound
  to the user channel of the device; whichever call fails, it has those it had before.
\<close>

theorem transport_new_no_leak:
  assumes "fds_contract l fds"
  shows "case Transport_new l dev s of
      (Inr fd, s') \<Rightarrow> fds s fd = None \<and> fds s' = (fds s)(fd \<mapsto> Some (hci_addr l dev))
    | (Inl e, s') \<Rightarrow> fds s' = fds s"
  using assms by (rule transport_new_fds)

text \<open>A process with the descriptors it has opened, the last of which \<open>bind\<close> refuses on device 9.\<close>

primrec fd_sum :: "(int \<times> sockaddr_hci option) list \<Rightarrow> int" where
  "fd_sum [] = 0"
| "fd_sum (x # s) = \<bar>fst x\<bar> + fd_sum s"

definition list_os :: "(int \<times> sockaddr_hci option) list libc" where
  "list_os = \<lparr>AF_BLUETOOTH = 31, SOCK_RAW = 3, SOCK_CLOEXEC = 524288, SOCK_NONBLOCK = 2048,
     os_socket = (\<lambda>a b c s. let fd = fd_sum s + 1 in (fd, (fd, None) # s)),
     os_bind = (\<lambda>fd a n s. if hci_dev a = 9 then (- 1, s) else (0, map (\<lambda>(n, b). (n, if n = fd then Some a else b)) s)),
     os_close = (\<lambda>fd s. filter (\<lambda>(n, _). n \<noteq> fd) s), os_errno = (\<lambda>s. 19),
     os_read = (\<lambda>fd n s. (- 1, [], s)), os_write = (\<lambda>fd b s. (- 1, s)), os_async_new = (\<lambda>fd s. (Inr (), s)),
     os_read_with = (\<lambda>fd f. f), os_write_with = (\<lambda>fd f. f)\<rparr>"

lemma list_os_contract: "fds_contract list_os map_of"
proof -
  have nonneg: "0 \<le> fd_sum s" for s by (induction s) auto
  have "n \<le> fd_sum s" if "map_of s n = Some a" for s n a
    using that
  proof (induction s)
    case (Cons x s)
    then show ?case using nonneg [of s] by (cases "fst x = n") auto
  qed simp
  then have new: "map_of s (fd_sum s + 1) = None" for s
    by (cases "map_of s (fd_sum s + 1)") fastforce+
  have pos: "\<not> fd_sum s + 1 < 0" for s using nonneg [of s] by simp
  have bind: "map_of (map (\<lambda>(n, b). (n, if n = fd then Some a else b)) s) = (map_of s)(fd \<mapsto> Some a)"
    if "map_of s fd = Some None" for s fd and a :: sockaddr_hci
  proof -
    have "map_of (map (\<lambda>(n, b). (n, if n = fd then Some a else b)) s) m = (if m = fd then map_option (\<lambda>_. Some a) (map_of s m) else map_of s m)" for m
      by (induction s) auto
    then show ?thesis using that by auto
  qed
  have close: "map_of (filter (\<lambda>(n, _). n \<noteq> fd) s) = (map_of s)(fd := None)" for s fd
    by (induction s) auto
  show ?thesis using new pos bind close
    unfolding fds_contract_def by (auto simp: list_os_def Let_def)
qed

theorem transport_new_no_leak_witness:
  "map_of (snd (Transport_new list_os 9 [(3, None)])) = [3 \<mapsto> None] \<and>
   map_of (snd (Transport_new list_os 0 [(3, None)])) = [3 \<mapsto> None, 4 \<mapsto> Some (hci_addr list_os 0)]"
  using transport_new_no_leak [OF list_os_contract, where dev = 9 and s = "[(3, None)]"] transport_new_no_leak [OF list_os_contract, where dev = 0 and s = "[(3, None)]"]
  by (simp add: Transport_new_def list_os_def hci_addr_def)

text \<open>
  Packets keep their boundaries and their contents: a written packet reaches the kernel in one
  piece, as its indicator byte and its body, and a packet received so is read as that packet,
  from the front, if it fits the buffer. Neither panics.
\<close>

theorem transport_roundtrip:
  assumes "socket_contract l fd inbox outbox" "codec_contract h ind body"
    and "with_indicator h val = Some (ind (fst (body p)) # snd (body p))"
    and "length (snd (body p)) \<le> length rx" and "inbox s = outbox (snd (Transport_write l h fd val s0)) @ ps" "outbox s0 = []"
  shows "\<exists>s1 s2. Transport_write l h fd val s0 = (Some (Inr ()), s1) \<and> inbox s1 = inbox s0 \<and>
    Transport_read l h fd rx s = (Some (Inr p), s2) \<and> inbox s2 = ps \<and> outbox s2 = outbox s"
proof -
  let ?buf = "ind (fst (body p)) # snd (body p)"
  obtain s1 where "os_write l fd ?buf s0 = (int (length ?buf), s1)" and w: "inbox s1 = inbox s0" "outbox s1 = outbox s0 @ [?buf]"
    using os_writeD [OF assms(1), of ?buf s0] by blast
  then have "write_op l fd ?buf s0 = (Inr (length ?buf), s1)" by (simp add: write_op_def nat_add_distrib)
  from os_withD(1) [OF assms(1), where g = "write_op l fd ?buf", OF this]
  have wr: "Transport_write l h fd val s0 = (Some (Inr ()), s1)"
    using assms(3) by (simp add: Transport_write_def)
  then have inb: "inbox s = ?buf # ps" using assms(5,6) w by simp
  let ?n = "Suc (length rx)"
  obtain s2 where "os_read l fd ?n s = (int (min ?n (length ?buf)), take ?n ?buf, s2)" and r: "inbox s2 = ps" "outbox s2 = outbox s"
    using os_readD [OF assms(1) inb, of ?n] by blast
  then have "read_op l fd ?n s = (Inr (length ?buf), ?buf, s2)"
    using assms(4) by (simp add: read_op_def min_def nat_add_distrib)
  from os_withD(2) [OF assms(1), where f = "read_op l fd ?n", OF _ this]
  have "Transport_read l h fd rx s = (Some (Inr p), s2)"
    using assms(2,4) inb by (simp add: Transport_read_def codec_contract_def Let_def case_prod_beta)
  with wr w(1) r show ?thesis by blast
qed

text \<open>A pipe to itself and packets of one kind.\<close>

definition pipe_os :: "(bytes list \<times> bytes list) libc" where
  "pipe_os = \<lparr>AF_BLUETOOTH = 31, SOCK_RAW = 3, SOCK_CLOEXEC = 524288, SOCK_NONBLOCK = 2048,
     os_socket = (\<lambda>a b c s. (3, s)), os_bind = (\<lambda>fd a n s. (0, s)), os_close = (\<lambda>fd s. s), os_errno = (\<lambda>s. 11),
     os_read = (\<lambda>fd n (i, out). case i of [] \<Rightarrow> (- 1, [], (i, out)) | p # ps \<Rightarrow> (int (min n (length p)), take n p, (ps, out))),
     os_write = (\<lambda>fd b (i, out). (int (length b), (i, out @ [b]))), os_async_new = (\<lambda>fd s. (Inr (), s)),
     os_read_with = (\<lambda>fd f. f), os_write_with = (\<lambda>fd f. f)\<rparr>"

definition byte_codec :: "(unit, bytes, bytes, unit) hci_codec" where
  "byte_codec = \<lparr>kind_read = (\<lambda>d. case d of [] \<Rightarrow> Inl () | _ # r \<Rightarrow> Inr ((), r)),
     packet_read = (\<lambda>_ d rx. if length d \<le> length rx then Inr d else Inl ()), with_indicator = (\<lambda>q. Some (4 # q))\<rparr>"

lemma pipe_os_contract: "socket_contract pipe_os 3 fst snd"
  by (auto simp: socket_contract_def pipe_os_def)

lemma byte_codec_contract: "codec_contract byte_codec (\<lambda>_. 4) (\<lambda>p. ((), p))"
  by (simp add: codec_contract_def byte_codec_def)

theorem transport_roundtrip_witness:
  "\<exists>s2. Transport_read pipe_os byte_codec 3 [0, 0, 0] ([[4, 7, 8]], []) = (Some (Inr [7, 8]), s2) \<and> fst s2 = []"
  using transport_roundtrip [OF pipe_os_contract byte_codec_contract, where val = "[7, 8]" and p = "[7, 8]" and rx = "[0, 0, 0]"
    and s = "([[4, 7, 8]], [])" and ?s0.0 = "([], [])" and ps = "[]"]
  by (simp add: byte_codec_def pipe_os_def Transport_write_def write_op_def)

end
