(* ===== verification/Example_Hosted.thy ===== *)
theory Example_Hosted
  imports Example_Client Linux_Transport
begin

text \<open>
  The hosted examples (\<open>examples/std/src/bin\<close>: \<open>gatt_server.rs\<close>, \<open>gatt_server_dynamic.rs\<close>,
  \<open>gatt_client.rs\<close>, \<open>scanner.rs\<close>): command line, construction over the Linux transport, hooks and
  tasks. Names, UUIDs and the static service table are those of the portable scenarios. The
  operating system, the C heap and the driver are three separate states, \<open>os\<close>, \<open>h\<close> and \<open>st\<close>.
  A phase of a task is the loop in which it
  waits for its next flag. The value \<open>None\<close> is a panic. Logging is left out.
\<close>

section \<open>Start\<close>

datatype start_error = BadArg | IoError int | HostError BleError | BadRole string

text \<open>\<open>str::parse::<u16>\<close>: an optional plus sign, then decimal digits that do not overflow.\<close>

fun parse_digits :: "nat \<Rightarrow> string \<Rightarrow> u16 option" where
  "parse_digits acc [] = Some (of_nat acc)"
| "parse_digits acc (c # cs) =
     (let d = (of_char c :: nat)
      in if 48 \<le> d \<and> d \<le> 57 \<and> acc * 10 + (d - 48) < 2 ^ 16 then parse_digits (acc * 10 + (d - 48)) cs else None)"

fun parse_u16 :: "string \<Rightarrow> u16 option" where
  "parse_u16 [] = None"
| "parse_u16 (c # cs) = (if c = CHR ''+'' then (if cs = [] then None else parse_digits 0 cs) else parse_digits 0 (c # cs))"

definition dev_arg :: "string option \<Rightarrow> start_error + u16" where
  "dev_arg arg = (case arg of None \<Rightarrow> Inr 0 | Some a \<Rightarrow> (case parse_u16 a of None \<Rightarrow> Inl BadArg | Some dev \<Rightarrow> Inr dev))"

text \<open>
  The head of every example: the device, the controller on it, then \<open>mk\<close>, which constructs the
  driver and subscribes the hooks. An early return drops the controller and with it the socket.
\<close>

definition hosted_start :: "'o libc \<Rightarrow> string option \<Rightarrow> ('s \<Rightarrow> unit ble_result \<times> 's) \<Rightarrow> 'o \<Rightarrow> 's \<Rightarrow> (start_error + int) \<times> 'o \<times> 's" where
  "hosted_start l arg mk os st =
     (case dev_arg arg of
        Inl e \<Rightarrow> (Inl e, os, st)
      | Inr dev \<Rightarrow>
     (case Transport_new l dev os of
        (Inl e, os1) \<Rightarrow> (Inl (IoError e), os1, st)
      | (Inr fd, os1) \<Rightarrow>
     (case mk st of
        (Inl e, st1) \<Rightarrow> (Inl (HostError e), os_close l fd os1, st1)
      | (Inr _, st1) \<Rightarrow> (Inr fd, os1, st1))))"

section \<open>The servers\<close>

definition hosted_on_host_event :: "HostEvent \<Rightarrow> 'a server_app_scheme \<Rightarrow> 'a server_app_scheme" where
  "hosted_on_host_event event st = (if event = Sync then st\<lparr>NEEDS_ADV := True\<rparr> else st)"

definition hosted_on_gap_event :: "GapEvent \<Rightarrow> 'a server_app_scheme \<Rightarrow> c_int \<times> 'a server_app_scheme" where
  "hosted_on_gap_event event st =
     (0, case event of
           Disconnect conn_handle reason \<Rightarrow>
             (let st1 = st\<lparr>SUBSCRIBERS := filter (\<lambda>c. c \<noteq> conn_handle) (SUBSCRIBERS st)\<rparr> in st1\<lparr>NEEDS_ADV := True\<rparr>)
         | _ \<Rightarrow> st)"

definition hosted_on_gatts_event :: "sys_consts \<Rightarrow> 'a server_app_scheme mbuf_c \<Rightarrow> (BleUuid \<Rightarrow> BleUuid \<Rightarrow> bool) \<Rightarrow> GattsEvent \<Rightarrow>
    'a server_app_scheme \<Rightarrow> u8 \<times> 'a server_app_scheme" where
  "hosted_on_gatts_event k mc ueq event st =
     (0, case event of
           Register (Characteristic uuid def_handle val_handle) \<Rightarrow>
             (if ueq uuid (IND_CHARACTERISTIC_UUID k) then st\<lparr>IND_VAL_HANDLE := val_handle\<rparr>
              else if ueq uuid (RECV_CHARACTERISTIC_UUID k) then st\<lparr>RECV_VAL_HANDLE := val_handle\<rparr>
              else st)
         | GattsWrite conn_handle attr_handle data \<Rightarrow>
             (if attr_handle = RECV_VAL_HANDLE st then snd (snd (Mbuf_read mc data (replicate 200 0) st)) else st)
         | SubscriptionChanged conn_handle attr_handle reason prev_notify cur_notify prev_indicate cur_indicate \<Rightarrow>
             (if attr_handle = IND_VAL_HANDLE st then
                (let subs = filter (\<lambda>c. c \<noteq> conn_handle) (SUBSCRIBERS st)
                 in st\<lparr>SUBSCRIBERS := (if cur_indicate then subs @ [conn_handle] else subs)\<rparr>)
              else st)
         | _ \<Rightarrow> st)"

definition hosted_server_hooks :: "sys_consts \<Rightarrow> 'a server_app_scheme mbuf_c \<Rightarrow> (BleUuid \<Rightarrow> BleUuid \<Rightarrow> bool) \<Rightarrow> 'a server_app_scheme app" where
  "hosted_server_hooks k mc ueq = \<lparr>app_host = (\<lambda>_. hosted_on_host_event), app_gap = (\<lambda>_. hosted_on_gap_event),
     app_gatts = (\<lambda>_. hosted_on_gatts_event k mc ueq), app_gattc = (\<lambda>_ _ st. st), app_l2cap = (\<lambda>_ _ st. (0, st))\<rparr>"

definition hosted_start_advertising :: "sys_consts \<Rightarrow> 's gap_c \<Rightarrow> 's \<Rightarrow> unit ble_result \<times> 's" where
  "hosted_start_advertising k gc st =
     (case set_device_name k gc DEVICE_NAME st of
        (Inl e, st1) \<Rightarrow> (Inl e, st1)
      | (Inr _, st1) \<Rightarrow>
     (case adv_set_fields gc server_adv_fields st1 of
        (Inl e, st2) \<Rightarrow> (Inl e, st2)
      | (Inr _, st2) \<Rightarrow> adv_start k gc 0 server_adv_params st2))"

definition hosted_server_round :: "sys_consts \<Rightarrow> 'a server_app_scheme gap_c \<Rightarrow> 'a server_app_scheme mbuf_c \<Rightarrow>
    'a server_app_scheme gatts_c \<Rightarrow> u16 \<Rightarrow> 'a server_app_scheme \<Rightarrow> u16 \<times> 'a server_app_scheme" where
  "hosted_server_round k gc mc sc counter st =
     (let needed = NEEDS_ADV st;
          st1 = st\<lparr>NEEDS_ADV := False\<rparr>;
          st2 = (if needed then snd (hosted_start_advertising k gc st1) else st1);
          ind_handle = IND_VAL_HANDLE st2
      in if ind_handle = 0 then (counter, st2)
         else let counter = counter + 1
           in (counter, fold (\<lambda>conn st. snd (indicate k mc sc conn ind_handle (u16_to_le_bytes counter) st)) (SUBSCRIBERS st2) st2))"

text \<open>Construction with the table at \<open>defs\<close>, and the subscriptions.\<close>

definition make_server :: "ble_cfg \<Rightarrow> sys_consts \<Rightarrow> 'a ble_state_scheme driver_c \<Rightarrow> ptr \<Rightarrow> ptr \<Rightarrow> ptr \<times> ptr \<times> ptr \<Rightarrow>
    'a ble_state_scheme \<Rightarrow> unit ble_result \<times> 'a ble_state_scheme" where
  "make_server cf k dc dflt defs = (\<lambda>(on_host, on_gap, on_gatts) st.
     case Ble_new_with_services cf k dc dflt defs st of
       (Inl e, st1) \<Rightarrow> (Inl e, st1)
     | (Inr _, st1) \<Rightarrow> (Inr (), gatts_subscribe on_gatts (gap_subscribe on_gap (host_subscribe on_host st1))))"

definition hosted_server_main :: "'o libc \<Rightarrow> ble_cfg \<Rightarrow> sys_consts \<Rightarrow> 'a ble_state_scheme driver_c \<Rightarrow> ptr \<Rightarrow> ptr \<Rightarrow> ptr \<times> ptr \<times> ptr \<Rightarrow>
    string option \<Rightarrow> 'o \<Rightarrow> 'a ble_state_scheme \<Rightarrow> (start_error + int) \<times> 'o \<times> 'a ble_state_scheme" where
  "hosted_server_main l cf k dc dflt defs cbs arg os st = hosted_start l arg (make_server cf k dc dflt defs cbs) os st"

text \<open>
  The dynamic server builds its table on the C heap first; \<open>BleGattServices::new\<close> does not see the
  driver. When the construction of the driver fails, the table it was given is dropped.
\<close>

definition dynamic_services :: "sys_consts \<Rightarrow> BleGattService list" where
  "dynamic_services k =
     (let characteristics = [BleGattCharacteristic_new (RECV_CHARACTERISTIC_UUID k) {Write},
                             BleGattCharacteristic_new (IND_CHARACTERISTIC_UUID k) {Indicate}]
      in [BleGattService_new True (SERVICE_UUID k) characteristics])"

definition dynamic_make :: "ble_cfg \<Rightarrow> sys_consts \<Rightarrow> 'a ble_state_scheme driver_c \<Rightarrow> ptr \<Rightarrow> ptr \<times> ptr \<times> ptr \<Rightarrow>
    'f word gatt_cell placement \<Rightarrow> gatt_layout \<Rightarrow> 'f::len word gatt_heap \<Rightarrow> 'a ble_state_scheme \<Rightarrow>
    (BleGattServices ble_result \<times> 'f word gatt_heap \<times> 'a ble_state_scheme) option" where
  "dynamic_make cf k dc dflt cbs place L h st = do {
     (r, h1) \<leftarrow> BleGattServices_new k place L (dynamic_services k) h;
     case r of
       Inl e \<Rightarrow> Some (Inl e, h1, st)
     | Inr services \<Rightarrow>
         (case make_server cf k dc dflt (BleGattServices_as_ref services) cbs st of
            (Inl e, st1) \<Rightarrow> do { h2 \<leftarrow> BleGattServices_drop services h1; Some (Inl e, h2, st1) }
          | (Inr _, st1) \<Rightarrow> Some (Inr services, h1, st1))
   }"

definition dynamic_server_main :: "'o libc \<Rightarrow> ble_cfg \<Rightarrow> sys_consts \<Rightarrow> 'a ble_state_scheme driver_c \<Rightarrow> ptr \<Rightarrow> ptr \<times> ptr \<times> ptr \<Rightarrow>
    'f word gatt_cell placement \<Rightarrow> gatt_layout \<Rightarrow> string option \<Rightarrow> 'o \<Rightarrow> 'f::len word gatt_heap \<Rightarrow> 'a ble_state_scheme \<Rightarrow>
    ((start_error + int \<times> BleGattServices) \<times> 'o \<times> 'f word gatt_heap \<times> 'a ble_state_scheme) option" where
  "dynamic_server_main l cf k dc dflt cbs place L arg os h st =
     (case dev_arg arg of
        Inl e \<Rightarrow> Some (Inl e, os, h, st)
      | Inr dev \<Rightarrow>
     (case Transport_new l dev os of
        (Inl e, os1) \<Rightarrow> Some (Inl (IoError e), os1, h, st)
      | (Inr fd, os1) \<Rightarrow> do {
          (r, h1, st1) \<leftarrow> dynamic_make cf k dc dflt cbs place L h st;
          case r of
            Inl e \<Rightarrow> Some (Inl (HostError e), os_close l fd os1, h1, st1)
          | Inr services \<Rightarrow> Some (Inr (fd, services), os1, h1, st1)
        }))"

section \<open>The client\<close>

definition hosted_client_on_gap_event :: "GapEvent \<Rightarrow> 'a client_app_scheme \<Rightarrow> c_int \<times> 'a client_app_scheme" where
  "hosted_client_on_gap_event event st =
     (0, case event of
           Discovery event_type addr rssi data \<Rightarrow>
             (if adv_scan DEVICE_NAME data \<and> PEER st = None then st\<lparr>PEER := Some addr\<rparr> else st)
         | Connect conn_handle status \<Rightarrow>
             (case status of Inr _ \<Rightarrow> st\<lparr>CONN := conn_handle, CONNECTED := True\<rparr> | Inl _ \<Rightarrow> st)
         | Disconnect conn_handle reason \<Rightarrow> st\<lparr>DISCONNECTED := True\<rparr>
         | _ \<Rightarrow> st)"

definition hosted_client_hooks :: "sys_consts \<Rightarrow> 'a client_app_scheme mbuf_c \<Rightarrow> (BleUuid \<Rightarrow> BleUuid \<Rightarrow> bool) \<Rightarrow> 'a client_app_scheme app" where
  "hosted_client_hooks k mc ueq = \<lparr>app_host = (\<lambda>_. client_on_host_event), app_gap = (\<lambda>_. hosted_client_on_gap_event),
     app_gatts = (\<lambda>_ _ st. (0, st)), app_gattc = (\<lambda>_. client_on_gattc_event k mc ueq), app_l2cap = (\<lambda>_ _ st. (0, st))\<rparr>"

definition make_client :: "ble_cfg \<Rightarrow> sys_consts \<Rightarrow> 'a ble_state_scheme driver_c \<Rightarrow> ptr \<Rightarrow> ptr \<times> ptr \<times> ptr \<Rightarrow>
    'a ble_state_scheme \<Rightarrow> unit ble_result \<times> 'a ble_state_scheme" where
  "make_client cf k dc dflt = (\<lambda>(on_host, on_gap, on_gattc) st.
     case Ble_new cf k dc dflt st of
       (Inl e, st1) \<Rightarrow> (Inl e, st1)
     | (Inr _, st1) \<Rightarrow> (Inr (), gattc_subscribe on_gattc (gap_subscribe on_gap (host_subscribe on_host st1))))"

datatype hosted_phase =
    HSync
  | HPeer
  | HConnected
  | HServices ConnHandle
  | HCharacteristics ConnHandle
  | HSecond ConnHandle AttrHandle u32
  | HReturned

text \<open>The head of the write loop: when the server is gone the task, and with it \<open>main\<close>, returns.\<close>

definition hosted_write_loop :: "ConnHandle \<Rightarrow> AttrHandle \<Rightarrow> u32 \<Rightarrow> 'a client_app_scheme \<Rightarrow> hosted_phase \<times> 'a client_app_scheme" where
  "hosted_write_loop conn recv counter st = (if DISCONNECTED st then HReturned else HSecond conn recv counter, st)"

fun hosted_client_step :: "bool \<Rightarrow> 'a client_app_scheme gap_c \<Rightarrow> 'a client_app_scheme gattc_c \<Rightarrow> hosted_phase \<Rightarrow>
    'a client_app_scheme \<Rightarrow> (hosted_phase \<times> 'a client_app_scheme) option" where
  "hosted_client_step checks gc cc HSync st =
     (if \<not> SYNCED st then Some (HSync, st)
      else case disc gc 0 None default_disc_params st of
          (Inl _, _) \<Rightarrow> None
        | (Inr _, st1) \<Rightarrow> Some (HPeer, st1))"
| "hosted_client_step checks gc cc HPeer st =
     (if PEER st = None then Some (HPeer, st)
      else let st1 = snd (disc_cancel gc st)
        in case PEER st1 of
             None \<Rightarrow> None
           | Some peer \<Rightarrow>
               (case connect cc 0 peer st1 of
                  (Inl _, _) \<Rightarrow> None
                | (Inr _, st2) \<Rightarrow> Some (HConnected, st2)))"
| "hosted_client_step checks gc cc HConnected st =
     (if \<not> CONNECTED st then Some (HConnected, st)
      else let conn = CONN st
        in case discover_services cc conn st of
             (Inl _, _) \<Rightarrow> None
           | (Inr _, st1) \<Rightarrow> Some (HServices conn, st1))"
| "hosted_client_step checks gc cc (HServices conn) st =
     (if \<not> SVC_DONE st then Some (HServices conn, st)
      else case SVC_RANGE st of
          None \<Rightarrow> None
        | Some (start, end_handle) \<Rightarrow>
            (case discover_characteristics cc conn start end_handle st of
               (Inl _, _) \<Rightarrow> None
             | (Inr _, st1) \<Rightarrow> Some (HCharacteristics conn, st1)))"
| "hosted_client_step checks gc cc (HCharacteristics conn) st =
     (if \<not> CHR_DONE st then Some (HCharacteristics conn, st)
      else let recv = RECV_VAL st; ind = IND_VAL st
        in if \<not> (recv \<noteq> 0 \<and> ind \<noteq> 0) then None
           else do {
             cccd \<leftarrow> rust_inc checks ind;
             case gattc_write cc conn cccd [0x02, 0x00] st of
               (Inl _, _) \<Rightarrow> None
             | (Inr _, st1) \<Rightarrow> Some (hosted_write_loop conn recv 0 st1)
           })"
| "hosted_client_step checks gc cc (HSecond conn recv counter) st =
     (let counter = counter + 1
      in Some (hosted_write_loop conn recv counter (snd (gattc_write cc conn recv (to_le_bytes 4 counter) st))))"
| "hosted_client_step checks gc cc HReturned st = Some (HReturned, st)"

section \<open>The scanner\<close>

record hosted_scanner = ble_state +
  HSC_SYNCED :: bool
  DONE :: bool

definition hosted_scanner_on_host_event :: "HostEvent \<Rightarrow> 'a hosted_scanner_scheme \<Rightarrow> 'a hosted_scanner_scheme" where
  "hosted_scanner_on_host_event event st = (if event = Sync then st\<lparr>HSC_SYNCED := True\<rparr> else st)"

definition hosted_scanner_on_gap_event :: "GapEvent \<Rightarrow> 'a hosted_scanner_scheme \<Rightarrow> c_int \<times> 'a hosted_scanner_scheme" where
  "hosted_scanner_on_gap_event event st = (0, case event of DiscoveryComplete reason \<Rightarrow> st\<lparr>DONE := True\<rparr> | _ \<Rightarrow> st)"

definition make_scanner :: "ble_cfg \<Rightarrow> sys_consts \<Rightarrow> 'a ble_state_scheme driver_c \<Rightarrow> ptr \<Rightarrow> ptr \<times> ptr \<Rightarrow>
    'a ble_state_scheme \<Rightarrow> unit ble_result \<times> 'a ble_state_scheme" where
  "make_scanner cf k dc dflt = (\<lambda>(on_host, on_gap) st.
     case Ble_new cf k dc dflt st of
       (Inl e, st1) \<Rightarrow> (Inl e, st1)
     | (Inr _, st1) \<Rightarrow> (Inr (), gap_subscribe on_gap (host_subscribe on_host st1)))"

datatype hosted_scan_phase = HScanSync | HScanDone | HScanReturned

fun hosted_scanner_step :: "'a hosted_scanner_scheme gap_c \<Rightarrow> hosted_scan_phase \<Rightarrow> 'a hosted_scanner_scheme \<Rightarrow>
    (hosted_scan_phase \<times> 'a hosted_scanner_scheme) option" where
  "hosted_scanner_step gc HScanSync st =
     (if \<not> HSC_SYNCED st then Some (HScanSync, st)
      else case disc gc 0 (Some 10000) (default_disc_params\<lparr>dp_passive := False, dp_filter_duplicates := True\<rparr>) st of
          (Inl _, _) \<Rightarrow> None
        | (Inr _, st1) \<Rightarrow> Some (HScanDone, st1))"
| "hosted_scanner_step gc HScanDone st = Some (if DONE st then HScanReturned else HScanDone, st)"
| "hosted_scanner_step gc HScanReturned st = Some (HScanReturned, st)"

section \<open>Properties\<close>

text \<open>A device number that was printed, as the end-to-end test passes it on, is read back.\<close>

lemma parse_digits_decimal:
  "list_all is_digit s \<Longrightarrow> foldl (\<lambda>n c. 10 * n + digit_val c) acc s < 2 ^ 16 \<Longrightarrow>
     parse_digits acc s = Some (of_nat (foldl (\<lambda>n c. 10 * n + digit_val c) acc s))"
proof (induction s arbitrary: acc)
  case (Cons c s)
  have "n \<le> foldl (\<lambda>n c. 10 * n + digit_val c) n t" for n t
  proof (induction t arbitrary: n)
    case (Cons c t)
    show ?case using Cons [of "10 * n + digit_val c"] by simp
  qed simp
  from le_less_trans [OF this [of "10 * acc + digit_val c" s]] have "10 * acc + digit_val c < 2 ^ 16" using Cons.prems(2) by simp
  then show ?case using Cons by (simp add: is_digit_def digit_val_def Let_def mult.commute)
qed simp

lemma dev_arg_printed: "dev_arg (Some (to_dec (unat dev))) = Inr dev"
proof -
  have d: "list_all is_digit (to_dec (unat dev))" "to_dec (unat dev) \<noteq> []" using to_dec_digits by blast+
  have "unat dev < 2 ^ 16" using unsigned_less [where 'a = nat, of dev] by simp
  then have "parse_digits 0 (to_dec (unat dev)) = Some dev"
    using parse_digits_decimal [OF d(1), of 0] decimal_to_dec [of "unat dev"] by (simp add: decimal_def)
  moreover have "parse_u16 (to_dec (unat dev)) = parse_digits 0 (to_dec (unat dev))"
    using d by (cases "to_dec (unat dev)") (auto simp: is_digit_def)
  ultimately show ?thesis by (simp add: dev_arg_def)
qed

interpretation hosted_server: subscriber_hooks "hosted_server_hooks k mc ueq" "\<lambda>c subs. subs @ [c]" "\<lambda>_. True" for k mc ueq
proof (unfold_locales, goal_cases)
  case (1 p event st)
  show ?case by (cases event) (simp_all add: hosted_server_hooks_def hosted_on_gap_event_def Let_def)
next
  case (2 st p event)
  show ?case by (cases event) (simp_all add: hosted_server_hooks_def hosted_on_gap_event_def hook_frame_def Let_def)
qed (simp_all add: hosted_server_hooks_def hosted_on_gatts_event_def hook_frame_def Let_def)

text \<open>
  The hosted server's list of subscribers is the set of connections the C host reported as
  subscribed to the indications, without duplicates, whatever it reports and however many they
  are.
\<close>

theorem hosted_subscribers_exact:
  fixes st :: "'a server_app_scheme"
  assumes "u8_codes k gap_event_consts" and "cf_peripheral cf"
    and "GAP_CALLBACK st \<noteq> None" and "GATTS_CALLBACK st \<noteq> None" and "SUBSCRIBERS st = []"
  shows "let subs = SUBSCRIBERS (handle_events cf k (hosted_server_hooks k mc ueq) es st)
    in distinct subs \<and> set subs = fold (sub_step k (IND_VAL_HANDLE st)) es {}"
  using hosted_server.subs_refine [OF assms, where es = es and mc = mc and ueq = ueq] by (simp add: Let_def)

theorem hosted_subscribers_exact_witness:
  "\<forall>mc. set (SUBSCRIBERS (handle_events all_features nimble_consts (hosted_server_hooks nimble_consts mc (=))
     (map (\<lambda>c. sub_event c True) [1, 2, 3, 4, 5, 2]) server_mem0)) = {1, 2, 3, 4, 5}"
proof
  fix mc
  have st: "GAP_CALLBACK server_mem0 \<noteq> None" "GATTS_CALLBACK server_mem0 \<noteq> None" "SUBSCRIBERS server_mem0 = []" "IND_VAL_HANDLE server_mem0 = 6"
    by (simp_all add: server_mem0_def ble_state.defs server_app.defs gap_subscribe_def gatts_subscribe_def slot_defs)
  have "fold (sub_step nimble_consts 6) (map (\<lambda>c. sub_event c True) [1, 2, 3, 4, 5, 2]) {} = {1, 2, 3, 4, 5}"
    by (auto simp: sub_step_def sub_event_def)
  then show "set (SUBSCRIBERS (handle_events all_features nimble_consts (hosted_server_hooks nimble_consts mc (=))
     (map (\<lambda>c. sub_event c True) [1, 2, 3, 4, 5, 2]) server_mem0)) = {1, 2, 3, 4, 5}"
    using hosted_subscribers_exact [OF u8_codes_nimble(1) _ st(1-3), of all_features mc "(=)" "map (\<lambda>c. sub_event c True) [1, 2, 3, 4, 5, 2]"] st(4)
    by (simp add: Let_def all_features_def)
qed

lemma dynamic_is_static: "macro_services (SERVICES k) = dynamic_services k"
  by (simp add: macro_services_def SERVICES_def dynamic_services_def)

lemma make_server_constructs:
  assumes "host_keeps dc" "cf_peripheral cf" "driver_inv cf (0, st)" "make_server cf k dc dflt defs cbs st = (r, st')"
  shows "if isl r then driver_inv cf (0, st') else TAKEN st'"
proof -
  obtain r1 st1 where n: "Ble_new_with_services cf k dc dflt defs st = (r1, st1)" by fastforce
  have "if r1 = Inr () then TAKEN st1 else driver_inv cf (0, st1)"
    using constructs_services [OF assms(1,2), of k dflt defs] assms(3) n unfolding constructs_def by (metis (full_types))
  then show ?thesis using n assms(4)
    by (cases cbs; cases r1) (auto simp: make_server_def gatts_subscribe_def gap_subscribe_def host_subscribe_def)
qed

text \<open>
  C32: the start of the dynamic server is all or nothing. It never panics. If the device number,
  the socket, any allocation of the service table or the construction of the driver fails, the
  process has the descriptors and the heap blocks it had before and no driver; otherwise it has one more
  descriptor, bound to the device, one driver, and a table from which the C host reads the very
  services of the static server.
\<close>

theorem dynamic_start_all_or_nothing:
  assumes "fds_contract l fds" and "host_keeps dc" "cf_peripheral cf" "driver_inv cf (0, st)"
    and "place_ok place" "heap_ok h" "layout_ok L" "svc_types_ok k"
  shows "\<exists>r os' h' st'. dynamic_server_main l cf k dc dflt cbs place L arg os h st = Some (r, os', h', st') \<and>
    (case r of
       Inl e \<Rightarrow> fds os' = fds os \<and> ch_blocks h' = ch_blocks h \<and> driver_inv cf (0, st')
     | Inr (fd, t) \<Rightarrow> (\<exists>dev. dev_arg arg = Inr dev \<and> fds os fd = None \<and> fds os' = (fds os)(fd \<mapsto> Some (hci_addr l dev))) \<and>
         TAKEN st' \<and> svc_table k L (ch_mem h') (BleGattServices_as_ref t) (macro_services (SERVICES k)))"
proof (cases "dev_arg arg")
  case (Inr dev)
  obtain r1 os1 where t: "Transport_new l dev os = (r1, os1)" by fastforce
  have new: "case r1 of Inr fd \<Rightarrow> fds os fd = None \<and> fds os1 = (fds os)(fd \<mapsto> Some (hci_addr l dev)) | Inl e \<Rightarrow> fds os1 = fds os"
    using transport_new_fds [OF assms(1), where dev = dev and s = os] t by (simp split: sum.splits)
  show ?thesis
  proof (cases r1)
    case (Inr fd)
    have close: "fds (os_close l fd os1) = fds os"
      using assms(1) new Inr unfolding fds_contract_def by (simp add: fun_upd_idem)
    obtain r2 h1 where b: "BleGattServices_new k place L (dynamic_services k) h = Some (r2, h1)"
      and o: "case r2 of Inl e \<Rightarrow> ch_blocks h1 = ch_blocks h
        | Inr t \<Rightarrow> svc_table k L (ch_mem h1) (BleGattServices_as_ref t) (dynamic_services k) \<and>
            (\<exists>h''. BleGattServices_drop t h1 = Some h'' \<and> ch_blocks h'' = ch_blocks h)"
      using services_new_outcome [OF assms(5-8), of "dynamic_services k"] unfolding outcome_def by (fastforce split: sum.splits)
    show ?thesis
    proof (cases r2)
      case (Inl e)
      then show ?thesis using \<open>dev_arg arg = Inr dev\<close> t Inr b o close assms(4)
        by (simp add: dynamic_server_main_def dynamic_make_def)
    next
      case (Inr tab)
      obtain r3 st1 where m: "make_server cf k dc dflt (BleGattServices_as_ref tab) cbs st = (r3, st1)" by fastforce
      obtain h2 where d: "BleGattServices_drop tab h1 = Some h2" "ch_blocks h2 = ch_blocks h" using o Inr by auto
      have "if isl r3 then driver_inv cf (0, st1) else TAKEN st1" by (rule make_server_constructs [OF assms(2-4) m])
      then show ?thesis using \<open>dev_arg arg = Inr dev\<close> t \<open>r1 = Inr fd\<close> b o Inr close m d new
        by (cases r3) (simp_all add: dynamic_server_main_def dynamic_make_def dynamic_is_static)
    qed
  qed (use Inr t new assms(4) in \<open>simp add: dynamic_server_main_def\<close>)
qed (use assms(4) in \<open>simp add: dynamic_server_main_def\<close>)

theorem dynamic_start_all_or_nothing_witness:
  "\<exists>r os' h' st'. dynamic_server_main list_os all_features nimble_consts demo_driver_c 1000 (1, 2, 3) bump demo_layout (Some ''9'')
      [(3, None)] (empty_heap :: 32 word gatt_heap) ble_mem0 = Some (r, os', h', st') \<and>
    r = Inl (IoError 19) \<and> map_of os' = [3 \<mapsto> None] \<and> ch_blocks h' = [] \<and> driver_inv all_features (0, st')"
proof -
  have inv: "driver_inv all_features (0, ble_mem0)" by (simp add: driver_inv_def feature_slots_nothing)
  have cf: "cf_peripheral all_features" by (simp add: all_features_def)
  have "dynamic_server_main list_os all_features nimble_consts demo_driver_c 1000 (1, 2, 3) bump demo_layout (Some ''9'')
      [(3, None)] (empty_heap :: 32 word gatt_heap) ble_mem0 = Some (Inl (IoError 19), [(3, None)], empty_heap, ble_mem0)"
    by (simp add: dynamic_server_main_def dev_arg_def Transport_new_def list_os_def hci_addr_def)
  with dynamic_start_all_or_nothing [where os = "[(3, None)]" and h = "empty_heap :: 32 word gatt_heap" and arg = "Some ''9''" and cbs = "(1, 2, 3)" and dflt = 1000,
      OF list_os_contract demo_keeps cf inv bump_ok demo_ok(2,1) svc_types_nimble]
  show ?thesis by (simp add: empty_heap_def)
qed

definition connects :: "sys_consts \<Rightarrow> ble_gap_event list \<Rightarrow> ble_gap_event list" where
  "connects k es = filter (\<lambda>e. (ucast (ge_type e) :: u32) = k BLE_GAP_EVENT_CONNECT \<and> ec_status (ge_connect e) = 0) es"

definition reads_keep_client :: "'a client_app_scheme mbuf_c \<Rightarrow> bool" where
  "reads_keep_client mc \<longleftrightarrow> (\<forall>om n st. case mb_to_flat mc om n st of (rc, d, c, st') \<Rightarrow>
     CONNECTED st' = CONNECTED st \<and> CONN st' = CONN st \<and> GAP_CALLBACK st' = GAP_CALLBACK st)"

lemma Mbuf_read_state:
  "snd (snd (Mbuf_read mc m buf st)) =
     (if Mbuf_om m = NULL then st else snd (snd (snd (mb_to_flat mc (Mbuf_om m) (as_u16 (length buf)) st))))"
  by (simp add: Mbuf_read_def Let_def split: prod.split sum.split)

lemma hosted_client_step_event:
  fixes st :: "'a client_app_scheme"
  assumes "u8_codes k gap_event_consts" "reads_keep_client mc" "GAP_CALLBACK st \<noteq> None"
    and st'_def: "st' = snd (gap_event_cb cf k (hosted_client_hooks k mc ueq) e st)"
  shows "GAP_CALLBACK st' = GAP_CALLBACK st \<and>
    (if connects k [e] = [] then CONNECTED st' = CONNECTED st \<and> CONN st' = CONN st
     else CONNECTED st' \<and> CONN st' = ec_conn_handle (ge_connect e))"
proof -
  let ?t = "ucast (ge_type e) :: u32"
  obtain g where g: "GAP_CALLBACK st = Some g" using assms(3) by blast
  have ne: "k BLE_GAP_EVENT_SUBSCRIBE \<noteq> k BLE_GAP_EVENT_CONNECT" "k BLE_GAP_EVENT_NOTIFY_TX \<noteq> k BLE_GAP_EVENT_CONNECT"
      "k BLE_GAP_EVENT_NOTIFY_RX \<noteq> k BLE_GAP_EVENT_CONNECT"
    using assms(1) by (auto simp: u8_codes_def gap_event_consts_def)
  have read: "CONNECTED (snd (snd (Mbuf_read mc m buf st))) = CONNECTED st \<and> CONN (snd (snd (Mbuf_read mc m buf st))) = CONN st \<and>
      GAP_CALLBACK (snd (snd (Mbuf_read mc m buf st))) = GAP_CALLBACK st" for m buf
    using spec [OF spec [OF spec [OF assms(2) [unfolded reads_keep_client_def], of "Mbuf_om m"], of "as_u16 (length buf)"], of st]
    by (simp add: Mbuf_read_state case_prod_beta)
  have hooks: "app_gatts (hosted_client_hooks k mc ueq) p = (\<lambda>_ st. (0, st))" "app_gattc (hosted_client_hooks k mc ueq) p = client_on_gattc_event k mc ueq"
    "app_gap (hosted_client_hooks k mc ueq) p = hosted_client_on_gap_event" for p
    by (simp_all add: hosted_client_hooks_def)
  have st': "st' = (if cf_peripheral cf \<and> (?t = k BLE_GAP_EVENT_SUBSCRIBE \<or> ?t = k BLE_GAP_EVENT_NOTIFY_TX) then st
      else if cf_central cf \<and> ?t = k BLE_GAP_EVENT_NOTIFY_RX then
        (if GATTC_CALLBACK st = None then st else client_on_gattc_event k mc ueq (GattcEvent_from_notify_rx e) st)
      else snd (hosted_client_on_gap_event (GapEvent_from cf k e) st))"
    by (simp add: st'_def gap_event_cb_def Let_def slot_defs g hooks split: option.split) auto
  consider (gatts) "?t \<noteq> k BLE_GAP_EVENT_CONNECT" "st' = st"
    | (rx) "?t \<noteq> k BLE_GAP_EVENT_CONNECT" "st' = client_on_gattc_event k mc ueq (GattcEvent_from_notify_rx e) st"
    | (gap) "st' = snd (hosted_client_on_gap_event (GapEvent_from cf k e) st)"
    using ne st' by metis
  then show ?thesis
  proof cases
    case gatts
    then show ?thesis by (simp add: connects_def)
  next
    case rx
    then show ?thesis using read
      by (simp add: connects_def client_on_gattc_event_def GattcEvent_from_notify_rx_def Let_def)
  next
    case gap
    show ?thesis
    proof (cases "?t = k BLE_GAP_EVENT_CONNECT")
      case True
      then show ?thesis using gap
        by (simp add: connects_def hosted_client_on_gap_event_def GapEvent_from_def BleError_check_def)
    next
      case False
      then have "GapEvent_from cf k e \<noteq> Connect c r" for c r by (simp add: GapEvent_from_def Let_def)
      then show ?thesis using gap False
        by (auto simp: connects_def hosted_client_on_gap_event_def split: GapEvent.split)
    qed
  qed
qed

text \<open>
  C37: the hosted client takes a connection for established exactly when the C host reported a
  successful one, and then talks to the connection of the last such report; failed attempts,
  and whatever else is reported in between, change nothing of that.
\<close>

theorem hosted_connected_iff:
  fixes st :: "'a client_app_scheme"
  assumes "u8_codes k gap_event_consts" "reads_keep_client mc" "GAP_CALLBACK st \<noteq> None" "\<not> CONNECTED st"
  shows "let st' = handle_events cf k (hosted_client_hooks k mc ueq) es st
    in if connects k es = [] then \<not> CONNECTED st' \<and> CONN st' = CONN st
       else CONNECTED st' \<and> CONN st' = ec_conn_handle (ge_connect (last (connects k es)))"
proof -
  let ?st = "\<lambda>es. handle_events cf k (hosted_client_hooks k mc ueq) es st"
  have "GAP_CALLBACK (?st es) = GAP_CALLBACK st \<and>
    (if connects k es = [] then \<not> CONNECTED (?st es) \<and> CONN (?st es) = CONN st
     else CONNECTED (?st es) \<and> CONN (?st es) = ec_conn_handle (ge_connect (last (connects k es))))"
  proof (induction es rule: rev_induct)
    case Nil
    then show ?case using assms(4) by (simp add: handle_events_def connects_def)
  next
    case (snoc e es)
    have "?st (es @ [e]) = snd (gap_event_cb cf k (hosted_client_hooks k mc ueq) e (?st es))" "GAP_CALLBACK (?st es) \<noteq> None"
      using snoc.IH assms(3) by (simp_all add: handle_events_def)
    with hosted_client_step_event [OF assms(1,2) this(2,1)] snoc.IH
    show ?case by (auto simp: connects_def split: if_splits)
  qed
  then show ?thesis by (simp add: Let_def)
qed

definition quiet_mbuf :: "'s mbuf_c" where
  "quiet_mbuf = \<lparr>mb_to_flat = (\<lambda>om n s. (0, [], 0, s)), mb_append = (\<lambda>om d s. (0, s)), mb_from_flat = (\<lambda>d s. (NULL, s)),
     mb_get_pkthdr = (\<lambda>n pre s. (NULL, s)), mb_free_chain = (\<lambda>p s. s)\<rparr>"

definition connect_event :: "u16 \<Rightarrow> c_int \<Rightarrow> ble_gap_event" where
  "connect_event c status = zeroed_event\<lparr>ge_type := ucast (nimble_consts BLE_GAP_EVENT_CONNECT),
     ge_connect := (ge_connect zeroed_event)\<lparr>ec_conn_handle := c, ec_status := status\<rparr>\<rparr>"

theorem hosted_connected_iff_witness:
  "let st' = handle_events all_features nimble_consts (hosted_client_hooks nimble_consts quiet_mbuf (=)) [connect_event 0 13, connect_event 7 0] client_mem0
   in CONNECTED st' \<and> CONN st' = 7"
proof -
  have "reads_keep_client quiet_mbuf" by (simp add: reads_keep_client_def quiet_mbuf_def)
  moreover have "connects nimble_consts [connect_event 0 13, connect_event 7 0] = [connect_event 7 0]"
    by (simp add: connects_def connect_event_def)
  moreover have "\<not> CONNECTED client_mem0" by (simp add: client_mem0_def ble_state.defs client_app.defs)
  ultimately show ?thesis
    using hosted_connected_iff [OF u8_codes_nimble(1), of quiet_mbuf client_mem0 all_features "(=)" "[connect_event 0 13, connect_event 7 0]"]
    by (simp add: Let_def connect_event_def)
qed

end
