(* ===== verification/Example_L2cap.thy ===== *)
theory Example_L2cap
  imports Example_Hosted
begin

text \<open>
  The L2CAP echo example (\<open>examples/std/src/bin/l2cap.rs\<close>): the hooks that both roles share, the
  start and the tasks of the server and of the client. A hook that panics, which happens only
  before the driver is in its static, aborts the process; it is \<open>None\<close> and, as the trampoline sees
  it, the flag \<open>aborted\<close>. Logging is left out.
\<close>

section \<open>State and hooks\<close>

definition L2CAP_DEVICE_NAME :: bytes where
  "L2CAP_DEVICE_NAME = map (of_char :: char \<Rightarrow> u8) ''nimble-rs-l2cap''"

definition PSM :: u16 where "PSM = 0x0080"

definition MTU :: u16 where "MTU = 512"

record echo_app = ble_state +
  SYNCED :: bool
  SERVER :: bool
  PEER :: "BleAddr option"
  CONN :: ConnHandle
  CONNECTED :: bool
  DISCONNECTED :: bool
  CHAN :: "L2capChan option"
  DRIVER :: bool
  aborted :: bool

definition echo_on_host_event :: "HostEvent \<Rightarrow> 'a echo_app_scheme \<Rightarrow> 'a echo_app_scheme" where
  "echo_on_host_event event st = (if event = Sync then st\<lparr>SYNCED := True\<rparr> else st)"

definition echo_on_gap_event :: "GapEvent \<Rightarrow> 'a echo_app_scheme \<Rightarrow> c_int \<times> 'a echo_app_scheme" where
  "echo_on_gap_event event st =
     (0, case event of
           Discovery event_type addr rssi data \<Rightarrow>
             (if adv_scan L2CAP_DEVICE_NAME data \<and> PEER st = None then st\<lparr>PEER := Some addr\<rparr> else st)
         | Connect conn_handle status \<Rightarrow>
             (case status of Inr _ \<Rightarrow> st\<lparr>CONN := conn_handle, CONNECTED := True\<rparr> | Inl _ \<Rightarrow> st)
         | Disconnect conn_handle reason \<Rightarrow> st\<lparr>DISCONNECTED := True, CHAN := None\<rparr>
         | _ \<Rightarrow> st)"

definition server_driver_recv_ready :: "sys_consts \<Rightarrow> 'a echo_app_scheme mbuf_c \<Rightarrow> 'a echo_app_scheme l2cap_c \<Rightarrow> L2capChan \<Rightarrow>
    'a echo_app_scheme \<Rightarrow> (unit ble_result \<times> 'a echo_app_scheme) option" where
  "server_driver_recv_ready k mc lc chan st = (if DRIVER st then Some (l2cap_recv_ready k mc lc chan MTU st) else None)"

definition server_driver_echo :: "sys_consts \<Rightarrow> 'a echo_app_scheme mbuf_c \<Rightarrow> 'a echo_app_scheme l2cap_c \<Rightarrow> L2capChan \<Rightarrow> bytes \<Rightarrow>
    'a echo_app_scheme \<Rightarrow> (unit ble_result \<times> 'a echo_app_scheme) option" where
  "server_driver_echo k mc lc chan data st =
     (if DRIVER st then Some (let (r, st1) = l2cap_send k mc lc chan data st in (map_sum id (\<lambda>_. ()) r, st1)) else None)"

text \<open>The slice of the buffer up to the number of bytes read panics when that is out of range.\<close>

definition echo_on_l2cap_event :: "sys_consts \<Rightarrow> 'a echo_app_scheme mbuf_c \<Rightarrow> 'a echo_app_scheme l2cap_c \<Rightarrow> L2capEvent \<Rightarrow>
    'a echo_app_scheme \<Rightarrow> (c_int \<times> 'a echo_app_scheme) option" where
  "echo_on_l2cap_event k mc lc event st =
     (case event of
        Accept conn_handle peer_sdu_size chan \<Rightarrow> do {
          (r, st1) \<leftarrow> server_driver_recv_ready k mc lc chan st;
          case r of
            Inl _ \<Rightarrow> Some (1, st1)
          | Inr _ \<Rightarrow> Some (0, st1\<lparr>CHAN := Some chan\<rparr>)
        }
      | Connected conn_handle status chan \<Rightarrow> Some (0, if status = 0 then st\<lparr>CHAN := Some chan\<rparr> else st)
      | Received conn_handle chan data \<Rightarrow>
          (let (r, buf, st1) = Mbuf_read mc data (replicate (unat MTU) 0) st;
               n = (case r of Inl _ \<Rightarrow> 0 | Inr n \<Rightarrow> n)
           in if length buf < n then None
              else do {
                st2 \<leftarrow> (if SERVER st1 then map_option snd (server_driver_echo k mc lc chan (take n buf) st1) else Some st1);
                (r, st3) \<leftarrow> server_driver_recv_ready k mc lc chan st2;
                Some (0, st3)
              })
      | Disconnected conn_handle chan \<Rightarrow> Some (0, st\<lparr>CHAN := None\<rparr>)
      | _ \<Rightarrow> Some (0, st))"

definition abort_on_panic :: "('e \<Rightarrow> 'a echo_app_scheme \<Rightarrow> (c_int \<times> 'a echo_app_scheme) option) \<Rightarrow> 'e \<Rightarrow> 'a echo_app_scheme \<Rightarrow>
    c_int \<times> 'a echo_app_scheme" where
  "abort_on_panic f event st = (case f event st of Some r \<Rightarrow> r | None \<Rightarrow> (0, st\<lparr>aborted := True\<rparr>))"

definition echo_hooks :: "sys_consts \<Rightarrow> 'a echo_app_scheme mbuf_c \<Rightarrow> 'a echo_app_scheme l2cap_c \<Rightarrow> 'a echo_app_scheme app" where
  "echo_hooks k mc lc = \<lparr>app_host = (\<lambda>_. echo_on_host_event), app_gap = (\<lambda>_. echo_on_gap_event),
     app_gatts = (\<lambda>_ _ st. (0, st)), app_gattc = (\<lambda>_ _ st. st), app_l2cap = (\<lambda>_. abort_on_panic (echo_on_l2cap_event k mc lc))\<rparr>"

section \<open>Start\<close>

definition echo_role :: "string option \<Rightarrow> start_error + bool" where
  "echo_role arg =
     (let role = (case arg of None \<Rightarrow> ''server'' | Some r \<Rightarrow> r)
      in if role = ''server'' then Inr True else if role = ''client'' then Inr False else Inl (BadRole role))"

definition make_echo :: "ble_cfg \<Rightarrow> sys_consts \<Rightarrow> 'a echo_app_scheme driver_c \<Rightarrow> ptr \<Rightarrow> ptr \<times> ptr \<times> ptr \<Rightarrow>
    'a echo_app_scheme \<Rightarrow> unit ble_result \<times> 'a echo_app_scheme" where
  "make_echo cf k dc dflt = (\<lambda>(on_host, on_gap, on_l2cap) st.
     case Ble_new cf k dc dflt st of
       (Inl e, st1) \<Rightarrow> (Inl e, st1)
     | (Inr _, st1) \<Rightarrow> (Inr (), l2cap_subscribe on_l2cap (gap_subscribe on_gap (host_subscribe on_host (st1\<lparr>DRIVER := True\<rparr>)))))"

text \<open>The device number is parsed before the role is looked at, and both before the device is opened.\<close>

definition echo_main :: "'o libc \<Rightarrow> ble_cfg \<Rightarrow> sys_consts \<Rightarrow> 'a echo_app_scheme driver_c \<Rightarrow> ptr \<Rightarrow> ptr \<times> ptr \<times> ptr \<Rightarrow>
    string list \<Rightarrow> 'o \<Rightarrow> 'a echo_app_scheme \<Rightarrow> (start_error + int) \<times> 'o \<times> 'a echo_app_scheme" where
  "echo_main l cf k dc dflt cbs args os st =
     (let role = (case args of [] \<Rightarrow> None | r # _ \<Rightarrow> Some r);
          arg = (case args of _ # a # _ \<Rightarrow> Some a | _ \<Rightarrow> None)
      in case dev_arg arg of
           Inl e \<Rightarrow> (Inl e, os, st)
         | Inr _ \<Rightarrow>
        (case echo_role role of
           Inl e \<Rightarrow> (Inl e, os, st)
         | Inr server \<Rightarrow> hosted_start l arg (make_echo cf k dc dflt cbs) os (st\<lparr>SERVER := server\<rparr>)))"

section \<open>Tasks\<close>

datatype echo_phase = EchoSync | EchoPending | EchoPeer | EchoConnected | EchoChan | EchoSecond u32 | EchoReturned

definition echo_adv_fields :: BleAdvFields where
  "echo_adv_fields = server_adv_fields\<lparr>af_name := Some L2CAP_DEVICE_NAME\<rparr>"

definition echo_adv_params :: BleAdvParams where
  "echo_adv_params = \<lparr>ap_conn_mode = 2, ap_disc_mode = 2, ap_itvl_min = 0, ap_itvl_max = 0, ap_channel_map = 0,
     ap_filter_policy = 0, ap_high_duty_cycle = False\<rparr>"

text \<open>What the server does once the host is in sync; every \<open>expect\<close> panics on an error.\<close>

definition echo_serve :: "sys_consts \<Rightarrow> 'a echo_app_scheme gap_c \<Rightarrow> 'a echo_app_scheme l2cap_c \<Rightarrow> 'a echo_app_scheme \<Rightarrow>
    'a echo_app_scheme option" where
  "echo_serve k gc lc st =
     (case l2cap_create_server lc PSM MTU st of (Inl _, _) \<Rightarrow> None | (Inr _, st1) \<Rightarrow>
     (case set_device_name k gc L2CAP_DEVICE_NAME st1 of (Inl _, _) \<Rightarrow> None | (Inr _, st2) \<Rightarrow>
     (case adv_set_fields gc echo_adv_fields st2 of (Inl _, _) \<Rightarrow> None | (Inr _, st3) \<Rightarrow>
     (case adv_start k gc 0 echo_adv_params st3 of (Inl _, _) \<Rightarrow> None | (Inr _, st4) \<Rightarrow> Some st4))))"

definition echo_send_loop :: "u32 \<Rightarrow> 'a echo_app_scheme \<Rightarrow> echo_phase \<times> 'a echo_app_scheme" where
  "echo_send_loop counter st = (if DISCONNECTED st then EchoReturned else EchoSecond counter, st)"

fun echo_step :: "sys_consts \<Rightarrow> 'a echo_app_scheme gap_c \<Rightarrow> 'a echo_app_scheme gattc_c \<Rightarrow> 'a echo_app_scheme mbuf_c \<Rightarrow>
    'a echo_app_scheme l2cap_c \<Rightarrow> echo_phase \<Rightarrow> 'a echo_app_scheme \<Rightarrow> (echo_phase \<times> 'a echo_app_scheme) option" where
  "echo_step k gc cc mc lc EchoSync st =
     (if \<not> SYNCED st then Some (EchoSync, st)
      else if SERVER st then map_option (Pair EchoPending) (echo_serve k gc lc st)
      else case disc gc 0 None default_disc_params st of
          (Inl _, _) \<Rightarrow> None
        | (Inr _, st1) \<Rightarrow> Some (EchoPeer, st1))"
| "echo_step k gc cc mc lc EchoPending st = Some (EchoPending, st)"
| "echo_step k gc cc mc lc EchoPeer st =
     (if PEER st = None then Some (EchoPeer, st)
      else let st1 = snd (disc_cancel gc st)
        in case PEER st1 of
             None \<Rightarrow> None
           | Some peer \<Rightarrow>
               (case connect cc 0 peer st1 of
                  (Inl _, _) \<Rightarrow> None
                | (Inr _, st2) \<Rightarrow> Some (EchoConnected, st2)))"
| "echo_step k gc cc mc lc EchoConnected st =
     (if \<not> CONNECTED st then Some (EchoConnected, st)
      else case l2cap_connect k mc lc (CONN st) PSM MTU st of
          (Inl _, _) \<Rightarrow> None
        | (Inr _, st1) \<Rightarrow> Some (EchoChan, st1))"
| "echo_step k gc cc mc lc EchoChan st =
     Some (if CHAN st = None then (EchoChan, st) else echo_send_loop 0 st)"
| "echo_step k gc cc mc lc (EchoSecond counter) st =
     Some (case CHAN st of
       None \<Rightarrow> (EchoReturned, st)
     | Some chan \<Rightarrow>
         (let counter = counter + 1
          in echo_send_loop counter (snd (l2cap_send k mc lc chan (to_le_bytes 4 counter) st))))"
| "echo_step k gc cc mc lc EchoReturned st = Some (EchoReturned, st)"

section \<open>The host as the echo sees it\<close>

text \<open>
  \<open>outbox\<close> lists the SDUs the C host accepted for sending, with their channels, and \<open>armed\<close> the
  channels it was given a receive buffer for. An SDU is accepted when \<open>ble_l2cap_send\<close> returns zero or
  \<open>BLE_HS_ESTALLED\<close>. None of the functions touches the statics of the example.
\<close>

definition echo_view :: "('a echo_app_scheme \<Rightarrow> 'o) \<Rightarrow> ('a echo_app_scheme \<Rightarrow> 'r) \<Rightarrow> 'a echo_app_scheme \<Rightarrow> 'o \<times> 'r \<times> bool \<times> bool \<times> bool" where
  "echo_view outbox armed st = (outbox st, armed st, SERVER st, DRIVER st, aborted st)"

definition echo_host :: "sys_consts \<Rightarrow> 'a echo_app_scheme mbuf_c \<Rightarrow> 'a echo_app_scheme l2cap_c \<Rightarrow>
    ('a echo_app_scheme \<Rightarrow> ptr \<Rightarrow> bytes option) \<Rightarrow> ('a echo_app_scheme \<Rightarrow> (ptr \<times> bytes) list) \<Rightarrow> ('a echo_app_scheme \<Rightarrow> ptr list) \<Rightarrow> bool" where
  "echo_host k mc lc pool outbox armed \<longleftrightarrow>
     (\<forall>n pre st. echo_view outbox armed (snd (mb_get_pkthdr mc n pre st)) = echo_view outbox armed st) \<and>
     (\<forall>d st. echo_view outbox armed (snd (mb_from_flat mc d st)) = echo_view outbox armed st) \<and>
     (\<forall>p st. echo_view outbox armed (mb_free_chain mc p st) = echo_view outbox armed st) \<and>
     (\<forall>ch p st data rc st'. pool st p = Some data \<longrightarrow> lc_send lc ch p st = (rc, st') \<longrightarrow>
        echo_view outbox armed st' =
          (outbox st @ (if as_u32 rc = 0 \<or> as_u32 rc = k BLE_HS_ESTALLED then [(ch, data)] else []), armed st, SERVER st, DRIVER st, aborted st)) \<and>
     (\<forall>ch p st rc st'. lc_recv_ready lc ch p st = (rc, st') \<longrightarrow>
        echo_view outbox armed st' = (outbox st, armed st @ (if rc = 0 then [ch] else []), SERVER st, DRIVER st, aborted st))"

lemma send_view:
  assumes "echo_host k mc lc pool outbox armed" "mbuf_contract mc pool" "send_codes_ok k" "length data < 2 ^ 16"
    and "l2cap_send k mc lc (L2capChan ch) data st = (r, st')"
  shows "echo_view outbox armed st' = (outbox st @ (if isl r then [] else [(ch, data)]), armed st, SERVER st, DRIVER st, aborted st)"
proof -
  obtain om st1 where a: "mb_from_flat mc data st = (om, st1)" by fastforce
  have v1: "echo_view outbox armed st1 = echo_view outbox armed st"
    using assms(1) a unfolding echo_host_def by (metis snd_conv)
  show ?thesis
  proof (cases "om = NULL")
    case True
    then show ?thesis using assms(5) a v1 c_view_id [OF assms(4)] by (auto simp: l2cap_send_def echo_view_def)
  next
    case False
    obtain rc st2 where s: "lc_send lc ch om st1 = (rc, st2)" by fastforce
    have "pool st1 om = Some data" using mbuf_from_flatD [OF assms(2) a] False by simp
    then have v2: "echo_view outbox armed st2 =
        (outbox st1 @ (if as_u32 rc = 0 \<or> as_u32 rc = k BLE_HS_ESTALLED then [(ch, data)] else []), armed st1, SERVER st1, DRIVER st1, aborted st1)"
      using assms(1) s unfolding echo_host_def by blast
    have fr: "echo_view outbox armed (free_mbuf mc om st2) = echo_view outbox armed st2"
      using assms(1) unfolding echo_host_def free_mbuf_def by simp
    have rc: "as_u32 rc \<noteq> 0 \<Longrightarrow> rc \<noteq> 0" by (auto simp: as_u32_def)
    show ?thesis using assms(3,5) a s False v1 v2 fr rc c_view_id [OF assms(4)]
      by (auto simp: l2cap_send_def echo_view_def send_codes_ok_def BleError_check_def split: if_splits)
  qed
qed

lemma recv_ready_view:
  assumes "echo_host k mc lc pool outbox armed" "l2cap_recv_ready k mc lc (L2capChan ch) n st = (r, st')"
  shows "echo_view outbox armed st' = (outbox st, armed st @ (if isl r then [] else [ch]), SERVER st, DRIVER st, aborted st)"
proof -
  obtain om st1 where a: "mb_get_pkthdr mc n 0 st = (om, st1)" by fastforce
  have v1: "echo_view outbox armed st1 = echo_view outbox armed st"
    using assms(1) a unfolding echo_host_def by (metis snd_conv)
  show ?thesis
  proof (cases "om = NULL")
    case True
    then show ?thesis using assms(2) a v1 by (auto simp: l2cap_recv_ready_def alloc_sdu_def echo_view_def)
  next
    case False
    obtain rc st2 where s: "lc_recv_ready lc ch om st1 = (rc, st2)" by fastforce
    then have v2: "echo_view outbox armed st2 = (outbox st1, armed st1 @ (if rc = 0 then [ch] else []), SERVER st1, DRIVER st1, aborted st1)"
      using assms(1) unfolding echo_host_def by blast
    have fr: "echo_view outbox armed (free_mbuf mc om st2) = echo_view outbox armed st2"
      using assms(1) unfolding echo_host_def free_mbuf_def by simp
    show ?thesis using assms(2) a s False v1 v2 fr
      by (auto simp: l2cap_recv_ready_def alloc_sdu_def echo_view_def BleError_check_def Let_def split: if_splits)
  qed
qed

section \<open>Properties\<close>

lemma received_read:
  assumes "mbuf_contract mc pool" "pool st om = Some xs" "om \<noteq> NULL" "length xs \<le> 512"
  shows "Mbuf_read mc (Mbuf_from_raw om) (replicate (unat MTU) 0) st = (Inr (length xs), xs @ replicate (512 - length xs) 0, st)"
  using mbuf_to_flatD [OF assms(1,2), of MTU] assms(3,4)
  by (auto simp: Mbuf_read_def Mbuf_from_raw_def MTU_def as_u16_def BleError_check_def min_def)

text \<open>
  C17: a received SDU. The server sends exactly its bytes back on its channel, once, unless the
  host refuses them; the client sends nothing. Either one then gives the channel a new receive buffer,
  if the host takes it, and the received buffer is freed, on every return code of the host. The
  hook never panics once the driver is in its static.
\<close>

theorem echo_received:
  fixes st :: "'a echo_app_scheme"
  assumes "echo_host k mc lc pool outbox armed" "mbuf_contract mc pool" "l2cap_contract k mc lc mine" "send_codes_ok k"
    and "distinct (map k [BLE_L2CAP_EVENT_COC_CONNECTED, BLE_L2CAP_EVENT_COC_DISCONNECTED, BLE_L2CAP_EVENT_COC_ACCEPT, BLE_L2CAP_EVENT_COC_DATA_RECEIVED])"
    and "ucast (le_type event) = k BLE_L2CAP_EVENT_COC_DATA_RECEIVED" "le_receive event = \<lparr>lr_conn_handle = c, lr_chan = ch, lr_sdu_rx = om\<rparr>"
    and "om \<noteq> NULL" "om \<in> mine st" "pool st om = Some xs" "length xs \<le> 512" "DRIVER st"
    and "l2cap_send k mc lc (L2capChan ch) xs st = (echoed, st1)" "st2 = (if SERVER st then st1 else st)"
    and "l2cap_recv_ready k mc lc (L2capChan ch) MTU st2 = (ready, st3)"
  shows "\<exists>st'. l2cap_event_cb k mc (Some (abort_on_panic (echo_on_l2cap_event k mc lc))) event st = (0, st') \<and>
    outbox st' = outbox st @ (if SERVER st \<and> \<not> isl echoed then [(ch, xs)] else []) \<and>
    armed st' = armed st @ (if isl ready then [] else [ch]) \<and>
    mine st' = mine st - {om} \<and> aborted st' = aborted st"
proof -
  have ev: "L2capEvent_from_raw k event = Some (Received c (L2capChan ch) (Mbuf_from_raw om))"
    using assms(5-7) by (auto simp: L2capEvent_from_raw_def Let_def)
  have len: "length xs < 2 ^ 16" using assms(11) by simp
  note sv = send_view [OF assms(1,2,4) len assms(13)] and rv = recv_ready_view [OF assms(1,15)]
  have v2: "outbox st2 = outbox st @ (if SERVER st \<and> \<not> isl echoed then [(ch, xs)] else [])" "armed st2 = armed st" "DRIVER st2" "aborted st2 = aborted st"
    using sv assms(12,14) by (auto simp: echo_view_def)
  have hook: "echo_on_l2cap_event k mc lc (Received c (L2capChan ch) (Mbuf_from_raw om)) st = Some (0, st3)"
    using received_read [OF assms(2,10,8,11)] assms(12-15) v2(3)
    by (cases "SERVER st") (auto simp: echo_on_l2cap_event_def server_driver_echo_def server_driver_recv_ready_def Let_def)
  have mine: "mine st3 = mine st"
    using l2cap_send_owned [OF assms(3,4,13)] recv_ready_owned [OF assms(3,15)] assms(14) by simp
  have pool: "pool_owned mc mine" using assms(3) by (simp add: l2cap_contract_def)
  have fin: "l2cap_event_cb k mc (Some (abort_on_panic (echo_on_l2cap_event k mc lc))) event st = (0, free_mbuf mc om st3)"
    using ev hook assms(6,7) by (simp add: l2cap_event_cb_def abort_on_panic_def)
  have "echo_view outbox armed (free_mbuf mc om st3) = echo_view outbox armed st3"
    using assms(1) unfolding echo_host_def free_mbuf_def by simp
  then show ?thesis
    using fin v2 rv mine free_mbuf_owned [OF pool, of om st3] assms(8,9) by (auto simp: echo_view_def)
qed

text \<open>A host for the example: its buffers, what it was asked to send and the channels it was armed for.\<close>

record demo_echo = echo_app +
  bufs :: list_pool
  ours :: "ptr list"
  sent_log :: "(ptr \<times> bytes) list"
  armed_log :: "ptr list"

definition on_bufs :: "(list_pool \<Rightarrow> 'x \<times> list_pool) \<Rightarrow> demo_echo \<Rightarrow> 'x \<times> demo_echo" where
  "on_bufs f st = (case f (bufs st) of (x, b) \<Rightarrow> (x, st\<lparr>bufs := b\<rparr>))"

definition demo_echo_mbuf :: "demo_echo mbuf_c" where
  "demo_echo_mbuf = \<lparr>
     mb_to_flat = (\<lambda>om n st. case mb_to_flat list_mbuf om n (bufs st) of (rc, d, c, b) \<Rightarrow> (rc, d, c, st)),
     mb_append = (\<lambda>om d. on_bufs (mb_append list_mbuf om d)),
     mb_from_flat = (\<lambda>d st. let p = Suc (length (bufs st)) in (p, st\<lparr>bufs := bufs st @ [Some d], ours := p # ours st\<rparr>)),
     mb_get_pkthdr = (\<lambda>n pre st. let p = Suc (length (bufs st)) in (p, st\<lparr>bufs := bufs st @ [Some []], ours := p # ours st\<rparr>)),
     mb_free_chain = (\<lambda>p st. st\<lparr>bufs := (bufs st)[p - 1 := None], ours := removeAll p (ours st)\<rparr>)\<rparr>"

definition mine_of :: "demo_echo \<Rightarrow> ptr set" where
  "mine_of st = {p \<in> set (ours st). p \<le> length (bufs st)}"

definition demo_echo_l2cap :: "demo_echo l2cap_c" where
  "demo_echo_l2cap = \<lparr>
     lc_create_server = (\<lambda>psm mtu cb st. (0, st)), lc_connect = (\<lambda>h psm mtu p cb st. (7, st)),
     lc_send = (\<lambda>ch p st. (0, st\<lparr>sent_log := sent_log st @ (case list_contents (bufs st) p of Some d \<Rightarrow> [(ch, d)] | None \<Rightarrow> []), ours := removeAll p (ours st)\<rparr>)),
     lc_recv_ready = (\<lambda>ch p st. (0, st\<lparr>armed_log := armed_log st @ [ch], ours := removeAll p (ours st)\<rparr>)),
     lc_disconnect = (\<lambda>ch st. (0, st))\<rparr>"

lemma demo_echo_host: "echo_host nimble_consts demo_echo_mbuf demo_echo_l2cap (\<lambda>st. list_contents (bufs st)) sent_log armed_log"
  by (auto simp: echo_host_def echo_view_def demo_echo_mbuf_def demo_echo_l2cap_def Let_def as_u32_def)

lemma demo_echo_pool: "mbuf_contract demo_echo_mbuf (\<lambda>st. list_contents (bufs st))"
  unfolding mbuf_contract_def
proof (intro conjI)
  have l: "to_flat_ok list_mbuf list_contents" "append_ok list_mbuf list_contents" "from_flat_ok list_mbuf list_contents"
    "get_pkthdr_ok list_mbuf list_contents" "free_chain_ok list_mbuf list_contents"
    using list_mbuf_contract by (simp_all add: mbuf_contract_def)
  show "to_flat_ok demo_echo_mbuf (\<lambda>st. list_contents (bufs st))"
    unfolding to_flat_ok_def
  proof (intro allI impI)
    fix om n xs and st :: demo_echo assume "list_contents (bufs st) om = Some xs"
    with l(1) obtain rc copied where "mb_to_flat list_mbuf om n (bufs st) = (rc, take (unat n) xs, copied, bufs st)"
      "unat copied = min (length xs) (unat n)" "(rc = 0) = (length xs \<le> unat n)"
      unfolding to_flat_ok_def by blast
    then show "\<exists>rc copied. mb_to_flat demo_echo_mbuf om n st = (rc, take (unat n) xs, copied, st) \<and>
        unat copied = min (length xs) (unat n) \<and> (rc = 0) = (length xs \<le> unat n)"
      by (simp add: demo_echo_mbuf_def)
  qed
  show "append_ok demo_echo_mbuf (\<lambda>st. list_contents (bufs st))"
    using l(2) unfolding append_ok_def by (auto simp: demo_echo_mbuf_def on_bufs_def split: prod.splits)
  have "list_contents s (Suc (length s)) = None" for s by (simp add: list_contents_def)
  then show "from_flat_ok demo_echo_mbuf (\<lambda>st. list_contents (bufs st))" "get_pkthdr_ok demo_echo_mbuf (\<lambda>st. list_contents (bufs st))"
    by (auto simp: from_flat_ok_def get_pkthdr_ok_def demo_echo_mbuf_def Let_def)
  show "free_chain_ok demo_echo_mbuf (\<lambda>st. list_contents (bufs st))"
    using list_live by (auto simp: free_chain_ok_def demo_echo_mbuf_def list_contents_upd simp del: One_nat_def)
qed

lemma demo_echo_contract: "l2cap_contract nimble_consts demo_echo_mbuf demo_echo_l2cap mine_of"
proof -
  have "pool_owned demo_echo_mbuf mine_of"
    by (auto simp: pool_owned_def alloc_owned_def demo_echo_mbuf_def mine_of_def Let_def)
  moreover have "connect_owned nimble_consts demo_echo_l2cap mine_of" by (simp add: connect_owned_def demo_echo_l2cap_def)
  ultimately show ?thesis
    by (auto simp: l2cap_contract_def takes_unless_def demo_echo_l2cap_def mine_of_def as_u32_def)
qed

definition demo_echo0 :: "bool \<Rightarrow> demo_echo" where
  "demo_echo0 server = echo_app.extend
     (ble_state.extend ble_mem0 (echo_app.fields True server None 1 True False (Some (L2capChan 9)) True False))
     \<lparr>bufs = [Some [10, 20, 30]], ours = [1], sent_log = [], armed_log = []\<rparr>"

theorem echo_received_witness:
  "\<exists>st'. l2cap_event_cb nimble_consts demo_echo_mbuf (Some (abort_on_panic (echo_on_l2cap_event nimble_consts demo_echo_mbuf demo_echo_l2cap)))
     (demo_received\<lparr>le_receive := \<lparr>lr_conn_handle = 1, lr_chan = 9, lr_sdu_rx = 1\<rparr>\<rparr>) (demo_echo0 True) = (0, st') \<and>
   sent_log st' = [(9, [10, 20, 30])] \<and> armed_log st' = [9] \<and> mine_of st' = {}"
proof -
  let ?st = "demo_echo0 True"
  have st: "bufs ?st = [Some [10, 20, 30]]" "ours ?st = [1]" "sent_log ?st = []" "armed_log ?st = []" "SERVER ?st" "DRIVER ?st"
    by (simp_all add: demo_echo0_def ble_state.defs echo_app.defs)
  obtain e st1 where s: "l2cap_send nimble_consts demo_echo_mbuf demo_echo_l2cap (L2capChan 9) [10, 20, 30] ?st = (e, st1)" by fastforce
  obtain r st3 where rr: "l2cap_recv_ready nimble_consts demo_echo_mbuf demo_echo_l2cap (L2capChan 9) MTU st1 = (r, st3)" by fastforce
  have "\<not> isl e" "\<not> isl r"
    using s rr by (auto simp: l2cap_send_def l2cap_recv_ready_def alloc_sdu_def demo_echo_mbuf_def demo_echo_l2cap_def Let_def
      as_u32_def BleError_check_def)
  moreover have "send_codes_ok nimble_consts" by (simp add: send_codes_ok_def)
  ultimately show ?thesis
    using echo_received [OF demo_echo_host demo_echo_pool demo_echo_contract _ _ _ _ _ _ _ _ _ s _ rr,
        where event = "demo_received\<lparr>le_receive := \<lparr>lr_conn_handle = 1, lr_chan = 9, lr_sdu_rx = 1\<rparr>\<rparr>" and c = 1 and om = 1] st
    by (auto simp: demo_received_def list_contents_def mine_of_def)
qed

end
