(* ===== verification/Example_Boards.thy ===== *)
theory Example_Boards
  imports Npl_Sync Ble_Types
begin

text \<open>
  The board support of the microcontroller examples, as far as it has logic of its own: the parker
  over the scheduler of Espressif chips (\<open>examples/esp/src/lib.rs\<close>), the unaligned accesses of the
  Raspberry Pi Pico (\<open>examples/rp/src/lib.rs\<close>), and the controller that drives the runner of its
  radio (\<open>examples/rp/src/cyw43_adapter.rs\<close>), with the loop that assembles them.
\<close>

section \<open>The parker of the Espressif examples\<close>

text \<open>
  The thread semaphore of a task is the binary semaphore \<open>sem_of t\<close>, the permit of that name in the platform
  state. The clock counts \<open>hz\<close> ticks per second. \<open>take\<close> with a time limit returns when the semaphore was
  given, or when the limit is up.
\<close>

definition U32_MAX :: nat where "U32_MAX = 2 ^ 32 - 1"

definition as_micros :: "nat \<Rightarrow> nat \<Rightarrow> nat" where
  "as_micros hz ticks = ticks * 1000000 div hz"

definition esp_timeout :: "nat \<Rightarrow> instant option \<Rightarrow> instant \<Rightarrow> nat option" where
  "esp_timeout hz dl now = map_option (\<lambda>d. min (as_micros hz (d - now)) U32_MAX) dl"

definition sem_take :: "nat \<Rightarrow> nat option \<Rightarrow> plat \<Rightarrow> plat option" where
  "sem_take sem timeout_us s =
     (if pl_permit s sem then Some (s\<lparr>pl_permit := (pl_permit s)(sem := False)\<rparr>)
      else if timeout_us = Some 0 then Some s else None)"

definition EspRtosParker :: "nat \<Rightarrow> (nat \<Rightarrow> nat) \<Rightarrow> parker_obj" where
  "EspRtosParker hz sem_of = \<lparr>
     pk_ctx_id = (\<lambda>t. t),
     pk_waker = (\<lambda>t. ThreadWaker (sem_of t)),
     pk_park = (\<lambda>t dl s. sem_take (sem_of t) (esp_timeout hz dl (pl_clock s)) s)\<rparr>"

interpretation esp: timed_parker "EspRtosParker hz sem_of" for hz sem_of
proof (unfold_locales, goal_cases)
  case (3 t dl s w)
  then show ?case by (cases w) (auto simp: EspRtosParker_def sem_take_def split: if_splits)
next
  case (4 t dl s c)
  have "as_micros hz (d - c) \<le> as_micros hz (d - pl_clock s)" for d
    using 4(2) unfolding as_micros_def by (intro div_le_mono mult_le_mono1 diff_le_mono2)
  then have "min (as_micros hz (d - c)) U32_MAX \<le> min (as_micros hz (d - pl_clock s)) U32_MAX" for d
    by (rule min.mono) simp
  then have le: "min (as_micros hz (d - pl_clock s)) U32_MAX = 0 \<Longrightarrow> min (as_micros hz (d - c)) U32_MAX = 0" for d
    by (metis le_zero_eq)
  have "esp_timeout hz dl (pl_clock s) = Some 0 \<Longrightarrow> esp_timeout hz dl c = Some 0"
    unfolding esp_timeout_def using le by (cases dl) (simp_all del: min_0R min_0L)
  with 4(1) show ?case by (auto simp: EspRtosParker_def sem_take_def split: if_splits)
next
  case (5 d s t)
  then show ?case by (simp add: EspRtosParker_def sem_take_def esp_timeout_def as_micros_def)
qed (auto simp: EspRtosParker_def sem_take_def)

text \<open>
  With the parker the Espressif examples inject, a context that waits for a semaphore and is about
  to park while the semaphore has a token, and no wake-up is on its way any more, does not sleep:
  the wake-up is latched in its thread semaphore. It does not sleep past its deadline either.
\<close>

theorem esp_no_lost_wakeup:
  assumes "(sem_step checks (EspRtosParker hz sem_of) me w impl dl)\<^sup>*\<^sup>* (sem_start tokens pl) s" and "impl w = ThreadWaker (sem_of me)"
    and "ss_pc s = Park" and "sem_count (ss_sem s) \<noteq> 0 \<and> ss_pending s = [] \<or> (\<exists>d. dl = Some d \<and> d \<le> pl_clock (ss_plat s))"
  shows "\<exists>pl'. pk_park (EspRtosParker hz sem_of) me dl (ss_plat s) = Some pl' \<and>
    sem_step checks (EspRtosParker hz sem_of) me w impl dl s (s\<lparr>ss_pc := Check1, ss_plat := pl'\<rparr>)"
proof -
  have "impl w = pk_waker (EspRtosParker hz sem_of) me" using assms(2) by (simp add: EspRtosParker_def)
  from esp.sem_no_lost_wakeup [OF assms(1) this assms(3)] assms(4) esp.deadline_bounds
  show ?thesis using sem_step.park [OF assms(3)] by blast
qed

section \<open>Unaligned accesses\<close>

text \<open>Memory is byte-addressed and the core little-endian; \<open>copy_nonoverlapping\<close> moves \<open>n\<close> bytes.\<close>

type_synonym mem = "nat \<Rightarrow> u8"

definition copy_from :: "nat \<Rightarrow> nat \<Rightarrow> mem \<Rightarrow> bytes" where
  "copy_from address n m = map (\<lambda>i. m (address + i)) [0..<n]"

definition copy_to :: "bytes \<Rightarrow> nat \<Rightarrow> mem \<Rightarrow> mem" where
  "copy_to bs address m = (\<lambda>a. if address \<le> a \<and> a < address + length bs then bs ! (a - address) else m a)"

definition aeabi_uread4 :: "nat \<Rightarrow> mem \<Rightarrow> 32 word" where
  "aeabi_uread4 address m = from_le_bytes (copy_from address 4 m)"

definition aeabi_uwrite4 :: "32 word \<Rightarrow> nat \<Rightarrow> mem \<Rightarrow> 32 word \<times> mem" where
  "aeabi_uwrite4 value address m = (value, copy_to (to_le_bytes 4 value) address m)"

definition aeabi_uread8 :: "nat \<Rightarrow> mem \<Rightarrow> 64 word" where
  "aeabi_uread8 address m = from_le_bytes (copy_from address 8 m)"

definition aeabi_uwrite8 :: "64 word \<Rightarrow> nat \<Rightarrow> mem \<Rightarrow> 64 word \<times> mem" where
  "aeabi_uwrite8 value address m = (value, copy_to (to_le_bytes 8 value) address m)"

lemma copy_roundtrip: "copy_from address (length bs) (copy_to bs address m) = bs"
  by (rule nth_equalityI) (simp_all add: copy_from_def copy_to_def)

lemma le_roundtrip:
  "from_le_bytes (to_le_bytes 4 (v :: 32 word)) = v" "from_le_bytes (to_le_bytes 8 (u :: 64 word)) = u"
  using from_to_le_bytes [of 4 v] from_to_le_bytes [of 8 u] by (simp_all add: take_bit_word_eq_self)

lemma unaligned_roundtrip:
  "aeabi_uread4 address (snd (aeabi_uwrite4 v address m)) = v \<and> aeabi_uread8 address (snd (aeabi_uwrite8 u address m)) = u \<and>
   (a < address \<or> address + 4 \<le> a \<longrightarrow> snd (aeabi_uwrite4 v address m) a = m a) \<and>
   (a < address \<or> address + 8 \<le> a \<longrightarrow> snd (aeabi_uwrite8 u address m) a = m a)"
proof -
  have "length (to_le_bytes n w) = n" for n and w :: "'x::len word" by (simp add: to_le_bytes_def)
  then show ?thesis
    using copy_roundtrip [of address "to_le_bytes 4 v" m] copy_roundtrip [of address "to_le_bytes 8 u" m]
    by (auto simp: aeabi_uread4_def aeabi_uwrite4_def aeabi_uread8_def aeabi_uwrite8_def le_roundtrip copy_to_def)
qed

section \<open>Driving the radio\<close>

text \<open>
  A future is its poll function, from a waker to a result, \<open>None\<close> while pending. The \<open>RefCell\<close> around the
  shared runner is its borrow flag. The runner never finishes, so that its polls have no result.
\<close>

type_synonym ('s, 'r) fut = "nat \<Rightarrow> 's \<Rightarrow> 'r option \<times> 's"

type_synonym 's runner = "nat \<Rightarrow> 's \<Rightarrow> 's"

record radio_state =
  runner_borrowed :: bool

definition select_first :: "('s, 'r) fut \<Rightarrow> 's runner \<Rightarrow> ('s, 'r) fut" where
  "select_first f arm w s =
     (case f w s of
        (Some r, s1) \<Rightarrow> (Some r, s1)
      | (None, s1) \<Rightarrow> (None, arm w s1))"

text \<open>\<open>never_ending\<close>: the future, and when that is done, nothing more; \<open>ended\<close> is the place where it waits.\<close>

definition never_ending :: "('s, 'r) fut \<Rightarrow> (bool \<times> 's) runner" where
  "never_ending f w = (\<lambda>(ended, s). if ended then (True, s) else case f w s of (r, s1) \<Rightarrow> (r \<noteq> None, s1))"

definition SharedRunner_poll :: "'a radio_state_scheme runner \<Rightarrow> 'a radio_state_scheme runner" where
  "SharedRunner_poll rn w s =
     (if runner_borrowed s then s
      else (rn w (s\<lparr>runner_borrowed := True\<rparr>))\<lparr>runner_borrowed := False\<rparr>)"

definition controller_with :: "'a radio_state_scheme runner \<Rightarrow> ('a radio_state_scheme, 'r) fut \<Rightarrow> ('a radio_state_scheme, 'r) fut" where
  "controller_with rn op = select_first op (SharedRunner_poll rn)"

text \<open>The operations of a \<open>bt-hci\<close> controller, and the wrapper around one.\<close>

record ('s, 'cmd, 'e, 'b, 'p, 'v) bt_controller =
  alloc_buf :: "'s \<Rightarrow> ('e + 'b) \<times> 's"
  write_acl_data :: "bytes \<Rightarrow> ('s, 'e + unit) fut"
  write_sync_data :: "bytes \<Rightarrow> ('s, 'e + unit) fut"
  write_iso_data :: "bytes \<Rightarrow> ('s, 'e + unit) fut"
  read_packet :: "'b \<Rightarrow> ('s, 'e + 'p) fut"
  exec_sync :: "'cmd \<Rightarrow> ('s, 'e + 'v) fut"
  exec_async :: "'cmd \<Rightarrow> ('s, 'e + unit) fut"

definition Cyw43Controller :: "('a radio_state_scheme, 'cmd, 'e, 'b, 'p, 'v) bt_controller \<Rightarrow> 'a radio_state_scheme runner \<Rightarrow>
    ('a radio_state_scheme, 'cmd, 'e, 'b, 'p, 'v) bt_controller" where
  "Cyw43Controller ctl rn = \<lparr>
     alloc_buf = alloc_buf ctl,
     write_acl_data = (\<lambda>packet. controller_with rn (write_acl_data ctl packet)),
     write_sync_data = (\<lambda>packet. controller_with rn (write_sync_data ctl packet)),
     write_iso_data = (\<lambda>packet. controller_with rn (write_iso_data ctl packet)),
     read_packet = (\<lambda>buf. controller_with rn (read_packet ctl buf)),
     exec_sync = (\<lambda>cmd. controller_with rn (exec_sync ctl cmd)),
     exec_async = (\<lambda>cmd. controller_with rn (exec_async ctl cmd))\<rparr>"

text \<open>The assembly: the scenario first, the runner in an arm of its own after it.\<close>

definition board_run :: "('a radio_state_scheme, unit) fut \<Rightarrow> 'a radio_state_scheme runner \<Rightarrow> ('a radio_state_scheme, unit) fut" where
  "board_run main rn = select_first main (SharedRunner_poll rn)"

text \<open>A caller that blocks polls its future again and again.\<close>

primrec await :: "nat \<Rightarrow> ('s, 'r) fut \<Rightarrow> nat \<Rightarrow> 's \<Rightarrow> 'r option \<times> 's" where
  "await 0 f w s = (None, s)"
| "await (Suc n) f w s = (case f w s of (Some r, s1) \<Rightarrow> (Some r, s1) | (None, s1) \<Rightarrow> await n f w s1)"

text \<open>
  What the radio does: an operation is done once the runner has moved all its bytes, \<open>left\<close> counts
  the polls of the runner that are still needed, and only the runner moves them. Neither touches
  the borrow flag, nor depends on it.
\<close>

definition driven :: "('a radio_state_scheme \<Rightarrow> nat) \<Rightarrow> 'a radio_state_scheme runner \<Rightarrow> ('a radio_state_scheme, 'r) fut \<Rightarrow> bool" where
  "driven left rn op \<longleftrightarrow>
     (\<forall>s b. left (s\<lparr>runner_borrowed := b\<rparr>) = left s) \<and>
     (\<forall>w s. left (rn w s) = left s - 1) \<and>
     (\<forall>w s r s1. op w s = (r, s1) \<longrightarrow> (r = None \<longleftrightarrow> left s \<noteq> 0) \<and> left s1 = left s \<and> runner_borrowed s1 = runner_borrowed s)"

lemma shared_runner_left:
  assumes "driven left rn op" "\<not> runner_borrowed s"
  shows "left (SharedRunner_poll rn w s) = left s - 1 \<and> \<not> runner_borrowed (SharedRunner_poll rn w s)"
  using assms by (simp add: driven_def SharedRunner_poll_def)

lemma with_completes:
  assumes "driven left rn op" "\<not> runner_borrowed s"
  shows "\<exists>r s'. await (Suc (left s)) (controller_with rn op) w s = (Some r, s') \<and> \<not> runner_borrowed s'"
  using assms(2)
proof (induction "left s" arbitrary: s)
  case 0
  obtain r s1 where "op w s = (r, s1)" by fastforce
  moreover from this have "r \<noteq> None" "\<not> runner_borrowed s1" using assms(1) 0 unfolding driven_def by metis+
  ultimately show ?case using 0 by (auto simp: controller_with_def select_first_def)
next
  case (Suc n)
  obtain r s1 where op: "op w s = (r, s1)" by fastforce
  then have s1: "r = None" "left s1 = left s" "\<not> runner_borrowed s1" using assms(1) Suc(2,3) unfolding driven_def by (metis nat.distinct(1))+
  let ?s = "SharedRunner_poll rn w s1"
  have "left ?s = n" "\<not> runner_borrowed ?s" using shared_runner_left [OF assms(1) s1(3)] s1(2) Suc(2) by simp_all
  then obtain r' s' where "await (Suc n) (controller_with rn op) w ?s = (Some r', s')" "\<not> runner_borrowed s'"
    using Suc(1) [of ?s] by auto
  moreover have "controller_with rn op w s = (None, ?s)" using op s1(1) by (simp add: controller_with_def select_first_def)
  ultimately show ?case using Suc(2) [symmetric] by simp
qed

lemma alone_hangs:
  assumes "driven left rn op" "left s \<noteq> 0"
  shows "fst (await n op w s) = None"
  using assms(2)
proof (induction n arbitrary: s)
  case (Suc n)
  obtain r s1 where op: "op w s = (r, s1)" by fastforce
  then have "r = None" "left s1 \<noteq> 0" using assms(1) Suc(2) unfolding driven_def by metis+
  then show ?case using op Suc(1) by simp
qed simp


text \<open>A radio that needs as many polls as its queue is long.\<close>

record demo_radio = radio_state +
  queue :: "u8 list"

definition demo_runner :: "demo_radio runner" where
  "demo_runner w s = s\<lparr>queue := tl (queue s)\<rparr>"

definition demo_op :: "'r \<Rightarrow> (demo_radio, 'r) fut" where
  "demo_op r w s = (if queue s = [] then Some r else None, s)"

definition demo_bt :: "(demo_radio, nat, unit, unit, bytes, bytes) bt_controller" where
  "demo_bt = \<lparr>alloc_buf = (\<lambda>s. (Inr (), s)), write_acl_data = (\<lambda>_. demo_op (Inr ())), write_sync_data = (\<lambda>_. demo_op (Inr ())),
     write_iso_data = (\<lambda>_. demo_op (Inr ())), read_packet = (\<lambda>_. demo_op (Inr [])), exec_sync = (\<lambda>_. demo_op (Inr [])),
     exec_async = (\<lambda>_. demo_op (Inr ()))\<rparr>"

lemma demo_driven: "driven (\<lambda>s. length (queue s)) demo_runner (demo_op r)"
  by (auto simp: driven_def demo_runner_def demo_op_def)


end
