(* ===== verification/Fmt.thy ===== *)
theory Fmt
  imports Clog Ble_Types
begin

text \<open>
  The logging and assertion macros of the crate (\<open>nimble-rs/src/fmt.rs\<close>). The arguments of a macro
  are expressions, which are evaluated where the expansion mentions them: functions on the program state
  \<open>'s\<close>. What the \<open>log\<close> and \<open>defmt\<close> crates do with a record is the record \<open>log_backend\<close>; whether
  they take one of a level at all is decided by their filters.
\<close>

section \<open>Logging\<close>

type_synonym ('s, 'v) expr = "'s \<Rightarrow> 'v \<times> 's"

datatype fmt_level = LTrace | LDebug | LInfo | LWarn | LError

record ('s, 'v) log_backend =
  takes :: "sink \<Rightarrow> fmt_level \<Rightarrow> 's \<Rightarrow> bool"
  write_record :: "sink \<Rightarrow> fmt_level \<Rightarrow> string \<Rightarrow> 'v list \<Rightarrow> 's \<Rightarrow> 's"

fun eval_args :: "('s, 'v) expr list \<Rightarrow> 's \<Rightarrow> 'v list \<times> 's" where
  "eval_args [] s = ([], s)"
| "eval_args (x # xs) s = (let (v, s1) = x s; (vs, s2) = eval_args xs s1 in (v # vs, s2))"

text \<open>\<open>log::info!\<close> and \<open>defmt::info!\<close>: the arguments are evaluated only if the record is taken.\<close>

definition to_sink :: "('s, 'v) log_backend \<Rightarrow> sink \<Rightarrow> fmt_level \<Rightarrow> string \<Rightarrow> ('s, 'v) expr list \<Rightarrow> 's \<Rightarrow> 's" where
  "to_sink be k lv lit xs s = (if takes be k lv s then (case eval_args xs s of (vs, s1) \<Rightarrow> write_record be k lv lit vs s1) else s)"

definition log_macro :: "log_features \<Rightarrow> ('s, 'v) log_backend \<Rightarrow> fmt_level \<Rightarrow> string \<Rightarrow> ('s, 'v) expr list \<Rightarrow> 's \<Rightarrow> 's" where
  "log_macro fe be lv lit xs s =
     (let s1 = (if feature_log fe then to_sink be Log lv lit xs s else s);
          s2 = (if feature_defmt fe then to_sink be Defmt lv lit xs s1 else s1)
      in if \<not> (feature_log fe \<or> feature_defmt fe) then snd (eval_args xs s2) else s2)"

definition trace_macro :: "log_features \<Rightarrow> ('s, 'v) log_backend \<Rightarrow> string \<Rightarrow> ('s, 'v) expr list \<Rightarrow> 's \<Rightarrow> 's" where
  "trace_macro fe be = log_macro fe be LTrace"

definition debug_macro :: "log_features \<Rightarrow> ('s, 'v) log_backend \<Rightarrow> string \<Rightarrow> ('s, 'v) expr list \<Rightarrow> 's \<Rightarrow> 's" where
  "debug_macro fe be = log_macro fe be LDebug"

definition info_macro :: "log_features \<Rightarrow> ('s, 'v) log_backend \<Rightarrow> string \<Rightarrow> ('s, 'v) expr list \<Rightarrow> 's \<Rightarrow> 's" where
  "info_macro fe be = log_macro fe be LInfo"

definition warn_macro :: "log_features \<Rightarrow> ('s, 'v) log_backend \<Rightarrow> string \<Rightarrow> ('s, 'v) expr list \<Rightarrow> 's \<Rightarrow> 's" where
  "warn_macro fe be = log_macro fe be LWarn"

definition error_macro :: "log_features \<Rightarrow> ('s, 'v) log_backend \<Rightarrow> string \<Rightarrow> ('s, 'v) expr list \<Rightarrow> 's \<Rightarrow> 's" where
  "error_macro fe be = log_macro fe be LError"

section \<open>Assertions and unwrapping\<close>

text \<open>
  A panic goes through \<open>defmt\<close> when that is enabled, and through the core library otherwise.
  \<open>Inl\<close> is a panic, with the crate that raised it.
\<close>

datatype panic_via = CorePanic | DefmtPanic

type_synonym ('s, 'v) run = "'s \<Rightarrow> (panic_via + 'v) \<times> 's"

definition panic_macro :: "log_features \<Rightarrow> ('s, 'v) run" where
  "panic_macro fe s = (Inl (if feature_defmt fe then DefmtPanic else CorePanic), s)"

definition todo_macro :: "log_features \<Rightarrow> ('s, 'v) run" where
  "todo_macro fe s = (Inl (if feature_defmt fe then DefmtPanic else CorePanic), s)"

definition unreachable_macro :: "log_features \<Rightarrow> ('s, 'v) run" where
  "unreachable_macro fe s = (Inl (if feature_defmt fe then DefmtPanic else CorePanic), s)"

definition assert_macro :: "log_features \<Rightarrow> ('s, bool) expr \<Rightarrow> ('s, unit) run" where
  "assert_macro fe cond s = (case cond s of (b, s1) \<Rightarrow> if b then (Inr (), s1) else panic_macro fe s1)"

definition assert_eq_macro :: "log_features \<Rightarrow> ('s, 'v) expr \<Rightarrow> ('s, 'v) expr \<Rightarrow> ('s, unit) run" where
  "assert_eq_macro fe left right s =
     (let (l, s1) = left s; (r, s2) = right s1 in if l = r then (Inr (), s2) else panic_macro fe s2)"

definition assert_ne_macro :: "log_features \<Rightarrow> ('s, 'v) expr \<Rightarrow> ('s, 'v) expr \<Rightarrow> ('s, unit) run" where
  "assert_ne_macro fe left right s =
     (let (l, s1) = left s; (r, s2) = right s1 in if l \<noteq> r then (Inr (), s2) else panic_macro fe s2)"

text \<open>The debug forms evaluate nothing in a build without debug assertions.\<close>

definition debug_assert_macro :: "bool \<Rightarrow> log_features \<Rightarrow> ('s, bool) expr \<Rightarrow> ('s, unit) run" where
  "debug_assert_macro dbg fe cond s = (if dbg then assert_macro fe cond s else (Inr (), s))"

definition debug_assert_eq_macro :: "bool \<Rightarrow> log_features \<Rightarrow> ('s, 'v) expr \<Rightarrow> ('s, 'v) expr \<Rightarrow> ('s, unit) run" where
  "debug_assert_eq_macro dbg fe left right s = (if dbg then assert_eq_macro fe left right s else (Inr (), s))"

definition debug_assert_ne_macro :: "bool \<Rightarrow> log_features \<Rightarrow> ('s, 'v) expr \<Rightarrow> ('s, 'v) expr \<Rightarrow> ('s, unit) run" where
  "debug_assert_ne_macro dbg fe left right s = (if dbg then assert_ne_macro fe left right s else (Inr (), s))"

text \<open>\<open>Try::into_result\<close> of an option and of a result.\<close>

datatype NoneError = NoneError

definition option_into_result :: "'t option \<Rightarrow> NoneError + 't" where
  "option_into_result x = (case x of None \<Rightarrow> Inl NoneError | Some t \<Rightarrow> Inr t)"

definition result_into_result :: "'e + 't \<Rightarrow> 'e + 't" where
  "result_into_result x = x"

definition unwrap_dbg :: "log_features \<Rightarrow> ('x \<Rightarrow> 'e + 't) \<Rightarrow> ('s, 'x) expr \<Rightarrow> ('s, 't) run" where
  "unwrap_dbg fe into_result arg s =
     (case arg s of (x, s1) \<Rightarrow> (case into_result x of Inr t \<Rightarrow> (Inr t, s1) | Inl e \<Rightarrow> panic_macro fe s1))"

text \<open>With \<open>defmt\<close>, \<open>unwrap!\<close> is that crate's own macro, the argument \<open>defmt_unwrap\<close>.\<close>

definition unwrap_macro :: "log_features \<Rightarrow> (('s, 'x) expr \<Rightarrow> ('s, 't) run) \<Rightarrow> ('x \<Rightarrow> 'e + 't) \<Rightarrow> ('s, 'x) expr \<Rightarrow> ('s, 't) run" where
  "unwrap_macro fe defmt_unwrap into_result arg s =
     (if feature_defmt fe then defmt_unwrap arg s
      else case arg s of (x, s1) \<Rightarrow> (case into_result x of Inr t \<Rightarrow> (Inr t, s1) | Inl e \<Rightarrow> (Inl CorePanic, s1)))"

section \<open>Bytes\<close>

text \<open>
  \<open>{:#x?}\<close> of a slice with a width of two: the alternate form puts every element on a line of its
  own, with its prefix, which already fills the width, so that no zero is ever added.
\<close>

definition hex_min :: "u8 \<Rightarrow> string" where
  "hex_min b = (let n = unat b in if n < 16 then [hex_digit n] else [hex_digit (n div 16), hex_digit (n mod 16)])"

definition byte_line :: "u8 \<Rightarrow> string" where
  "byte_line b = ''    0x'' @ hex_min b @ [CHR '','', CHR 0x0A]"

definition Bytes_fmt :: "bytes \<Rightarrow> string" where
  "Bytes_fmt bs = (if bs = [] then ''[]'' else [CHR ''['', CHR 0x0A] @ concat (map byte_line bs) @ '']'')"

section \<open>Errors\<close>

text \<open>\<open>Debug\<close> and \<open>Display\<close> of \<open>BleError\<close> (\<open>lib.rs\<close>), with the code as a signed decimal.\<close>

definition int_dec :: "c_int \<Rightarrow> string" where
  "int_dec c = (if c < 0 then CHR ''-'' # to_dec (nat (- c)) else to_dec (nat c))"

definition BleError_debug :: "BleError \<Rightarrow> string" where
  "BleError_debug e = (case e of BleError c \<Rightarrow> ''BleError('' @ int_dec c @ '')'')"

definition BleError_display :: "BleError \<Rightarrow> string" where
  "BleError_display e = (case e of BleError c \<Rightarrow> ''BLE host error '' @ int_dec c)"

section \<open>Properties\<close>

lemma eval_args_pure:
  "(\<And>x. x \<in> set xs \<Longrightarrow> \<exists>v. \<forall>s. x s = (v, s)) \<Longrightarrow> snd (eval_args xs s) = s"
  by (induction xs arbitrary: s) (auto simp: case_prod_beta, metis snd_conv)

text \<open>
  A log macro whose arguments have no effect has none itself beyond the records: with neither
  feature it is nothing, and otherwise each enabled crate that takes the level gets exactly one
  record, the \<open>log\<close> crate first.
\<close>

theorem log_macro_records:
  assumes "\<And>x. x \<in> set xs \<Longrightarrow> \<exists>v. \<forall>s. x s = (v, s)"
  shows "log_macro fe be lv lit xs s =
    (let rec = (\<lambda>k s. if takes be k lv s then write_record be k lv lit (fst (eval_args xs s)) s else s);
         s1 = (if feature_log fe then rec Log s else s)
     in if feature_defmt fe then rec Defmt s1 else s1)"
proof -
  have "to_sink be k lv lit xs s = (if takes be k lv s then write_record be k lv lit (fst (eval_args xs s)) s else s)" for k s
    using eval_args_pure [OF assms, where s = s] by (simp add: to_sink_def case_prod_beta)
  then show ?thesis using eval_args_pure [OF assms, where s = s] by (simp add: log_macro_def)
qed

text \<open>
  Unwrapping evaluates its argument once and returns its value, or panics exactly when there is
  none; both forms agree without \<open>defmt\<close>.
\<close>

theorem unwrap_correct:
  assumes "arg s = (x, s1)"
  shows "unwrap_dbg fe option_into_result arg s = (case x of Some t \<Rightarrow> (Inr t, s1) | None \<Rightarrow> panic_macro fe s1) \<and>
    (\<not> feature_defmt fe \<longrightarrow> unwrap_macro fe du option_into_result arg s = unwrap_dbg fe option_into_result arg s)"
  using assms by (simp add: unwrap_dbg_def unwrap_macro_def option_into_result_def panic_macro_def split: option.split)

lemma hex_digit_inj: "i < 16 \<Longrightarrow> j < 16 \<Longrightarrow> hex_digit i = hex_digit j \<longleftrightarrow> i = j"
  by (auto simp: hex_digit_def of_char_of dest!: arg_cong [where f = "of_char :: char \<Rightarrow> nat"] split: if_splits)

lemma hex_digit_comma: "d < 16 \<Longrightarrow> hex_digit d \<noteq> CHR '',''"
  by (auto simp: hex_digit_def dest!: arg_cong [where f = "of_char :: char \<Rightarrow> nat"] split: if_splits)

lemma hex_min_inj: "hex_min a = hex_min b \<Longrightarrow> a = b"
proof -
  assume eq: "hex_min a = hex_min b"
  have lt: "unat a < 256" "unat b < 256" using unsigned_less [where 'a = nat, of a] unsigned_less [where 'a = nat, of b] by simp_all
  have "unat a div 16 < 16" "unat b div 16 < 16" using lt by simp_all
  then have "unat a div 16 = unat b div 16 \<and> unat a mod 16 = unat b mod 16"
    using eq by (auto simp: hex_min_def Let_def hex_digit_inj split: if_splits)
  then have "unat a = unat b" by (metis div_mult_mod_eq)
  then show "a = b" by (simp only: unsigned_word_eqI)
qed

lemma hex_min_chars: "takeWhile (\<lambda>c. c \<noteq> CHR '','') (hex_min b @ CHR '','' # r) = hex_min b"
proof -
  have "unat b < 256" using unsigned_less [where 'a = nat, of b] by simp
  then have "unat b div 16 < 16" by simp
  then have "c \<noteq> CHR '',''" if "c \<in> set (hex_min b)" for c
    using that hex_digit_comma [of "unat b"] hex_digit_comma [of "unat b div 16"] hex_digit_comma [of "unat b mod 16"]
    by (auto simp: hex_min_def Let_def split: if_splits)
  then show ?thesis by (simp add: takeWhile_append2)
qed

lemma byte_lines_inj:
  "concat (map byte_line xs) @ '']'' = concat (map byte_line ys) @ '']'' \<Longrightarrow> xs = ys"
proof (induction xs arbitrary: ys)
  case Nil
  then show ?case by (cases ys) (auto simp: byte_line_def)
next
  case (Cons x xs)
  then obtain y ys' where ys: "ys = y # ys'" by (cases ys) (auto simp: byte_line_def)
  have tl: "hex_min x @ CHR '','' # (CHR 0x0A # concat (map byte_line xs) @ '']'') =
      hex_min y @ CHR '','' # (CHR 0x0A # concat (map byte_line ys') @ '']'')"
    using Cons.prems by (simp add: ys byte_line_def [of x] byte_line_def [of y])
  then have "hex_min x = hex_min y" using hex_min_chars by metis
  then have "x = y" by (rule hex_min_inj)
  then show ?case using Cons.IH [of ys'] tl ys by simp
qed

text \<open>
  The printed form of a packet determines its bytes; a packet that is not empty takes two lines
  more than it has bytes.
\<close>

theorem bytes_fmt_exact:
  "(Bytes_fmt xs = Bytes_fmt ys \<longleftrightarrow> xs = ys) \<and>
   length (filter (\<lambda>c. c = CHR 0x0A) (Bytes_fmt xs)) = (if xs = [] then 0 else length xs + 1)"
proof -
  have "xs = ys" if "Bytes_fmt xs = Bytes_fmt ys"
    using that byte_lines_inj [of xs ys] by (auto simp: Bytes_fmt_def byte_line_def split: if_splits)
  moreover have "hex_digit d \<noteq> CHR 0x0A" if "d < 16" for d
    using that by (auto simp: hex_digit_def dest!: arg_cong [where f = "of_char :: char \<Rightarrow> nat"] split: if_splits)
  then have "length (filter (\<lambda>c. c = CHR 0x0A) (byte_line b)) = 1" for b
    using unsigned_less [where 'a = nat, of b] by (auto simp: byte_line_def hex_min_def Let_def)
  then have "length (filter (\<lambda>c. c = CHR 0x0A) (concat (map byte_line xs))) = length xs"
    by (induction xs) simp_all
  ultimately show ?thesis by (auto simp: Bytes_fmt_def)
qed

text \<open>An error message names its code: different errors are printed differently.\<close>

lemma int_dec_inj: "int_dec a = int_dec b \<longleftrightarrow> a = b"
proof -
  have nodash: "to_dec n \<noteq> CHR ''-'' # r" for n r
    using to_dec_digits [of n] by (auto simp: is_digit_def)
  have inj: "to_dec m = to_dec n \<Longrightarrow> m = n" for m n by (metis decimal_to_dec)
  show ?thesis using nodash nodash [symmetric] by (auto simp: int_dec_def dest: inj split: if_splits)
qed

theorem error_text_exact:
  "(BleError_debug e = BleError_debug f \<longleftrightarrow> e = f) \<and> (BleError_display e = BleError_display f \<longleftrightarrow> e = f)"
  by (cases e; cases f) (simp add: BleError_debug_def BleError_display_def int_dec_inj)

end
