(* ===== verification/Xtask.thy ===== *)
theory Xtask
  imports Nimble_Prelude "HOL-Library.Sublist"
begin

text \<open>
  The end-to-end test driver (\<open>xtask/src/main.rs\<close>), which runs pairs of hosted examples. Processes, the
  clock and the file system are the record \<open>proc_env\<close> on a world state \<open>'s\<close>; time is in
  milliseconds. A wait that never returns is \<open>None\<close>. Console output is left out.
\<close>

section \<open>The environment\<close>

record 's proc_env =
  pe_root :: string
  pe_spawn :: "string \<Rightarrow> string list \<Rightarrow> 's \<Rightarrow> (string + nat) \<times> 's"
  pe_try_wait :: "nat \<Rightarrow> 's \<Rightarrow> (string + bool) \<times> 's"
  pe_kill :: "nat \<Rightarrow> 's \<Rightarrow> 's"
  pe_wait :: "nat \<Rightarrow> 's \<Rightarrow> 's"
  pe_read_stdout :: "nat \<Rightarrow> 's \<Rightarrow> string \<times> 's"
  pe_read_stderr :: "nat \<Rightarrow> 's \<Rightarrow> string \<times> 's"
  pe_now :: "'s \<Rightarrow> nat"
  pe_sleep :: "nat \<Rightarrow> 's \<Rightarrow> 's"
  pe_exists :: "string \<Rightarrow> 's \<Rightarrow> bool"
  pe_build :: "'s \<Rightarrow> (string + bool) \<times> 's"

datatype xtask_error = Spawning string | Waiting string | Building string | BuildFailed | TooFewHits nat nat
  | NotImplemented | Usage "string option"

section \<open>Running a program\<close>

definition bin :: "'s proc_env \<Rightarrow> string \<Rightarrow> string" where
  "bin env name = pe_root env @ ''/target/debug/'' @ name"

partial_function (option) wait_loop :: "'s proc_env \<Rightarrow> nat \<Rightarrow> nat \<Rightarrow> 's \<Rightarrow> ((xtask_error + bool) \<times> 's) option" where
  "wait_loop env child until s =
     (case pe_try_wait env child s of
        (Inl e, s1) \<Rightarrow> Some (Inl (Waiting e), s1)
      | (Inr exited, s1) \<Rightarrow>
          (if exited then Some (Inr True, s1)
           else if until \<le> pe_now env s1 then Some (Inr False, s1)
           else wait_loop env child until (pe_sleep env 100 s1)))"

definition wait_timeout :: "'s proc_env \<Rightarrow> nat \<Rightarrow> nat \<Rightarrow> 's \<Rightarrow> ((xtask_error + bool) \<times> 's) option" where
  "wait_timeout env child timeout s = wait_loop env child (pe_now env s + timeout) s"

definition take_output :: "'s proc_env \<Rightarrow> nat \<Rightarrow> 's \<Rightarrow> string \<times> 's" where
  "take_output env child s =
     (let (out, s1) = pe_read_stdout env child s; (err, s2) = pe_read_stderr env child s1 in (out @ err, s2))"

definition run_captured :: "'s proc_env \<Rightarrow> string \<Rightarrow> string list \<Rightarrow> nat \<Rightarrow> 's \<Rightarrow> ((xtask_error + bool \<times> string) \<times> 's) option" where
  "run_captured env program args timeout s =
     (case pe_spawn env program args s of
        (Inl e, s1) \<Rightarrow> Some (Inl (Spawning e), s1)
      | (Inr child, s1) \<Rightarrow> do {
          (r, s2) \<leftarrow> wait_timeout env child timeout s1;
          case r of
            Inl e \<Rightarrow> Some (Inl e, s2)
          | Inr by_itself \<Rightarrow>
              (let timed_out = (\<not> by_itself);
                   s3 = (if timed_out then pe_wait env child (pe_kill env child s2) else s2);
                   (output, s4) = take_output env child s3
               in Some (Inr (timed_out, output), s4))
        })"

definition build_examples :: "'s proc_env \<Rightarrow> 's \<Rightarrow> (xtask_error + unit) \<times> 's" where
  "build_examples env s =
     (case pe_build env s of
        (Inl e, s1) \<Rightarrow> (Inl (Building e), s1)
      | (Inr success, s1) \<Rightarrow> (if success then (Inr (), s1) else (Inl BuildFailed, s1)))"

section \<open>The tests\<close>

text \<open>\<open>str::contains\<close>, and the number of \<open>str::matches\<close>, which do not overlap.\<close>

function count_matches :: "string \<Rightarrow> string \<Rightarrow> nat" where
  "count_matches m s =
     (if m = [] then length s + 1
      else if s = [] then 0
      else if prefix m s then Suc (count_matches m (drop (length m) s))
      else count_matches m (tl s))"
  by auto

termination by (relation "measure (length \<circ> snd)") auto

declare count_matches.simps [simp del]

definition btvirt_ready :: "'s proc_env \<Rightarrow> u16 \<Rightarrow> 's \<Rightarrow> (bool \<times> 's) option" where
  "btvirt_ready env dev s =
     (if \<not> pe_exists env (''/sys/class/bluetooth/hci'' @ to_dec (unat dev)) s then Some (False, s)
      else do {
        (r, s1) \<leftarrow> run_captured env (bin env ''scanner'') [to_dec (unat dev)] 3000 s;
        Some (case r of
            Inr (timed_out, output) \<Rightarrow>
              \<not> (\<not> timed_out \<and> (sublist ''Operation not permitted'' output \<or> sublist ''os error'' output))
          | Inl _ \<Rightarrow> False, s1)
      })"

definition KillOnDrop_drop :: "'s proc_env \<Rightarrow> nat \<Rightarrow> 's \<Rightarrow> 's" where
  "KillOnDrop_drop env child s = pe_wait env child (pe_kill env child s)"

definition pair :: "'s proc_env \<Rightarrow> string \<times> string list \<Rightarrow> string \<times> string list \<Rightarrow> string \<Rightarrow> string \<Rightarrow> nat \<Rightarrow> 's \<Rightarrow>
    ((xtask_error + unit) \<times> 's) option" where
  "pair env server_cmd client_cmd server_marker client_marker min_hits s =
     (case pe_spawn env (bin env (fst server_cmd)) (snd server_cmd) s of
        (Inl e, s1) \<Rightarrow> Some (Inl (Spawning e), s1)
      | (Inr server, s1) \<Rightarrow> do {
          (r, s2) \<leftarrow> run_captured env (bin env (fst client_cmd)) (snd client_cmd) 12000 (pe_sleep env 2000 s1);
          case r of
            Inl e \<Rightarrow> Some (Inl e, KillOnDrop_drop env server s2)
          | Inr (_, client_output) \<Rightarrow>
              (let s3 = pe_wait env server (pe_kill env server s2);
                   (server_output, s4) = take_output env server s3;
                   client_hits = count_matches client_marker client_output;
                   server_hits = count_matches server_marker server_output
               in Some (if client_hits < min_hits \<or> server_hits < min_hits then Inl (TooFewHits client_hits server_hits) else Inr (),
                    KillOnDrop_drop env server s4))
        })"

definition btvirt :: "'s proc_env \<Rightarrow> u16 \<Rightarrow> u16 \<Rightarrow> 's \<Rightarrow> ((xtask_error + bool) \<times> 's) option" where
  "btvirt env dev_a dev_b s = do {
     (ready_a, s1) \<leftarrow> btvirt_ready env dev_a s;
     (ready_b, s2) \<leftarrow> (if ready_a then btvirt_ready env dev_b s1 else Some (False, s1));
     if \<not> ready_a \<or> \<not> ready_b then Some (Inr False, s2)
     else do {
       (r1, s3) \<leftarrow> pair env (''gatt_server'', [to_dec (unat dev_a)]) (''gatt_client'', [to_dec (unat dev_b)]) ''recv 4 bytes'' ''indication on'' 3 s2;
       case r1 of
         Inl e \<Rightarrow> Some (Inl e, s3)
       | Inr _ \<Rightarrow> do {
           (r2, s4) \<leftarrow> pair env (''l2cap'', [''server'', to_dec (unat dev_a)]) (''l2cap'', [''client'', to_dec (unat dev_b)]) ''echoing'' ''echo received'' 3 s3;
           case r2 of
             Inl e \<Rightarrow> Some (Inl e, s4)
           | Inr _ \<Rightarrow> Some (Inr True, s4)
         }
     }
   }"

text \<open>The result of the end-to-end test is the message it ends with: whether it passed or was skipped.\<close>

definition e2e :: "'s proc_env \<Rightarrow> 's \<Rightarrow> ((xtask_error + bool) \<times> 's) option" where
  "e2e env s =
     (case build_examples env s of
        (Inl e, s1) \<Rightarrow> Some (Inl e, s1)
      | (Inr _, s1) \<Rightarrow> btvirt env 0 1 s1)"

definition xtask_main :: "'s proc_env \<Rightarrow> string list \<Rightarrow> 's \<Rightarrow> ((xtask_error + bool) \<times> 's) option" where
  "xtask_main env args s =
     (case args of
        [] \<Rightarrow> Some (Inl (Usage None), s)
      | a # _ \<Rightarrow> if a = ''e2e'' then e2e env s
          else if a = ''gen'' then Some (Inl NotImplemented, s)
          else Some (Inl (Usage (Some a)), s))"

section \<open>Contracts\<close>

text \<open>
  A sleep takes at least its time, nothing turns the clock back, and no call but \<open>spawn\<close> starts a
  process; a process that was reported as exited, or was killed and waited for, is gone.
\<close>

definition env_contract :: "'s proc_env \<Rightarrow> ('s \<Rightarrow> nat set) \<Rightarrow> bool" where
  "env_contract env alive \<longleftrightarrow>
     (\<forall>p a s r s'. pe_spawn env p a s = (r, s') \<longrightarrow> pe_now env s \<le> pe_now env s' \<and>
        (case r of Inl _ \<Rightarrow> alive s' \<subseteq> alive s | Inr c \<Rightarrow> alive s' \<subseteq> insert c (alive s))) \<and>
     (\<forall>c s r s'. pe_try_wait env c s = (r, s') \<longrightarrow> pe_now env s \<le> pe_now env s' \<and> alive s' \<subseteq> alive s \<and>
        (r = Inr True \<longrightarrow> c \<notin> alive s')) \<and>
     (\<forall>c s. alive (pe_wait env c (pe_kill env c s)) \<subseteq> alive s - {c}) \<and>
     (\<forall>c s. alive (snd (pe_read_stdout env c s)) \<subseteq> alive s \<and> alive (snd (pe_read_stderr env c s)) \<subseteq> alive s) \<and>
     (\<forall>n s. pe_now env s + n \<le> pe_now env (pe_sleep env n s) \<and> alive (pe_sleep env n s) \<subseteq> alive s)"

lemma env_contractD:
  assumes "env_contract env alive"
  shows "pe_spawn env p a s = (Inr c, s') \<Longrightarrow> alive s' \<subseteq> insert c (alive s)"
    and "pe_spawn env p a s = (Inl e, s') \<Longrightarrow> alive s' \<subseteq> alive s"
    and "pe_try_wait env c s = (r, s') \<Longrightarrow> pe_now env s \<le> pe_now env s' \<and> alive s' \<subseteq> alive s \<and> (r = Inr True \<longrightarrow> c \<notin> alive s')"
    and "alive (pe_wait env c (pe_kill env c s)) \<subseteq> alive s - {c}"
    and "take_output env c s = (out, s') \<Longrightarrow> alive s' \<subseteq> alive s"
    and "pe_now env s + n \<le> pe_now env (pe_sleep env n s)" and "alive (pe_sleep env n s) \<subseteq> alive s"
proof -
  note d = assms [unfolded env_contract_def]
  show "pe_spawn env p a s = (Inr c, s') \<Longrightarrow> alive s' \<subseteq> insert c (alive s)"
    "pe_spawn env p a s = (Inl e, s') \<Longrightarrow> alive s' \<subseteq> alive s" using d [THEN conjunct1] by fastforce+
  show "pe_try_wait env c s = (r, s') \<Longrightarrow> pe_now env s \<le> pe_now env s' \<and> alive s' \<subseteq> alive s \<and> (r = Inr True \<longrightarrow> c \<notin> alive s')"
    using d [THEN conjunct2, THEN conjunct1] by blast
  show "alive (pe_wait env c (pe_kill env c s)) \<subseteq> alive s - {c}"
    using d [THEN conjunct2, THEN conjunct2, THEN conjunct1] by blast
  have r: "alive (snd (pe_read_stdout env c s)) \<subseteq> alive s" "alive (snd (pe_read_stderr env c s)) \<subseteq> alive s" for s
    using d [THEN conjunct2, THEN conjunct2, THEN conjunct2, THEN conjunct1] by blast+
  show "take_output env c s = (out, s') \<Longrightarrow> alive s' \<subseteq> alive s"
    using r(1) [of s] r(2) [of "snd (pe_read_stdout env c s)"] by (auto simp: take_output_def case_prod_beta)
  show "pe_now env s + n \<le> pe_now env (pe_sleep env n s)" "alive (pe_sleep env n s) \<subseteq> alive s"
    using d [THEN conjunct2, THEN conjunct2, THEN conjunct2, THEN conjunct2] by blast+
qed

section \<open>Properties\<close>

lemma wait_loop_returns:
  assumes "env_contract env alive"
  shows "\<exists>r s'. wait_loop env child until s = Some (r, s') \<and> alive s' \<subseteq> alive s \<and>
    (r = Inr True \<longrightarrow> child \<notin> alive s') \<and> (r = Inr False \<longrightarrow> until \<le> pe_now env s') \<and> (\<forall>e. r = Inl e \<longrightarrow> (\<exists>m. e = Waiting m))"
proof (induction "until - pe_now env s" arbitrary: s rule: less_induct)
  case less
  obtain r s1 where t: "pe_try_wait env child s = (r, s1)" by fastforce
  note s1 = env_contractD(3) [OF assms t]
  show ?case
  proof (cases "r = Inr False \<and> pe_now env s1 < until")
    case False
    then show ?thesis using t s1 by (cases r) (auto simp: wait_loop.simps not_less)
  next
    case True
    let ?s = "pe_sleep env 100 s1"
    have "pe_now env s1 + 100 \<le> pe_now env ?s" "alive ?s \<subseteq> alive s1" using env_contractD(6,7) [OF assms] by blast+
    moreover have "wait_loop env child until s = wait_loop env child until ?s" using t True by (subst wait_loop.simps) simp
    moreover have "until - pe_now env ?s < until - pe_now env s" using calculation(1) s1 [THEN conjunct1] True [THEN conjunct2] by linarith
    ultimately show ?thesis using less [of ?s] s1 by auto
  qed
qed

lemma run_captured_returns:
  assumes "env_contract env alive"
  shows "\<exists>r s'. run_captured env program args timeout s = Some (r, s') \<and> ((\<nexists>m. r = Inl (Waiting m)) \<longrightarrow> alive s' \<subseteq> alive s)"
proof (cases "pe_spawn env program args s")
  case (Pair r1 s1)
  show ?thesis
  proof (cases r1)
    case (Inl e)
    then show ?thesis using Pair env_contractD(2) [OF assms, of program args s e s1] by (simp add: run_captured_def)
  next
    case (Inr child)
    obtain r s2 where w: "wait_timeout env child timeout s1 = Some (r, s2)" "alive s2 \<subseteq> alive s1" "r = Inr True \<longrightarrow> child \<notin> alive s2"
      "\<forall>e. r = Inl e \<longrightarrow> (\<exists>m. e = Waiting m)"
      using wait_loop_returns [OF assms, of child "pe_now env s1 + timeout" s1] by (auto simp: wait_timeout_def)
    define s3 where "s3 = (if r = Inr True then s2 else pe_wait env child (pe_kill env child s2))"
    obtain out s4 where o: "take_output env child s3 = (out, s4)" by fastforce
    have "alive s3 \<subseteq> alive s"
      using w(2,3) env_contractD(1) [OF assms Pair [unfolded Inr]] env_contractD(4) [OF assms, of child s2] by (auto simp: s3_def)
    then have "alive s4 \<subseteq> alive s" using env_contractD(5) [OF assms o] by blast
    then show ?thesis using Pair Inr w(1,4) o by (cases r) (auto simp: run_captured_def s3_def Let_def)
  qed
qed

text \<open>
  A test of a pair of examples always returns, and it leaves no process behind: unless waiting
  for the client itself failed, every process that lives afterwards lived before.
\<close>

theorem pair_returns_and_reaps:
  assumes "env_contract env alive"
  shows "\<exists>r s'. pair env server_cmd client_cmd sm cm min_hits s = Some (r, s') \<and>
    ((\<nexists>m. r = Inl (Waiting m)) \<longrightarrow> alive s' \<subseteq> alive s)"
proof (cases "pe_spawn env (bin env (fst server_cmd)) (snd server_cmd) s")
  case (Pair r1 s1)
  show ?thesis
  proof (cases r1)
    case (Inl e)
    then show ?thesis using Pair env_contractD(2) [OF assms] by (auto simp: pair_def)
  next
    case (Inr server)
    have s1: "alive (pe_sleep env 2000 s1) \<subseteq> insert server (alive s)"
      using env_contractD(1) [OF assms Pair [unfolded Inr]] env_contractD(7) [OF assms, of 2000 s1] by blast
    obtain r s2 where c: "run_captured env (bin env (fst client_cmd)) (snd client_cmd) 12000 (pe_sleep env 2000 s1) = Some (r, s2)"
      "(\<nexists>m. r = Inl (Waiting m)) \<longrightarrow> alive s2 \<subseteq> alive (pe_sleep env 2000 s1)"
      using run_captured_returns [OF assms] by blast
    have kill: "alive (KillOnDrop_drop env server s') \<subseteq> alive s' - {server}" for s'
      using env_contractD(4) [OF assms] by (simp add: KillOnDrop_drop_def)
    show ?thesis
    proof (cases r)
      case (Inl e)
      then show ?thesis using Pair Inr c kill [of s2] s1 by (auto simp: pair_def)
    next
      case (Inr x)
      obtain out s4 where o: "take_output env server (KillOnDrop_drop env server s2) = (out, s4)" by fastforce
      have "alive (KillOnDrop_drop env server s4) \<subseteq> alive s"
        using kill [of s4] kill [of s2] env_contractD(5) [OF assms o] c(2) [unfolded Inr] s1 by blast
      then show ?thesis using Pair \<open>r1 = Inr server\<close> c(1) Inr o
        by (cases x) (auto simp: pair_def Let_def KillOnDrop_drop_def)
    qed
  qed
qed

text \<open>Occurrences that do not overlap: the text is cut at \<open>n\<close> copies of the marker.\<close>

fun occurs :: "nat \<Rightarrow> string \<Rightarrow> string \<Rightarrow> bool" where
  "occurs 0 m s = True"
| "occurs (Suc n) m s = (\<exists>a b. s = a @ m @ b \<and> occurs n m b)"

lemma count_nil [simp]: "m \<noteq> [] \<Longrightarrow> count_matches m [] = 0"
  by (simp add: count_matches.simps)

lemma count_prefix: "m \<noteq> [] \<Longrightarrow> count_matches m (m @ b) = Suc (count_matches m b)"
  by (subst count_matches.simps) simp

lemma count_noprefix: "m \<noteq> [] \<Longrightarrow> \<not> prefix m s \<Longrightarrow> count_matches m s = count_matches m (tl s)"
  by (subst count_matches.simps) simp

lemma count_greedy:
  assumes "m \<noteq> []"
  shows "count_matches m (tl s) \<le> count_matches m s \<and> (\<forall>k \<le> length m. count_matches m s \<le> Suc (count_matches m (drop k s)))"
proof (induction "length s" arbitrary: s rule: less_induct)
  case less
  have mono: "count_matches m (drop k t) \<le> count_matches m t" if "length t < length s" for k t
    using that
  proof (induction k)
    case (Suc k)
    have "count_matches m (tl (drop k t)) \<le> count_matches m (drop k t)" using less [of "drop k t"] Suc.prems by simp
    then show ?case using Suc by (simp add: drop_Suc tl_drop)
  qed simp
  show ?case
  proof (cases "prefix m s")
    case True
    then obtain b where s: "s = m @ b" by (auto simp: prefix_def)
    have c: "count_matches m s = Suc (count_matches m b)" using assms by (simp add: s count_prefix)
    have len: "length (tl s) < length s" using assms by (simp add: s)
    have tl: "count_matches m (tl s) \<le> Suc (count_matches m b)"
      using less [OF len, THEN conjunct2, rule_format, of "length m - 1"] assms by (simp add: s drop_tl [symmetric] drop_Suc [symmetric])
    have "count_matches m s \<le> Suc (count_matches m (drop k s))" if "k \<le> length m" for k
    proof (cases k)
      case (Suc j)
      have "count_matches m (drop (length m - k) (drop k s)) \<le> count_matches m (drop k s)"
        by (rule mono) (use Suc assms that in \<open>cases m; simp add: s\<close>)
      then show ?thesis using that c by (simp add: s)
    qed simp
    with tl c show ?thesis by simp
  next
    case False
    then have c: "count_matches m s = count_matches m (tl s)" by (rule count_noprefix [OF assms])
    have "count_matches m s \<le> Suc (count_matches m (drop k s))" if "k \<le> length m" for k
    proof (cases "k = 0 \<or> s = []")
      case False
      then have "count_matches m (tl s) \<le> Suc (count_matches m (drop (k - 1) (tl s)))"
        using less [of "tl s"] that by simp
      then show ?thesis using c False by (simp add: drop_tl [symmetric] drop_Suc [symmetric])
    qed auto
    with c show ?thesis by simp
  qed
qed

text \<open>
  The count of a marker is the largest number of occurrences that do not overlap, so that a pair
  of examples passes exactly when both outputs have as many as it asks for.
\<close>

lemma count_matches_exact:
  assumes "m \<noteq> []"
  shows "occurs n m s \<longleftrightarrow> n \<le> count_matches m s"
proof
  have drop: "count_matches m b \<le> count_matches m (a @ b)" for a b
  proof (induction a)
    case (Cons x a)
    then show ?case using count_greedy [OF assms, of "x # a @ b"] by simp
  qed simp
  show "occurs n m s \<Longrightarrow> n \<le> count_matches m s"
  proof (induction n arbitrary: s)
    case (Suc n)
    then obtain a b where "s = a @ m @ b" "n \<le> count_matches m b" by auto
    then show ?case using drop [of "m @ b" a] count_prefix [OF assms, of b] by simp
  qed simp
  show "n \<le> count_matches m s \<Longrightarrow> occurs n m s"
  proof (induction "length s" arbitrary: n s rule: less_induct)
    case less
    show ?case
    proof (cases n)
      case (Suc j)
      have ne: "s \<noteq> []" using less.prems Suc assms by auto
      show ?thesis
      proof (cases "prefix m s")
        case True
        then obtain b where s: "s = m @ b" by (auto simp: prefix_def)
        then have "occurs j m b" using less.hyps [of b j] less.prems Suc assms by (simp add: count_prefix)
        then show ?thesis using Suc s by (auto intro: exI [of _ "[]"])
      next
        case False
        then have "occurs n m (tl s)" using less.hyps [of "tl s" n] less.prems ne count_noprefix [OF assms False] by simp
        then obtain a b where "tl s = a @ m @ b" "occurs j m b" using Suc by auto
        then have "s = (hd s # a) @ m @ b" using ne by (metis append_Cons list.collapse)
        with \<open>occurs j m b\<close> show ?thesis unfolding Suc occurs.simps by blast
      qed
    qed simp
  qed
qed

end
