(* ===== verification/Npl_Timers.thy ===== *)
theory Npl_Timers
  imports Npl_Callout "HOL-Library.Multiset"
begin

text \<open>
  The order in which callouts fire. The timer list is an interface of its own: arming inserts
  behind the callouts that are due no later. Clients of the interface get a stable sort by
  deadline; the intrusive list of \<open>Npl_Callout\<close> provides it.
\<close>

section \<open>The timer list as an interface\<close>

lemma sorted_mid:
  "sorted xs \<Longrightarrow> sorted ys \<Longrightarrow> (\<And>y. y \<in> set xs \<Longrightarrow> y \<le> x) \<Longrightarrow> (\<And>y. y \<in> set ys \<Longrightarrow> x \<le> y) \<Longrightarrow> sorted (xs @ x # ys)"
  by (fastforce simp: sorted_append)

text \<open>Appending to a stable sort is an insertion behind the smaller and equal keys.\<close>

lemma sort_key_snoc:
  fixes f :: "'x \<Rightarrow> 'k::linorder"
  shows "sort_key f (xs @ [x]) =
    takeWhile (\<lambda>y. f y \<le> f x) (sort_key f xs) @ x # dropWhile (\<lambda>y. f y \<le> f x) (sort_key f xs)"
proof (rule properties_for_sort_key)
  let ?ys = "sort_key f xs" and ?P = "\<lambda>y. f y \<le> f x"
  have ys: "mset ?ys = mset xs" "sorted (map f ?ys)" by simp_all
  have tw: "takeWhile ?P ?ys @ dropWhile ?P ?ys = ?ys" by simp
  have "mset (takeWhile ?P ?ys) + mset (dropWhile ?P ?ys) = mset xs" by (metis mset_append tw ys(1))
  then show "mset (takeWhile ?P ?ys @ x # dropWhile ?P ?ys) = mset (xs @ [x])" by simp
  have small: "f y \<le> f x" if y: "y \<in> set (takeWhile ?P ?ys)" for y using y by (rule set_takeWhileD [THEN conjunct2])
  have srt: "sorted (map f (takeWhile ?P ?ys) @ map f (dropWhile ?P ?ys))" using ys(2) by (metis map_append tw)
  have large: "f x < f y" if y: "y \<in> set (dropWhile ?P ?ys)" for y
  proof (cases "dropWhile ?P ?ys")
    case (Cons z zs)
    then have "\<not> f z \<le> f x" by (metis dropWhile_eq_Cons_conv)
    moreover have "f z \<le> f y" using srt y Cons by (auto simp: sorted_append)
    ultimately show ?thesis by simp
  next
    case Nil
    with y show ?thesis by (simp only: list.set empty_iff)
  qed
  show "filter (\<lambda>y. f k = f y) (takeWhile ?P ?ys @ x # dropWhile ?P ?ys) = filter (\<lambda>y. f k = f y) (xs @ [x])" for k
  proof -
    have "filter (\<lambda>y. f k = f y) xs = filter (\<lambda>y. f k = f y) ?ys"
      using sort_key_stable [of f "f k" xs] by (simp add: eq_commute)
    also have "\<dots> = filter (\<lambda>y. f k = f y) (takeWhile ?P ?ys) @ filter (\<lambda>y. f k = f y) (dropWhile ?P ?ys)"
      by (metis filter_append tw)
    finally have eq: "filter (\<lambda>y. f k = f y) xs =
        filter (\<lambda>y. f k = f y) (takeWhile ?P ?ys) @ filter (\<lambda>y. f k = f y) (dropWhile ?P ?ys)" .
    have "filter (\<lambda>y. f k = f y) (dropWhile ?P ?ys) = []" if "f k = f x"
      unfolding filter_empty_conv using large that by force
    with eq show ?thesis by (cases "f k = f x") simp_all
  qed
  show "sorted (map f (takeWhile ?P ?ys @ x # dropWhile ?P ?ys))"
    unfolding map_append list.map
  proof (rule sorted_mid)
    show "sorted (map f (takeWhile ?P ?ys))" "sorted (map f (dropWhile ?P ?ys))"
      using srt sorted_append by blast+
    show "y \<le> f x" if "y \<in> set (map f (takeWhile ?P ?ys))" for y
      using that small unfolding set_map by blast
    show "f x \<le> y" if "y \<in> set (map f (dropWhile ?P ?ys))" for y
      using that large unfolding set_map by (blast intro: less_imp_le)
  qed
qed

text \<open>What a client of the timers does: arm several callouts. The deadlines are recorded.\<close>

primrec arms :: "(ptr \<Rightarrow> 'k \<Rightarrow> 's \<Rightarrow> 's option) \<Rightarrow> ('k \<Rightarrow> 's \<Rightarrow> instant) \<Rightarrow> (ptr \<times> 'k) list \<Rightarrow> 's \<Rightarrow> ((ptr \<times> instant) list \<times> 's) option" where
  "arms arm deadline_of [] st = Some ([], st)"
| "arms arm deadline_of (x # xs) st = do {
     st1 \<leftarrow> arm (fst x) (snd x) st;
     (ds, st2) \<leftarrow> arms arm deadline_of xs st1;
     Some ((fst x, deadline_of (snd x) st) # ds, st2)
   }"

locale timer_list =
  fixes rep :: "'s \<Rightarrow> ptr list \<Rightarrow> bool"
    and due :: "'s \<Rightarrow> ptr \<Rightarrow> instant"
    and arm :: "ptr \<Rightarrow> 'k \<Rightarrow> 's \<Rightarrow> 's option"
    and deadline_of :: "'k \<Rightarrow> 's \<Rightarrow> instant"
  assumes arm_rep: "rep st ts \<Longrightarrow> co \<noteq> NULL \<Longrightarrow> \<exists>st'. arm co k st = Some st' \<and>
      rep st' (insert_timer (due st) (deadline_of k st) co (removeAll co ts)) \<and> due st' = (due st)(co := deadline_of k st)"
begin

lemma arm_sorted:
  assumes "rep st (map fst (sort_key snd acc))" and "\<And>c d. (c, d) \<in> set acc \<Longrightarrow> due st c = d" and "co \<notin> fst ` set acc" "co \<noteq> NULL"
  shows "\<exists>st'. arm co k st = Some st' \<and> rep st' (map fst (sort_key snd (acc @ [(co, deadline_of k st)]))) \<and>
    due st' = (due st)(co := deadline_of k st)"
proof -
  let ?ys = "sort_key snd acc" and ?d = "deadline_of k st"
  have "co \<notin> set (map fst ?ys)" using assms(3) by simp
  then have rm: "removeAll co (map fst ?ys) = map fst ?ys" by (rule removeAll_id)
  have key: "(due st c \<le> ?d) = (d \<le> ?d)" if "(c, d) \<in> set ?ys" for c d using assms(2) that by simp
  have "takeWhile (\<lambda>c. due st c \<le> ?d) (map fst ?ys) = map fst (takeWhile (\<lambda>y. snd y \<le> ?d) ?ys)"
    unfolding takeWhile_map by (intro arg_cong [where f = "map fst"] takeWhile_cong refl) (auto simp: key)
  moreover have "dropWhile (\<lambda>c. due st c \<le> ?d) (map fst ?ys) = map fst (dropWhile (\<lambda>y. snd y \<le> ?d) ?ys)"
    unfolding dropWhile_map by (intro arg_cong [where f = "map fst"] dropWhile_cong refl) (auto simp: key)
  ultimately have "insert_timer (due st) ?d co (removeAll co (map fst ?ys)) = map fst (sort_key snd (acc @ [(co, ?d)]))"
    by (simp only: rm insert_timer_def) (simp add: sort_key_snoc)
  then show ?thesis using arm_rep [OF assms(1,4), of k] by metis
qed

lemma arms_sorted:
  assumes "rep st (map fst (sort_key snd acc))" and "\<And>c d. (c, d) \<in> set acc \<Longrightarrow> due st c = d"
    and "distinct (map fst xs)" "NULL \<notin> fst ` set xs" "fst ` set xs \<inter> fst ` set acc = {}"
  shows "\<exists>ds st'. arms arm deadline_of xs st = Some (ds, st') \<and> map fst ds = map fst xs \<and>
    rep st' (map fst (sort_key snd (acc @ ds))) \<and> (\<forall>(c, d) \<in> set (acc @ ds). due st' c = d)"
  using assms
proof (induction xs arbitrary: st acc)
  case (Cons x xs)
  let ?d = "deadline_of (snd x) st"
  obtain st1 where st1: "arm (fst x) (snd x) st = Some st1" "rep st1 (map fst (sort_key snd (acc @ [(fst x, ?d)])))"
    "due st1 = (due st)(fst x := ?d)"
    using arm_sorted [OF Cons.prems(1,2), of "fst x" "snd x"] Cons.prems(4,5) by auto
  have dl: "due st1 c = d" if "(c, d) \<in> set (acc @ [(fst x, ?d)])" for c d
  proof (cases "c = fst x")
    case True
    then have "(c, d) \<notin> set acc" using Cons.prems(5) by force
    with that True st1(3) show ?thesis by auto
  next
    case False
    with that st1(3) Cons.prems(2) show ?thesis by auto
  qed
  have "distinct (map fst xs)" "NULL \<notin> fst ` set xs" "fst ` set xs \<inter> fst ` set (acc @ [(fst x, ?d)]) = {}"
    using Cons.prems(3-5) by auto
  from Cons.IH [OF st1(2) dl this] obtain ds st' where "arms arm deadline_of xs st1 = Some (ds, st')" "map fst ds = map fst xs"
    "rep st' (map fst (sort_key snd (acc @ (fst x, ?d) # ds)))" "\<forall>(c, d) \<in> set (acc @ (fst x, ?d) # ds). due st' c = d"
    by auto
  with st1(1) show ?case by (intro exI [of _ "(fst x, ?d) # ds"] exI [of _ st']) simp
qed auto

end

text \<open>The callouts of the NPL are such a list, with \<open>ble_npl_callout_reset\<close> to arm one.\<close>

definition reset_arm :: "'a npl_state_scheme wait_env \<Rightarrow> ptr \<Rightarrow> u32 \<Rightarrow> 'a npl_state_scheme \<Rightarrow> 'a npl_state_scheme option" where
  "reset_arm env co ticks st = map_option snd (ble_npl_callout_reset env co ticks st)"

text \<open>Everything firing depends on besides the list itself is kept by a reset.\<close>

definition same_queues :: "'a npl_state_scheme \<Rightarrow> 'a npl_state_scheme \<Rightarrow> bool" where
  "same_queues st st' \<longleftrightarrow> events st' = events st \<and> eventqs st' = eventqs st \<and>
     (\<forall>p. co_evq (callouts st' p) = co_evq (callouts st p))"

interpretation npl_timers: timer_list "\<lambda>st ts. timers_inv st ts \<and> same_queues st0 st" "\<lambda>st p. co_deadline (callouts st p)"
  "reset_arm env" "\<lambda>(ticks :: u32) st. we_now env st + we_from_millis env (unat ticks)" for env st0
proof
  fix st ts co and k :: u32
  assume rep: "timers_inv st ts \<and> same_queues st0 st" and nn: "co \<noteq> NULL"
  let ?d = "we_now env st + we_from_millis env (unat k)"
  obtain st' where "ble_npl_callout_reset env co k st = Some (NPL_OK, st')"
    "timers_inv st' (insert_timer (\<lambda>p. co_deadline (callouts st p)) ?d co (removeAll co ts))"
    "\<forall>p. co_deadline (callouts st' p) = (if p = co then ?d else co_deadline (callouts st p)) \<and>
          co_evq (callouts st' p) = co_evq (callouts st p)"
    "events st' = events st" "eventqs st' = eventqs st"
    using callout_reset_refines [OF rep [THEN conjunct1] nn] by blast
  with rep show "\<exists>st'. reset_arm env co k st = Some st' \<and>
      (timers_inv st' (insert_timer (\<lambda>p. co_deadline (callouts st p)) ?d co (removeAll co ts)) \<and> same_queues st0 st') \<and>
      (\<lambda>p. co_deadline (callouts st' p)) = (\<lambda>p. co_deadline (callouts st p))(co := ?d)"
    by (intro exI [of _ st']) (auto simp: reset_arm_def same_queues_def)
qed

lemma due_prefix_const:
  "due_prefix due (\<lambda>_. now) i ts = takeWhile (\<lambda>co. due co \<le> now) ts"
  by (induction ts arbitrary: i) auto

lemma takeWhile_sorted_filter:
  "sorted (map f ys) \<Longrightarrow> takeWhile (\<lambda>y. f y \<le> b) ys = filter (\<lambda>y. f y \<le> b) ys" for b :: "'k::linorder"
proof (induction ys)
  case (Cons a ys)
  have "filter (\<lambda>y. f y \<le> b) ys = []" if "\<not> f a \<le> b"
    unfolding filter_empty_conv using that Cons.prems by (auto dest: order.trans)
  with Cons show ?case by (cases "f a \<le> b") simp_all
qed simp

section \<open>Properties\<close>

text \<open>
  C20: callouts fire in the order of their deadlines, and those with the same deadline in the order
  they were armed. Arming callouts one after the other, each at its own time, and firing at any
  later time \<open>now\<close> returns, and puts on their queue exactly the events of the callouts due by
  \<open>now\<close>, as a stable sort by deadline orders them, behind what was queued before.
\<close>

theorem callouts_fire_in_order:
  assumes "timers_inv st []" and "evqs_inv st A"
    and "distinct (map fst xs)" and "NULL \<notin> fst ` set xs" and "q \<noteq> NULL" "eq_init_tag (eventqs st q) \<noteq> NULL"
    and "\<forall>co \<in> fst ` set xs. co_evq (callouts st co) = q \<and> \<not> ev_queued (events st (co_event co))"
  shows "\<exists>ds st1 st2.
    arms (reset_arm env) (\<lambda>ticks st. we_now env st + we_from_millis env (unat ticks)) xs st = Some (ds, st1) \<and>
    map fst ds = map fst xs \<and> timers_fire_due run (\<lambda>_. now) 0 st1 = Some st2 \<and>
    evqs_inv st2 (A(q := A q @ map (co_event \<circ> fst) (filter (\<lambda>d. snd d \<le> now) (sort_key snd ds))))"
proof -
  let ?at = "\<lambda>ticks st. we_now env st + we_from_millis env (unat ticks)"
  obtain ds st1 where arms: "arms (reset_arm env) ?at xs st = Some (ds, st1)" "map fst ds = map fst xs"
    and inv: "timers_inv st1 (map fst (sort_key snd ds))" and same: "same_queues st st1"
    and dl: "\<forall>(c, d) \<in> set ds. co_deadline (callouts st1 c) = d"
    using npl_timers.arms_sorted [where st = st and ?st0.0 = st and acc = "[]" and xs = xs and env = env] assms(1,3,4) by (auto simp: same_queues_def)
  let ?ts = "map fst (sort_key snd ds)" and ?due = "\<lambda>p. co_deadline (callouts st1 p)"
  have set_ts: "set ?ts = fst ` set xs" using arms(2) by (metis list.set_map set_sort)
  have ready: "co_evq (callouts st1 co) = q \<and> eq_init_tag (eventqs st1 (co_evq (callouts st1 co))) \<noteq> NULL \<and>
      \<not> ev_queued (events st1 (co_event co))" if "co \<in> set ?ts" for co
    using that assms(6,7) same set_ts by (auto simp: same_queues_def)
  have "evqs_inv st1 A" using assms(2) evqs_inv_cong [of st1 st A] same by (simp add: same_queues_def)
  from fire_due_refines [OF inv this, of run "\<lambda>_. now" 0] ready assms(5) obtain st2 where
    fire: "timers_fire_due run (\<lambda>_. now) 0 st1 = Some st2" and
    q: "evqs_inv st2 (fired_into (\<lambda>p. co_evq (callouts st1 p)) (due_prefix ?due (\<lambda>_. now) 0 ?ts) A)"
    by blast
  have "due_prefix ?due (\<lambda>_. now) 0 ?ts = map fst (takeWhile (\<lambda>d. snd d \<le> now) (sort_key snd ds))"
    unfolding due_prefix_const takeWhile_map using dl
    by (intro arg_cong [where f = "map fst"] takeWhile_cong) auto
  also have "takeWhile (\<lambda>d. snd d \<le> now) (sort_key snd ds) = filter (\<lambda>d. snd d \<le> now) (sort_key snd ds)"
    by (rule takeWhile_sorted_filter) simp
  finally have prefix: "due_prefix ?due (\<lambda>_. now) 0 ?ts = map fst (filter (\<lambda>d. snd d \<le> now) (sort_key snd ds))" .
  have "fired_into (\<lambda>p. co_evq (callouts st1 p)) (map fst ys) A = A(q := A q @ map (co_event \<circ> fst) ys)"
    if "set (map fst ys) \<subseteq> set ?ts" for ys
  proof -
    have "filter (\<lambda>co. co_evq (callouts st1 co) = r) (map fst ys) = (if r = q then map fst ys else [])" for r
      using that ready by (auto simp: filter_id_conv filter_empty_conv)
    then show ?thesis by (auto simp: fired_into_def fun_eq_iff)
  qed
  moreover have "set (map fst (filter (\<lambda>d. snd d \<le> now) (sort_key snd ds))) \<subseteq> set ?ts" by auto
  ultimately have "evqs_inv st2 (A(q := A q @ map (co_event \<circ> fst) (filter (\<lambda>d. snd d \<le> now) (sort_key snd ds))))"
    using q unfolding prefix by metis
  with arms fire show ?thesis by blast
qed

text \<open>Three callouts on one queue, armed for 30, 10 and 30 ticks.\<close>

definition timers_mem0 :: npl_state where
  "timers_mem0 = (ble_npl_eventq_init 1000 npl_mem0)\<lparr>callouts := \<lambda>_. \<lparr>co_next = NULL, co_deadline = 0, co_active = False, co_evq = 1000\<rparr>\<rparr>"

theorem callouts_fire_in_order_witness:
  "\<exists>ds st1 st2. arms (reset_arm npl_demo_env) (\<lambda>ticks st. we_now npl_demo_env st + we_from_millis npl_demo_env (unat ticks))
     [(64, 30), (96, 10), (128, 30)] timers_mem0 = Some (ds, st1) \<and> map fst ds = [64, 96, 128] \<and>
     timers_fire_due (\<lambda>_ _ st. st) (\<lambda>_. 2000) 0 st1 = Some st2 \<and>
     evqs_inv st2 ((\<lambda>_. [])(1000 := map (co_event \<circ> fst) (filter (\<lambda>d. snd d \<le> 2000) (sort_key snd ds))))"
proof -
  have mem: "callouts timers_mem0 p = \<lparr>co_next = NULL, co_deadline = 0, co_active = False, co_evq = 1000\<rparr>" "timers_head timers_mem0 = NULL"
    "events timers_mem0 = events npl_mem0" "eventqs timers_mem0 = eventqs (ble_npl_eventq_init 1000 npl_mem0)" for p
    by (simp_all add: timers_mem0_def ble_npl_eventq_init_def upd_eventq_def npl_mem0_def sync_state.defs)
  have "timers_inv timers_mem0 []" by (simp add: timers_inv_def mem)
  moreover have "evqs_inv timers_mem0 (\<lambda>_. [])"
    using evqs_inv_npl_mem0 by (simp add: evqs_inv_def evq_rep_def mem ble_npl_eventq_init_def heap_simps)
  moreover have "\<forall>co \<in> fst ` set [(64, 30 :: u32), (96, 10), (128, 30)]. co_evq (callouts timers_mem0 co) = 1000 \<and> \<not> ev_queued (events timers_mem0 (co_event co))"
    by (simp add: mem npl_mem0_def sync_mem0_def ev_mem0_def ev_state.defs sync_state.defs)
  moreover have "eq_init_tag (eventqs timers_mem0 1000) \<noteq> NULL"
    by (simp add: mem ble_npl_eventq_init_def upd_eventq_def)
  ultimately show ?thesis
    using callouts_fire_in_order [of timers_mem0 "\<lambda>_. []" "[(64, 30), (96, 10), (128, 30)]" 1000 npl_demo_env "\<lambda>_ _ st. st" 2000] by simp
qed

end
