(* ===== verification/Hci_Stack.thy ===== *)
theory Hci_Stack
  imports Ble_Driver
begin

text \<open>
  The blocking call of the C host, through all layers: the host hands a command to the transport
  and waits for its acknowledgement on a semaphore of the NPL; the wait polls the registered pump
  (\<open>pump_manual\<close>, called from \<open>wait_until\<close> of \<open>npl.rs\<close>), which dispatches the command to the
  controller and feeds the acknowledgement to the host, which releases the semaphore.

  The state extends that of the driver by the two queues of \<open>hci.rs\<close> and the controller. The C host
  runs on the whole state, so its functions may call the NPL.
\<close>

record ('c, 'q) hci_sys = ble_state +
  sys_ctl :: 'c
  sys_cmdq :: 'q
  sys_aclq :: 'q

definition hci_view :: "('c, 'q, 'z) hci_sys_scheme \<Rightarrow> ('q, ('c, 'q, 'z) hci_sys_scheme) hci_state" where
  "hci_view s = \<lparr>hs_cmd_queue = sys_cmdq s, hs_acl_queue = sys_aclq s, hs_host = s\<rparr>"

definition hci_put :: "('q, ('c, 'q, 'z) hci_sys_scheme) hci_state \<Rightarrow> ('c, 'q, 'z) hci_sys_scheme" where
  "hci_put st = (hs_host st)\<lparr>sys_cmdq := hs_cmd_queue st, sys_aclq := hs_acl_queue st\<rparr>"

text \<open>The future that \<open>run\<close> registers: one poll of the pump over the controller.\<close>

definition pump_future :: "'c ctl_ops \<Rightarrow> 'c acl_ops \<Rightarrow> ('c, 'q, 'z) hci_sys_scheme host_c \<Rightarrow> hci_cfg \<Rightarrow> 'q chan_ops \<Rightarrow> nat \<Rightarrow>
    nat \<Rightarrow> waker \<Rightarrow> ('c, 'q, 'z) hci_sys_scheme \<Rightarrow> ('c, 'q, 'z) hci_sys_scheme option" where
  "pump_future k a h cfg ch acl_size fut w s =
     map_option (\<lambda>(c, st). (hci_put st)\<lparr>sys_ctl := c\<rparr>) (pump k a h cfg ch acl_size (sys_ctl s, hci_view s))"

section \<open>What the C host does with an acknowledgement\<close>

text \<open>A change that leaves the semaphores, the pump and the bridge alone.\<close>

definition keeps_bridge :: "('c, 'q, 'z) hci_sys_scheme \<Rightarrow> ('c, 'q, 'z) hci_sys_scheme \<Rightarrow> bool" where
  "keeps_bridge t t' \<longleftrightarrow> sems t' = sems t \<and> PUMP t' = PUMP t \<and> sys_ctl t' = sys_ctl t \<and> sys_cmdq t' = sys_cmdq t \<and> sys_aclq t' = sys_aclq t"

text \<open>
  The documented behaviour of the C transport and of \<open>ble_hs_hci_rx_ack\<close>: freeing a command buffer
  and allocating an event touch nothing of this, an event buffer is available, and the
  acknowledgement of the command that is waited for releases the semaphore.
\<close>

definition acks_release :: "('c, 'q, 'z) hci_sys_scheme host_c \<Rightarrow> ptr \<Rightarrow> u16 \<Rightarrow> bool" where
  "acks_release h sem opcode \<longleftrightarrow>
     (\<forall>b t. keeps_bridge t (hc_transport_free h b t)) \<and>
     (\<forall>t. fst (hc_alloc_evt h False t) \<noteq> NULL \<and> keeps_bridge t (snd (hc_alloc_evt h False t))) \<and>
     (\<forall>b evt t status. is_ack opcode status evt \<longrightarrow>
        ble_npl_sem_release False sem t = Some (NPL_OK, hc_to_hs_evt h b evt t))"

lemma ack_bytes:
  assumes "is_ack opcode status evt"
  shows "evt ! 0 # of_nat (length (drop 2 evt)) # drop 2 evt = evt"
proof -
  have len: "6 \<le> length evt" "unat (evt ! 1) = length evt - 2" using assms by (auto simp: is_ack_def)
  then obtain a b rest where "evt = a # b # rest" by (cases evt; cases "tl evt") auto
  moreover have "(of_nat (length evt - 2) :: u8) = evt ! 1" unfolding len(2) [symmetric] by simp
  ultimately show ?thesis by simp
qed

lemma feed_ack_releases:
  assumes "acks_release h sem opcode" and "is_ack opcode status evt"
  shows "\<exists>t1. keeps_bridge t t1 \<and> ble_npl_sem_release False sem t1 = Some (NPL_OK, feed_ack h evt t)"
proof (intro exI conjI)
  let ?t1 = "snd (hc_alloc_evt h False t)"
  show "keeps_bridge t ?t1" using assms(1) by (simp add: acks_release_def)
  have "fst (hc_alloc_evt h False t) \<noteq> NULL" using assms(1) unfolding acks_release_def by blast
  then have "feed_ack h evt t = hc_to_hs_evt h (fst (hc_alloc_evt h False t)) evt ?t1"
    using ack_bytes [OF assms(2)] by (simp add: feed_ack_def feed_event_def case_prod_beta)
  then show "ble_npl_sem_release False sem ?t1 = Some (NPL_OK, feed_ack h evt t)"
    using assms unfolding acks_release_def by metis
qed

lemma release_effect:
  assumes "ble_npl_sem_release False sem t = Some (e, t')"
  shows "sems t' sem = \<lparr>sem_count = sem_count (sems t sem) + 1, sem_waker = None\<rparr>" and "PUMP t' = PUMP t"
    and "sys_ctl t' = sys_ctl t" "sys_cmdq t' = sys_cmdq t" "sys_aclq t' = sys_aclq t"
  using assms by (auto simp: ble_npl_sem_release_def sem_release_def rust_inc_def wake_def set_sem_def split: option.splits)

section \<open>The pump on one waiting command\<close>

lemma pump_one:
  assumes "fifo_channel ch contents cap" and "returns_fit k" and "length raw \<ge> 2"
    and "contents (sys_cmdq s) = [raw]" and "contents (sys_aclq s) = []"
    and "\<And>c. ac_alloc_buf a c = (True, c) \<and> ac_read a c = (RxPending, c)"
  shows "\<exists>c' evt status q q'. send_cmd k h cfg raw (sys_ctl s, s) = Some (c', feed_ack h evt s) \<and>
    is_ack (u16_from_le_bytes (raw ! 0) (raw ! 1)) status evt \<and> contents q = [] \<and> contents q' = [] \<and>
    pump_future k a h cfg ch acl_size fut w s = Some ((feed_ack h evt s)\<lparr>sys_cmdq := q, sys_aclq := q', sys_ctl := c'\<rparr>)"
proof -
  obtain c' evt status where send: "send_cmd k h cfg raw (sys_ctl s, s) = Some (c', feed_ack h evt s)"
    "is_ack (u16_from_le_bytes (raw ! 0) (raw ! 1)) status evt"
    using send_cmd_acked [OF assms(3,2), of h s cfg "sys_ctl s"] by (auto simp: acked_def)
  then have all: "send_all k h cfg [raw] (sys_ctl s, hs_host (hci_view s)) = Some (c', feed_ack h evt s)" by (simp add: hci_view_def)
  have queues: "contents (hs_cmd_queue (hci_view s)) = [raw]" "contents (hs_acl_queue (hci_view s)) = []"
    using assms(4,5) by (simp_all add: hci_view_def)
  obtain st' where "pump_tx k a h cfg ch (sys_ctl s, hci_view s) = Some (fold (tx_acl a) [] c', st')" and
    q: "contents (hs_cmd_queue st') = []" "contents (hs_acl_queue st') = []" "hs_host st' = feed_ack h evt s"
    using pump_tx_all [OF assms(1) queues all, of a] by blast
  then have tx: "pump_tx k a h cfg ch (sys_ctl s, hci_view s) = Some (c', st')" by simp
  have "pump_rx a h acl_size (c', hs_host st') = Some (c', hs_host st')"
    using assms(6) by (subst pump_rx.simps) simp
  with tx q(3) have "pump_future k a h cfg ch acl_size fut w s =
      Some ((feed_ack h evt s)\<lparr>sys_cmdq := hs_cmd_queue st', sys_aclq := hs_acl_queue st', sys_ctl := c'\<rparr>)"
    by (simp add: pump_future_def pump_def hci_put_def)
  with send q(1,2) show ?thesis by blast
qed

section \<open>Properties\<close>


text \<open>A host whose acknowledgements release semaphore 8, over the example controller.\<close>

definition sem_host :: "('c, 'q, 'z) hci_sys_scheme host_c" where
  "sem_host = \<lparr>hc_alloc_evt = (\<lambda>_ t. (16, t)), hc_to_hs_evt = (\<lambda>_ _ t. snd (the (ble_npl_sem_release False 8 t))),
     hc_transport_free = (\<lambda>_ t. t), hc_mbuf_free_chain = (\<lambda>_ t. t), hc_alloc_acl_from_ll = (\<lambda>t. (0, t)),
     hc_mbuf_append = (\<lambda>_ _ t. (0, t)), hc_to_hs_acl = (\<lambda>_ t. t)\<rparr>"

lemma sem_host_acks: "acks_release sem_host 8 opcode"
  by (auto simp: acks_release_def sem_host_def keeps_bridge_def ble_npl_sem_release_def sem_release_def rust_inc_def)

definition stack_mem0 :: "((hci_cmd \<times> bytes) list, bytes list) hci_sys" where
  "stack_mem0 = (ble_state.extend ble_mem0 \<lparr>sys_ctl = [], sys_cmdq = [], sys_aclq = []\<rparr>)\<lparr>PUMP := \<lparr>ps_fut = Some 3, ps_busy = False\<rparr>\<rparr>"

definition stack_env :: "((hci_cmd \<times> bytes) list, bytes list) hci_sys wait_env" where
  "stack_env = \<lparr>we_now = (\<lambda>_. 0), we_from_millis = id, we_as_millis = id, we_ctx_id = 1, we_waker = 7,
     we_pump = pump_arm (pump_future demo_ops demo_acl sem_host demo_cfg (list_chan 2) 251), we_park = (\<lambda>_ _. None)\<rparr>"


end
