(* ===== verification/Features.thy ===== *)
theory Features
  imports Nimble_Prelude "HOL-Library.Char_ord" "HOL-Library.List_Lexorder"
begin

text \<open>
  The mapping of cargo features to the configuration of the C host
  (\<open>nimble-rs-sys/gen/features.rs\<close>). Feature names and knobs are strings; a \<open>BTreeMap\<close> is an
  association list kept sorted by its keys, so that iterating over it gives the order of the
  source. The environment of the build is the list of its variables.
\<close>

section \<open>Sorted maps\<close>

type_synonym btree = "(string \<times> string) list"

fun bt_insert :: "string \<Rightarrow> string \<Rightarrow> btree \<Rightarrow> btree" where
  "bt_insert k v [] = [(k, v)]"
| "bt_insert k v ((k', v') # m) =
     (if k < k' then (k, v) # (k', v') # m
      else if k = k' then (k, v) # m
      else (k', v') # bt_insert k v m)"

abbreviation bt_get :: "btree \<Rightarrow> string \<Rightarrow> string option" where
  "bt_get \<equiv> map_of"

definition bt_insert_all :: "(string \<times> string) list \<Rightarrow> btree \<Rightarrow> btree" where
  "bt_insert_all kvs m = fold (\<lambda>(k, v). bt_insert k v) kvs m"

section \<open>Parsing\<close>

text \<open>\<open>str::parse::<u32>\<close>: decimal digits, after an optional plus sign, below \<open>2 ^ 32\<close>.\<close>

definition parse_u32 :: "string \<Rightarrow> nat option" where
  "parse_u32 s =
     (let ds = (case s of CHR ''+'' # t \<Rightarrow> t | _ \<Rightarrow> s)
      in if ds \<noteq> [] \<and> list_all is_digit ds \<and> decimal ds < 2 ^ 32 then Some (decimal ds) else None)"

fun strip_prefix :: "string \<Rightarrow> string \<Rightarrow> string option" where
  "strip_prefix [] s = Some s"
| "strip_prefix (p # ps) [] = None"
| "strip_prefix (p # ps) (c # s) = (if p = c then strip_prefix ps s else None)"

section \<open>The tables\<close>

definition VAL_UNIVERSE :: "(string \<times> string) list" where
  "VAL_UNIVERSE = [
    (''BLE_ROLE_BROADCASTER'', ''0''), (''BLE_ROLE_CENTRAL'', ''0''), (''BLE_ROLE_OBSERVER'', ''0''),
    (''BLE_ROLE_PERIPHERAL'', ''0''), (''LOG_LEVEL'', ''255''), (''BLE_GATTS'', ''0''),
    (''BLE_GATTC'', ''0''), (''BLE_GATT_CACHING'', ''0''), (''BLE_GATT_CSFC_SIZE'', ''1''),
    (''BLE_STORE_MAX_CSFCS'', ''3''), (''BLE_EXT_ADV'', ''0''), (''BLE_PERIODIC_ADV'', ''0''),
    (''BLE_SM_LEGACY'', ''0''), (''BLE_SM_SC'', ''0''), (''BLE_SM_SC_ONLY'', ''0''),
    (''BLE_HS_PVCY'', ''1''), (''BLE_SM_SIGN_CNT'', ''1''), (''BLE_L2CAP_COC_MAX_NUM'', ''0''),
    (''BLE_MAX_CONNECTIONS'', ''4''), (''MSYS_1_BLOCK_COUNT'', ''20''), (''BLE_HS_DEBUG'', ''0''),
    (''BLE_ISO'', ''0''), (''BLE_MESH'', ''0''), (''BLE_EATT_CHAN_NUM'', ''0''),
    (''BLE_HS_FLOW_CTRL'', ''0''), (''BLE_GATT_BLOB_TRANSFER'', ''0''), (''BLE_QUEUE_CONG_CHECK'', ''0''),
    (''BLE_CRYPTO_STACK_MBEDTLS'', ''0''), (''BLE_STATIC_TO_DYNAMIC'', ''0''), (''MP_RUNTIME_ALLOC'', ''0''),
    (''BLE_TRANSPORT_HS__cdc'', ''0''), (''BLE_TRANSPORT_HS__custom'', ''0''),
    (''BLE_TRANSPORT_HS__dialog_cmac'', ''0''), (''BLE_TRANSPORT_HS__native'', ''1''),
    (''BLE_TRANSPORT_HS__nrf5340'', ''0''), (''BLE_TRANSPORT_HS__uart'', ''0''),
    (''BLE_TRANSPORT_HS__usb'', ''0''), (''BLE_TRANSPORT_LL__apollo3'', ''0''),
    (''BLE_TRANSPORT_LL__custom'', ''1''), (''BLE_TRANSPORT_LL__dialog_cmac'', ''0''),
    (''BLE_TRANSPORT_LL__emspi'', ''0''), (''BLE_TRANSPORT_LL__native'', ''0''),
    (''BLE_TRANSPORT_LL__nrf5340'', ''0''), (''BLE_TRANSPORT_LL__socket'', ''0'')]"

definition FEATURE_VALS :: "(string \<times> (string \<times> string) list) list" where
  "FEATURE_VALS = [
    (''PERIPHERAL'', [(''BLE_ROLE_PERIPHERAL'', ''1''), (''BLE_GATTS'', ''1'')]),
    (''BROADCASTER'', [(''BLE_ROLE_BROADCASTER'', ''1'')]),
    (''CENTRAL'', [(''BLE_ROLE_CENTRAL'', ''1''), (''BLE_GATTC'', ''1'')]),
    (''OBSERVER'', [(''BLE_ROLE_OBSERVER'', ''1'')]),
    (''EXT_ADV'', [(''BLE_EXT_ADV'', ''1'')]),
    (''LOG_LEVEL_ERROR'', [(''LOG_LEVEL'', ''3'')]),
    (''LOG_LEVEL_WARN'', [(''LOG_LEVEL'', ''2'')]),
    (''LOG_LEVEL_INFO'', [(''LOG_LEVEL'', ''1'')]),
    (''LOG_LEVEL_DEBUG'', [(''LOG_LEVEL'', ''0'')]),
    (''SM_SC_ONLY'', [(''BLE_SM_LEGACY'', ''0''), (''BLE_SM_SC'', ''1''), (''BLE_SM_SC_ONLY'', ''1'')]),
    (''SM'', [(''BLE_SM_LEGACY'', ''1''), (''BLE_SM_SC'', ''1''), (''BLE_SM_SC_ONLY'', ''0'')])]"

definition UPSTREAM_TEST_VALS :: "(string \<times> string) list" where
  "UPSTREAM_TEST_VALS = [
    (''SELFTEST'', ''1''), (''BLE_HS_PHONY_HCI_ACKS'', ''1''), (''BLE_HS_REQUIRE_OS'', ''0''),
    (''BLE_MAX_CONNECTIONS'', ''8''), (''BLE_GATT_MAX_PROCS'', ''16''), (''BLE_SM'', ''1''),
    (''BLE_SM_LEGACY'', ''1''), (''BLE_SM_SC'', ''1''), (''MSYS_1_BLOCK_COUNT'', ''100''),
    (''BLE_L2CAP_COC_MAX_NUM'', ''2''), (''BLE_VERSION'', ''52''), (''BLE_L2CAP_ENHANCED_COC'', ''1''),
    (''BLE_GATTS'', ''1''), (''BLE_GATTC'', ''1''), (''BLE_HS_DEBUG'', ''1'')]"

definition UPSTREAM_TEST_EXTRA_DEFINES :: "(string \<times> string) list" where
  "UPSTREAM_TEST_EXTRA_DEFINES = [
    (''TaskHandle_t'', ''void *''), (''xTaskGetCurrentTaskHandle()'', ''ble_npl_get_current_task_id()'')]"

definition NUMERIC_FAMILIES :: "(string \<times> string) list" where
  "NUMERIC_FAMILIES = [
    (''L2CAP_COC_'', ''BLE_L2CAP_COC_MAX_NUM''), (''MAX_CONNECTIONS_'', ''BLE_MAX_CONNECTIONS''),
    (''MSYS_COUNT_'', ''MSYS_1_BLOCK_COUNT'')]"

definition PREBUILT_FEATURES :: "string list" where
  "PREBUILT_FEATURES = [''PERIPHERAL'', ''BROADCASTER'', ''CENTRAL'', ''OBSERVER'', ''SM'']"

definition EXTRA_DEFINES :: "(string \<times> string) list" where
  "EXTRA_DEFINES = [
    (''CONFIG_BT_NIMBLE_GAP_SERVICE'', ''1''), (''CONFIG_BT_NIMBLE_ENABLED'', ''1''),
    (''g_msys_pool_list'', ''nimble_rs_msys_pool_list'')]"

section \<open>The effective settings\<close>

definition family_max :: "string list \<Rightarrow> string \<Rightarrow> nat option" where
  "family_max features prefix =
     (let ns = List.map_filter parse_u32 (List.map_filter (strip_prefix prefix) features)
      in if ns = [] then None else Some (Max (set ns)))"

definition apply_family :: "string list \<Rightarrow> string \<times> string \<Rightarrow> btree \<Rightarrow> btree" where
  "apply_family features = (\<lambda>(prefix, val_name) vals.
     case family_max features prefix of
       None \<Rightarrow> vals
     | Some mx \<Rightarrow>
         (let reset = (case bt_get vals val_name of
                None \<Rightarrow> 0
              | Some value \<Rightarrow> (case parse_u32 value of None \<Rightarrow> 0 | Some n \<Rightarrow> n))
          in bt_insert val_name (to_dec (max mx reset)) vals))"

definition val_settings_for :: "string list \<Rightarrow> btree" where
  "val_settings_for features =
     (let vals0 = bt_insert_all VAL_UNIVERSE [];
          vals1 = fold (\<lambda>(feature, overrides) vals.
              if feature \<in> set features then bt_insert_all overrides vals else vals) FEATURE_VALS vals0;
          vals2 = (if ''UPSTREAM_TEST'' \<in> set features then bt_insert_all UPSTREAM_TEST_VALS vals1 else vals1)
      in fold (apply_family features) NUMERIC_FAMILIES vals2)"

definition active_features :: "(string \<times> string) list \<Rightarrow> string list" where
  "active_features vars = sort (List.map_filter (\<lambda>(key, _). strip_prefix ''CARGO_FEATURE_'' key) vars)"

definition active_val_settings :: "(string \<times> string) list \<Rightarrow> btree" where
  "active_val_settings vars = val_settings_for (active_features vars)"

text \<open>The delta: the entries in the order the source pushes them, joined into one message.\<close>

fun join :: "string \<Rightarrow> string list \<Rightarrow> string" where
  "join sep [] = []"
| "join sep [x] = x"
| "join sep (x # y # ys) = x @ sep @ join sep (y # ys)"

definition settings_delta :: "btree \<Rightarrow> btree \<Rightarrow> string list" where
  "settings_delta reference actv =
     List.map_filter (\<lambda>(name, ref_value).
        case bt_get actv name of
          Some value \<Rightarrow>
            if value = ref_value then None
            else Some (''~'' @ name @ ''='' @ ref_value @ ''->'' @ value)
        | None \<Rightarrow> Some (''-'' @ name @ ''='' @ ref_value)) reference @
     List.map_filter (\<lambda>(name, value).
        if bt_get reference name = None then Some (''+'' @ name @ ''='' @ value) else None) actv"

definition prebuilt_validity :: "(string \<times> string) list \<Rightarrow> string + unit" where
  "prebuilt_validity vars =
     (let d = settings_delta (val_settings_for PREBUILT_FEATURES) (active_val_settings vars)
      in if d = [] then Inr () else Inl (join '', '' d))"

section \<open>Maps\<close>

lemma map_of_bt_insert [simp]: "map_of (bt_insert k v m) = (map_of m)(k \<mapsto> v)"
  by (induction k v m rule: bt_insert.induct) (auto simp: fun_eq_iff)

lemma bt_insert_keys: "set (map fst (bt_insert k v m)) = insert k (set (map fst m))"
  by (induction k v m rule: bt_insert.induct) auto

lemma bt_insert_sorted: "sorted_wrt (<) (map fst m) \<Longrightarrow> sorted_wrt (<) (map fst (bt_insert k v m))"
proof (induction k v m rule: bt_insert.induct)
  case (2 k v k' v' m)
  then show ?case using bt_insert_keys [of k v m] by (auto simp: image_iff)
qed simp

lemma map_of_insert_all: "map_of (bt_insert_all kvs m) = map_of m ++ map_of (rev kvs)"
  by (induction kvs arbitrary: m) (auto simp: bt_insert_all_def map_add_def fun_eq_iff split: option.splits)

lemma insert_all_sorted: "sorted_wrt (<) (map fst m) \<Longrightarrow> sorted_wrt (<) (map fst (bt_insert_all kvs m))"
  by (induction kvs arbitrary: m) (auto simp: bt_insert_all_def bt_insert_sorted)

lemma apply_family_map:
  "map_of (apply_family fs (pre, knob) vals) =
     (case family_max fs pre of
        None \<Rightarrow> map_of vals
      | Some mx \<Rightarrow> (map_of vals)(knob \<mapsto> to_dec (max mx
          (case map_of vals knob of None \<Rightarrow> 0 | Some v \<Rightarrow> (case parse_u32 v of None \<Rightarrow> 0 | Some n \<Rightarrow> n)))))"
  by (simp add: apply_family_def Let_def split: option.splits)

text \<open>The settings after the universe and the feature overrides.\<close>

definition feature_settings :: "string list \<Rightarrow> (string \<times> (string \<times> string) list) list \<Rightarrow> btree \<Rightarrow> btree" where
  "feature_settings features fvs vals =
     fold (\<lambda>(feature, overrides) vals. if feature \<in> set features then bt_insert_all overrides vals else vals) fvs vals"

lemma feature_settings_untouched:
  "(\<And>f ov. (f, ov) \<in> set fvs \<Longrightarrow> knob \<notin> fst ` set ov) \<Longrightarrow>
   map_of (feature_settings features fvs vals) knob = map_of vals knob"
proof (induction fvs arbitrary: vals)
  case (Cons x fvs)
  obtain f ov where x: "x = (f, ov)" by (cases x)
  then have "knob \<notin> fst ` set (rev ov)" using Cons.prems [of f ov] by simp
  then have "map_of (rev ov) knob = None" by (simp add: map_of_eq_None_iff)
  then have one: "map_of (if f \<in> set features then bt_insert_all ov vals else vals) knob = map_of vals knob"
    by (simp add: map_of_insert_all map_add_def)
  have "map_of (feature_settings features fvs (if f \<in> set features then bt_insert_all ov vals else vals)) knob = map_of vals knob"
    by (subst Cons.IH) (use Cons.prems one in auto)
  with x show ?case by (simp add: feature_settings_def)
qed (simp add: feature_settings_def)

lemma feature_settings_dom:
  "dom (map_of vals) \<subseteq> dom (map_of (feature_settings features fvs vals))"
proof (induction fvs arbitrary: vals)
  case (Cons x fvs)
  obtain f ov where x: "x = (f, ov)" by (cases x)
  have "dom (map_of vals) \<subseteq> dom (map_of (if f \<in> set features then bt_insert_all ov vals else vals))"
    by (auto simp: map_of_insert_all)
  with Cons.IH [of "if f \<in> set features then bt_insert_all ov vals else vals"] x show ?case
    by (auto simp: feature_settings_def)
qed (simp add: feature_settings_def)

lemma feature_settings_sorted:
  "sorted_wrt (<) (map fst vals) \<Longrightarrow> sorted_wrt (<) (map fst (feature_settings features fvs vals))"
  by (induction fvs arbitrary: vals) (auto simp: feature_settings_def insert_all_sorted split: prod.splits)

definition base_settings :: "string list \<Rightarrow> btree" where
  "base_settings fs =
     (let vals1 = feature_settings fs FEATURE_VALS (bt_insert_all VAL_UNIVERSE [])
      in if ''UPSTREAM_TEST'' \<in> set fs then bt_insert_all UPSTREAM_TEST_VALS vals1 else vals1)"

lemma val_settings_base: "val_settings_for fs = fold (apply_family fs) NUMERIC_FAMILIES (base_settings fs)"
  by (simp add: val_settings_for_def base_settings_def feature_settings_def Let_def)

lemma apply_family_dom: "dom (map_of vals) \<subseteq> dom (map_of (apply_family fs fam vals))"
  by (cases fam) (auto simp: apply_family_map split: option.splits)

lemma apply_family_sorted: "sorted_wrt (<) (map fst vals) \<Longrightarrow> sorted_wrt (<) (map fst (apply_family fs fam vals))"
  by (cases fam) (simp add: apply_family_def bt_insert_sorted Let_def split: option.splits)

lemma families_dom: "dom (map_of vals) \<subseteq> dom (map_of (fold (apply_family fs) fams vals))"
proof (induction fams arbitrary: vals)
  case (Cons fam fams)
  then show ?case using apply_family_dom [of vals fs fam] by fastforce
qed simp

lemma families_sorted: "sorted_wrt (<) (map fst vals) \<Longrightarrow> sorted_wrt (<) (map fst (fold (apply_family fs) fams vals))"
  by (induction fams arbitrary: vals) (auto simp: apply_family_sorted)

lemma base_dom: "fst ` set VAL_UNIVERSE \<subseteq> dom (map_of (base_settings fs))"
proof -
  have "fst ` set VAL_UNIVERSE = dom (map_of (bt_insert_all VAL_UNIVERSE []))"
    by (simp add: map_of_insert_all dom_map_of_conv_image_fst)
  also have "\<dots> \<subseteq> dom (map_of (feature_settings fs FEATURE_VALS (bt_insert_all VAL_UNIVERSE [])))"
    by (rule feature_settings_dom)
  also have "\<dots> \<subseteq> dom (map_of (base_settings fs))"
    by (auto simp: base_settings_def Let_def map_of_insert_all)
  finally show ?thesis .
qed

lemma val_settings_sorted: "sorted_wrt (<) (map fst (val_settings_for fs))"
  unfolding val_settings_base
  by (rule families_sorted) (simp add: base_settings_def Let_def insert_all_sorted feature_settings_sorted)

lemma val_settings_distinct: "distinct (map fst (val_settings_for fs))"
  using val_settings_sorted strict_sorted_iff by blast

section \<open>Decimal round trip\<close>

lemma of_char_digit: "n < 10 \<Longrightarrow> of_char (char_of (48 + n) :: char) = (48 + n :: nat)"
  by simp

lemma parse_to_dec: "n < 2 ^ 32 \<Longrightarrow> parse_u32 (to_dec n) = Some n"
proof -
  assume n: "n < 2 ^ 32"
  obtain c t where ct: "to_dec n = c # t" using to_dec_digits [of n] by (cases "to_dec n") auto
  then have "is_digit c" using to_dec_digits [of n] by simp
  then have "c \<noteq> CHR ''+''" by (auto simp: is_digit_def)
  then have "(case to_dec n of CHR ''+'' # t \<Rightarrow> t | _ \<Rightarrow> to_dec n) = to_dec n"
    by (simp add: ct split: char.splits bool.splits)
  then show ?thesis using n to_dec_digits [of n] by (simp add: parse_u32_def Let_def decimal_to_dec)
qed

lemma sorted_keys_eqI:
  fixes xs ys :: btree
  assumes "sorted_wrt (<) (map fst xs)" and "sorted_wrt (<) (map fst ys)" and "map_of xs = map_of ys"
  shows "xs = ys"
proof -
  have sd: "sorted (map fst xs)" "distinct (map fst xs)" "sorted (map fst ys)" "distinct (map fst ys)"
    using assms(1,2) by (simp_all add: strict_sorted_iff)
  then have "set xs = set ys" using assms(3) by (simp add: map_of_inject_set)
  moreover from this sd(2) have "inj_on fst (set xs \<union> set ys)" by (simp add: distinct_map)
  ultimately show ?thesis using sd by (intro map_sorted_distinct_set_unique) auto
qed

lemma map_filter_Nil: "List.map_filter f xs = [] \<longleftrightarrow> (\<forall>x \<in> set xs. f x = None)"
  by (induction xs) (auto simp: List.map_filter_simps split: option.splits)

text \<open>An empty delta: every reference entry is active with the same value, and no other knob is.\<close>

lemma settings_delta_entries:
  "settings_delta reference actv = [] \<longleftrightarrow>
     (\<forall>(n, v) \<in> set reference. bt_get actv n = Some v) \<and> (\<forall>(n, v) \<in> set actv. bt_get reference n \<noteq> None)"
proof -
  have "(case bt_get actv n of Some value \<Rightarrow> if value = v then None else Some (''~'' @ n @ ''='' @ v @ ''->'' @ value)
      | None \<Rightarrow> Some (''-'' @ n @ ''='' @ v)) = None \<longleftrightarrow> bt_get actv n = Some v" for n v
    by (auto split: option.splits)
  then show ?thesis by (simp add: settings_delta_def map_filter_Nil case_prod_beta)
qed

lemma settings_delta_Nil:
  assumes "distinct (map fst reference)" and "distinct (map fst actv)"
  shows "settings_delta reference actv = [] \<longleftrightarrow> bt_get reference = bt_get actv"
proof
  assume "settings_delta reference actv = []"
  then have r: "\<forall>(n, v) \<in> set reference. bt_get actv n = Some v" and a: "\<forall>(n, v) \<in> set actv. bt_get reference n \<noteq> None"
    by (simp_all add: settings_delta_entries)
  show "bt_get reference = bt_get actv"
  proof
    fix n
    show "bt_get reference n = bt_get actv n"
    proof (cases "bt_get reference n")
      case None
      then have "bt_get actv n = None" using a by (metis (mono_tags, lifting) case_prodD map_of_SomeD not_None_eq)
      with None show ?thesis by simp
    next
      case (Some v)
      with r map_of_SomeD [OF Some] show ?thesis by auto
    qed
  qed
next
  assume eq: "bt_get reference = bt_get actv"
  have "bt_get actv n = Some v" if "(n, v) \<in> set reference" for n v
    using map_of_is_SomeI [OF assms(1) that] eq by simp
  moreover have "bt_get reference n \<noteq> None" if "(n, v) \<in> set actv" for n v
    using map_of_is_SomeI [OF assms(2) that] eq by simp
  ultimately show "settings_delta reference actv = []" unfolding settings_delta_entries by blast
qed

lemma apply_family_same:
  "bt_get vals knob = Some (to_dec r) \<Longrightarrow> r < 2 ^ 32 \<Longrightarrow>
   bt_get (apply_family fs (pre, knob) vals) knob =
     Some (to_dec (case family_max fs pre of None \<Rightarrow> r | Some mx \<Rightarrow> max mx r))"
  by (simp add: apply_family_map parse_to_dec split: option.splits)

lemma apply_family_other: "k \<noteq> knob \<Longrightarrow> bt_get (apply_family fs (pre, knob) vals) k = bt_get vals k"
  by (simp add: apply_family_map split: option.splits)

lemma prebuilt_validity_same:
  "prebuilt_validity vars = Inr () \<longleftrightarrow> active_val_settings vars = val_settings_for PREBUILT_FEATURES"
proof -
  have "settings_delta (val_settings_for PREBUILT_FEATURES) (active_val_settings vars) = [] \<longleftrightarrow>
      map_of (val_settings_for PREBUILT_FEATURES) = map_of (active_val_settings vars)"
    by (rule settings_delta_Nil) (simp_all add: val_settings_distinct active_val_settings_def)
  moreover have "map_of (val_settings_for PREBUILT_FEATURES) = map_of (active_val_settings vars) \<longleftrightarrow>
      active_val_settings vars = val_settings_for PREBUILT_FEATURES"
    using sorted_keys_eqI [OF val_settings_sorted val_settings_sorted] by (auto simp: active_val_settings_def)
  ultimately show ?thesis by (simp add: prebuilt_validity_def Let_def)
qed

section \<open>Properties\<close>

text \<open>
  Every knob of the universe has a value whatever features are enabled, and the keys of the
  settings are distinct and sorted.
\<close>

theorem universe_always_set:
  "(\<forall>(knob, reset) \<in> set VAL_UNIVERSE. \<exists>v. bt_get (val_settings_for features) knob = Some v) \<and>
   sorted_wrt (<) (map fst (val_settings_for features))"
  using base_dom [of features] families_dom [of "base_settings features" features NUMERIC_FAMILIES] val_settings_sorted
  unfolding val_settings_base by (force simp: subset_iff dom_def)

theorem universe_always_set_witness: "\<exists>v. bt_get (val_settings_for []) ''BLE_MESH'' = Some v"
proof -
  have "(''BLE_MESH'', ''0'') \<in> set VAL_UNIVERSE" by (simp add: VAL_UNIVERSE_def)
  with universe_always_set [of "[]"] show ?thesis by blast
qed

text \<open>
  the numeric families. Outside the upstream test configuration, a numeric knob has the
  largest enabled value of its family when that is above the reset value, and the reset value
  otherwise: no feature can lower it.
\<close>

theorem numeric_family_value:
  assumes "''UPSTREAM_TEST'' \<notin> set fs"
    and "(prefix, knob, reset) \<in> {(''L2CAP_COC_'', ''BLE_L2CAP_COC_MAX_NUM'', 0),
      (''MAX_CONNECTIONS_'', ''BLE_MAX_CONNECTIONS'', 4), (''MSYS_COUNT_'', ''MSYS_1_BLOCK_COUNT'', 20)}"
  shows "bt_get (val_settings_for fs) knob =
    Some (to_dec (case family_max fs prefix of None \<Rightarrow> reset | Some mx \<Rightarrow> max mx reset))"
proof -
  have base: "map_of (base_settings fs) k = map_of VAL_UNIVERSE k"
    if "k \<in> {''BLE_L2CAP_COC_MAX_NUM'', ''BLE_MAX_CONNECTIONS'', ''MSYS_1_BLOCK_COUNT''}" for k
  proof -
    have "map_of (feature_settings fs FEATURE_VALS (bt_insert_all VAL_UNIVERSE [])) k = map_of (bt_insert_all VAL_UNIVERSE []) k"
      by (rule feature_settings_untouched) (use that in \<open>auto simp: FEATURE_VALS_def\<close>)
    moreover have "distinct (map fst VAL_UNIVERSE)" by (simp add: VAL_UNIVERSE_def)
    ultimately show ?thesis using assms(1)
      by (simp add: base_settings_def map_of_insert_all Let_def map_of_rev_distinct)
  qed
  have vals: "map_of VAL_UNIVERSE ''BLE_L2CAP_COC_MAX_NUM'' = Some (to_dec 0)"
    "map_of VAL_UNIVERSE ''BLE_MAX_CONNECTIONS'' = Some (to_dec 4)"
    "map_of VAL_UNIVERSE ''MSYS_1_BLOCK_COUNT'' = Some (to_dec 20)"
    by (simp_all add: VAL_UNIVERSE_def to_dec.simps char_of_def bit_0)
  have fold3: "val_settings_for fs = apply_family fs (''MSYS_COUNT_'', ''MSYS_1_BLOCK_COUNT'')
      (apply_family fs (''MAX_CONNECTIONS_'', ''BLE_MAX_CONNECTIONS'')
        (apply_family fs (''L2CAP_COC_'', ''BLE_L2CAP_COC_MAX_NUM'') (base_settings fs)))"
    by (simp only: val_settings_base NUMERIC_FAMILIES_def fold.simps id_apply comp_apply)
  from assms(2) consider
      "prefix = ''L2CAP_COC_''" "knob = ''BLE_L2CAP_COC_MAX_NUM''" "reset = 0"
    | "prefix = ''MAX_CONNECTIONS_''" "knob = ''BLE_MAX_CONNECTIONS''" "reset = 4"
    | "prefix = ''MSYS_COUNT_''" "knob = ''MSYS_1_BLOCK_COUNT''" "reset = 20"
    by blast
  then show ?thesis
    by cases (simp_all add: fold3 apply_family_same apply_family_other base vals cong: option.case_cong)
qed

theorem numeric_family_value_witness:
  "bt_get (val_settings_for [''MAX_CONNECTIONS_1'', ''MAX_CONNECTIONS_9'']) ''BLE_MAX_CONNECTIONS'' = Some ''9'' \<and>
   bt_get (val_settings_for [''MAX_CONNECTIONS_1'']) ''BLE_MAX_CONNECTIONS'' = Some ''4''"
  using numeric_family_value [of "[''MAX_CONNECTIONS_1'', ''MAX_CONNECTIONS_9'']" "''MAX_CONNECTIONS_''" "''BLE_MAX_CONNECTIONS''" 4]
    numeric_family_value [of "[''MAX_CONNECTIONS_1'']" "''MAX_CONNECTIONS_''" "''BLE_MAX_CONNECTIONS''" 4]
  by (simp add: family_max_def List.map_filter_simps parse_u32_def is_digit_def decimal_def digit_val_def to_dec.simps char_of_def bit_0)

end
