(* ===== verification/Builder.thy ===== *)
theory Builder
  imports Features
begin

text \<open>
  The build of the C host (\<open>nimble-rs-sys/gen/builder.rs\<close> and \<open>nimble-rs-sys/build.rs\<close>): the
  include directories, macros and sources handed to the C compiler, the arguments handed to
  bindgen, and the choice between the shipped artifacts and a build on the fly.

  A \<open>cc::Build\<close> and a \<open>bindgen::Builder\<close> are records of what was configured; what a run of the
  script does is the list of its actions, in order. The environment, the file system, the C
  compiler and bindgen are parameters. Paths are those of a Unix host.
\<close>

section \<open>Paths\<close>

text \<open>\<open>Path::join\<close> and \<open>Path::extension\<close> (of a file name).\<close>

definition path_join :: "string \<Rightarrow> string \<Rightarrow> string" where
  "path_join p q =
     (if q \<noteq> [] \<and> hd q = CHR ''/'' then q
      else if p = [] \<or> last p = CHR ''/'' then p @ q
      else p @ CHR ''/'' # q)"

definition file_extension :: "string \<Rightarrow> string option" where
  "file_extension name =
     (let after = rev (takeWhile (\<lambda>c. c \<noteq> CHR ''.'') (rev name));
          before = dropWhile (\<lambda>c. c \<noteq> CHR ''.'') (rev name)
      in if name = ''..'' \<or> before = [] \<or> tl before = [] then None else Some after)"

definition ends_with :: "string \<Rightarrow> string \<Rightarrow> bool" where
  "ends_with suffix s \<longleftrightarrow> length suffix \<le> length s \<and> drop (length s - length suffix) s = suffix"

fun contains :: "string \<Rightarrow> string \<Rightarrow> bool" where
  "contains pat [] = (pat = [])"
| "contains pat (c # s) = (take (length pat) (c # s) = pat \<or> contains pat s)"

section \<open>The builder\<close>

definition PORTING_SRC_EXCLUDES :: "string list" where
  "PORTING_SRC_EXCLUDES = [''hal_timer.c'', ''hal_uart.c'', ''os_cputime.c'', ''os_cputime_pwr2.c'', ''nimble_port.c'', ''os_mempool.c'']"

record NimbleBuilder =
  nb_crate_root :: string
  nb_target :: "string option"
  nb_host :: "string option"

definition LIB_NIMBLE :: string where "LIB_NIMBLE = ''nimble''"

definition LIB_TINYCRYPT :: string where "LIB_TINYCRYPT = ''nimble-tinycrypt''"

definition NimbleBuilder_new :: "string \<Rightarrow> string option \<Rightarrow> string option \<Rightarrow> NimbleBuilder" where
  "NimbleBuilder_new root target host = \<lparr>nb_crate_root = root, nb_target = target, nb_host = host\<rparr>"

definition nimble_root :: "NimbleBuilder \<Rightarrow> string" where
  "nimble_root b = path_join (nb_crate_root b) ''esp-nimble''"

definition glue_include_dir :: "NimbleBuilder \<Rightarrow> string" where
  "glue_include_dir b = path_join (path_join (path_join (nb_crate_root b) ''gen'') ''glue'') ''include''"

definition include_dirs :: "NimbleBuilder \<Rightarrow> string list" where
  "include_dirs b =
     (let root = nimble_root b
      in [glue_include_dir b,
          path_join (path_join (path_join (nb_crate_root b) ''gen'') ''vendored'') ''nanoprintf'',
          path_join root ''nimble/include'', path_join root ''nimble/host/include'',
          path_join root ''nimble/host/services/gap/include'', path_join root ''nimble/host/services/gatt/include'',
          path_join root ''nimble/host/store/ram/include'', path_join root ''nimble/host/util/include'',
          path_join root ''nimble/transport/include'', path_join root ''porting/nimble/include'',
          path_join root ''ext/tinycrypt/include''])"

definition env_set :: "(string \<times> string) list \<Rightarrow> string \<Rightarrow> bool" where
  "env_set vars name \<longleftrightarrow> map_of vars name \<noteq> None"

definition builder_defines :: "(string \<times> string) list \<Rightarrow> (string \<times> string) list" where
  "builder_defines vars =
     (let defs = map (\<lambda>(name, value). (''MYNEWT_VAL_'' @ name, value)) (active_val_settings vars) @ EXTRA_DEFINES
      in if env_set vars ''CARGO_FEATURE_UPSTREAM_TEST'' then defs @ UPSTREAM_TEST_EXTRA_DEFINES else defs)"

text \<open>
  Reading a directory may fail as a whole and at each entry. The entries of one directory share
  its path, so that \<open>sort\<close> orders them by file name.
\<close>

datatype build_error = Io_error string | Bindgen_failed | Build_panic

type_synonym dir_reader = "string \<Rightarrow> build_error + (build_error + string) list"

fun glob_entries :: "string list \<Rightarrow> string list \<Rightarrow> (build_error + string) list \<Rightarrow> build_error + string list" where
  "glob_entries excludes files [] = Inr files"
| "glob_entries excludes files (Inl e # entries) = Inl e"
| "glob_entries excludes files (Inr name # entries) =
     glob_entries excludes
       (if file_extension name = Some ''c'' \<and> name \<notin> set excludes then files @ [name] else files) entries"

definition glob_c :: "dir_reader \<Rightarrow> string \<Rightarrow> string list \<Rightarrow> build_error + string list" where
  "glob_c read_dir dir excludes =
     (case read_dir dir of
        Inl e \<Rightarrow> Inl e
      | Inr entries \<Rightarrow>
          (case glob_entries excludes [] entries of
             Inl e \<Rightarrow> Inl e
           | Inr files \<Rightarrow> Inr (map (path_join dir) (sort files))))"

text \<open>The \<open>extend\<close> calls of \<open>sources\<close>: one directory after the other, stopping at the first error.\<close>

fun glob_all :: "dir_reader \<Rightarrow> (string \<times> string list) list \<Rightarrow> string list \<Rightarrow> build_error + string list" where
  "glob_all read_dir [] files = Inr files"
| "glob_all read_dir ((dir, excludes) # dirs) files =
     (case glob_c read_dir dir excludes of
        Inl e \<Rightarrow> Inl e
      | Inr found \<Rightarrow> glob_all read_dir dirs (files @ found))"

definition source_dirs :: "NimbleBuilder \<Rightarrow> (string \<times> string list) list" where
  "source_dirs b =
     (let root = nimble_root b
      in [(path_join root ''porting/nimble/src'', PORTING_SRC_EXCLUDES), (path_join root ''nimble/host/src'', []),
          (path_join root ''nimble/host/util/src'', []), (path_join root ''nimble/host/services/gap/src'', []),
          (path_join root ''nimble/host/services/gatt/src'', []), (path_join root ''nimble/host/store/ram/src'', [])])"

definition sources :: "dir_reader \<Rightarrow> NimbleBuilder \<Rightarrow> build_error + string list" where
  "sources read_dir b =
     (case glob_all read_dir (source_dirs b) [] of
        Inl e \<Rightarrow> Inl e
      | Inr files \<Rightarrow> Inr (files @ [path_join (nimble_root b) ''nimble/transport/src/transport.c'',
          path_join (nb_crate_root b) ''gen/glue/src/os_mempool.c'', path_join (nb_crate_root b) ''gen/glue/src/log.c'']))"

section \<open>Targets\<close>

definition is_baremetal :: "string \<Rightarrow> bool" where
  "is_baremetal target \<longleftrightarrow> ends_with ''-none'' target \<or> contains ''-none-'' target"

fun clang_target_in :: "string list \<Rightarrow> string \<Rightarrow> string" where
  "clang_target_in [] target = target"
| "clang_target_in (arch # archs) target =
     (case strip_prefix arch target of
        Some rest \<Rightarrow>
          (if CHR ''-'' \<in> set rest then arch @ dropWhile (\<lambda>c. c \<noteq> CHR ''-'') rest else clang_target_in archs target)
      | None \<Rightarrow> clang_target_in archs target)"

definition clang_target :: "string \<Rightarrow> string" where
  "clang_target target = clang_target_in [''riscv32'', ''riscv64''] target"

section \<open>Compiling\<close>

record cc_build =
  cb_out_dir :: string
  cb_target :: "string option"
  cb_host :: "string option"
  cb_compiler :: "string option"
  cb_flags :: "string list"
  cb_flags_if_supported :: "string list"
  cb_warnings :: bool
  cb_includes :: "string list"
  cb_defines :: "(string \<times> string) list"
  cb_files :: "string list"

definition cross :: "NimbleBuilder \<Rightarrow> string option" where
  "cross b = (case (nb_target b, nb_host b) of
     (Some target, Some host) \<Rightarrow> if target \<noteq> host then Some target else None
   | _ \<Rightarrow> None)"

definition sysroot_args :: "NimbleBuilder \<Rightarrow> string list" where
  "sysroot_args b =
     (let sysroot = path_join (path_join (nb_crate_root b) ''gen'') ''sysroot''
      in [''-I'' @ path_join sysroot ''include'', ''--sysroot='' @ sysroot])"

definition configure :: "(string \<times> string) list \<Rightarrow> NimbleBuilder \<Rightarrow> string \<Rightarrow> cc_build" where
  "configure vars b out_dir =
     (let clang = (if env_set vars ''CARGO_FEATURE_USE_GCC'' then None else cross b)
      in \<lparr>cb_out_dir = out_dir, cb_target = nb_target b, cb_host = nb_host b,
          cb_compiler = (case clang of Some _ \<Rightarrow> Some ''clang'' | None \<Rightarrow> None),
          cb_flags = (case clang of Some target \<Rightarrow> if is_baremetal target then sysroot_args b else [] | None \<Rightarrow> []),
          cb_flags_if_supported = [''-ffunction-sections'', ''-fdata-sections''],
          cb_warnings = False, cb_includes = [], cb_defines = [], cb_files = []\<rparr>)"

text \<open>The world of the script and what it does to it.\<close>

record bindgen_args =
  bg_header :: string
  bg_allowlist :: "string list"
  bg_clang_args :: "string list"

record build_world =
  bw_vars :: "(string \<times> string) list"
  bw_exists :: "string \<Rightarrow> bool"
  bw_read_dir :: dir_reader
  bw_cc :: "cc_build \<Rightarrow> string \<Rightarrow> bool"
  bw_bindgen :: "bindgen_args \<Rightarrow> string option"
  bw_write :: "string \<Rightarrow> string \<Rightarrow> bool"
  bw_open_append :: "string \<Rightarrow> bool"
  bw_writeln :: "string \<Rightarrow> string \<Rightarrow> bool"

datatype build_act =
    Compile cc_build string
  | Bindgen bindgen_args
  | Write_file string string
  | Append_line string string
  | Println string

definition nimble_build :: "(string \<times> string) list \<Rightarrow> NimbleBuilder \<Rightarrow> string \<Rightarrow> string list \<Rightarrow> cc_build" where
  "nimble_build vars b out_dir files =
     (let build = configure vars b out_dir
      in build\<lparr>cb_flags := cb_flags build @ [''-include'', ''esp_err.h''],
          cb_includes := include_dirs b, cb_defines := builder_defines vars, cb_files := files\<rparr>)"

definition tinycrypt_build :: "(string \<times> string) list \<Rightarrow> NimbleBuilder \<Rightarrow> string \<Rightarrow> string list \<Rightarrow> cc_build" where
  "tinycrypt_build vars b out_dir files =
     (let build = configure vars b out_dir
      in build\<lparr>cb_includes := [path_join (nimble_root b) ''ext/tinycrypt/include''],
          cb_flags_if_supported := cb_flags_if_supported build @ [''-std=c99''], cb_files := files\<rparr>)"

definition metadata :: "(string \<times> string) list \<Rightarrow> NimbleBuilder \<Rightarrow> build_act list" where
  "metadata vars b =
     [Println (''cargo::metadata=include='' @ Features.join '';'' (include_dirs b)),
      Println (''cargo::metadata=defines='' @ Features.join '';'' (map (\<lambda>(name, value). name @ ''='' @ value) (builder_defines vars)))]"

definition compile :: "build_world \<Rightarrow> NimbleBuilder \<Rightarrow> string \<Rightarrow> (build_error + string) \<times> build_act list" where
  "compile w b out_dir =
     (case sources (bw_read_dir w) b of
        Inl e \<Rightarrow> (Inl e, [])
      | Inr files \<Rightarrow>
          (let build = nimble_build (bw_vars w) b out_dir files;
               acts = [Compile build LIB_NIMBLE]
           in if \<not> bw_cc w build LIB_NIMBLE then (Inl Build_panic, acts)
              else let acts = acts @ metadata (bw_vars w) b
                in case glob_c (bw_read_dir w) (path_join (nimble_root b) ''ext/tinycrypt/src'') [] of
                     Inl e \<Rightarrow> (Inl e, acts)
                   | Inr tc \<Rightarrow>
                       (let build = tinycrypt_build (bw_vars w) b out_dir tc;
                            acts = acts @ [Compile build LIB_TINYCRYPT]
                        in if bw_cc w build LIB_TINYCRYPT then (Inr out_dir, acts) else (Inl Build_panic, acts))))"

section \<open>Bindings\<close>

definition bindgen_builder :: "(string \<times> string) list \<Rightarrow> NimbleBuilder \<Rightarrow> bindgen_args" where
  "bindgen_builder vars b =
     \<lparr>bg_header = path_join (path_join (path_join (nb_crate_root b) ''gen'') ''include'') ''include.h'',
      bg_allowlist = [''ble_.*'', ''BLE_.*'', ''os_.*'', ''OS_.*'', ''nimble_port_.*'', ''nimble_platform_mem_.*'', ''esp_err_t'', ''MYNEWT_VAL_.*''],
      bg_clang_args = map (\<lambda>dir. ''-I'' @ dir) (include_dirs b) @
        map (\<lambda>(name, value). ''-D'' @ name @ ''='' @ value) (builder_defines vars) @
        (case cross b of
           Some target \<Rightarrow> (''--target='' @ clang_target target) # (if is_baremetal target then sysroot_args b else [])
         | None \<Rightarrow> [])\<rparr>"

fun append_lines :: "build_world \<Rightarrow> string \<Rightarrow> string list \<Rightarrow> (build_error + unit) \<times> build_act list" where
  "append_lines w path [] = (Inr (), [])"
| "append_lines w path (l # ls) =
     (if \<not> bw_writeln w path l then (Inl (Io_error path), [])
      else let (r, acts) = append_lines w path ls in (r, Append_line path l # acts))"

definition const_line :: "string \<times> string \<Rightarrow> string" where
  "const_line = (\<lambda>(name, value). ''pub const MYNEWT_VAL_'' @ name @ '': u32 = '' @ value @ '';'')"

definition generate_bindings :: "build_world \<Rightarrow> NimbleBuilder \<Rightarrow> string \<Rightarrow> (build_error + string) \<times> build_act list" where
  "generate_bindings w b out_dir =
     (let g = bindgen_builder (bw_vars w) b
      in case bw_bindgen w g of
           None \<Rightarrow> (Inl Bindgen_failed, [Bindgen g])
         | Some bindings \<Rightarrow>
             (let path = path_join out_dir ''bindings.rs''
              in if \<not> bw_write w path bindings then (Inl (Io_error path), [Bindgen g])
                 else let acts = [Bindgen g, Write_file path bindings]
                   in if \<not> bw_open_append w path then (Inl (Io_error path), acts)
                      else (case append_lines w path ([] # map const_line (active_val_settings (bw_vars w))) of
                          (Inl e, app) \<Rightarrow> (Inl e, acts @ app)
                        | (Inr _, app) \<Rightarrow> (Inr path, acts @ app))))"

section \<open>The build script\<close>

definition track :: "string \<Rightarrow> build_act" where
  "track path = Println (''cargo::rerun-if-changed='' @ path)"

definition rebuild_warning :: "build_world \<Rightarrow> bool \<Rightarrow> string \<Rightarrow> bool \<Rightarrow> build_act list" where
  "rebuild_warning w exists target pregen =
     (if \<not> exists then []
      else if \<not> pregen then
        [Println (''cargo::warning=Forcing an on-the-fly esp-nimble build for target '' @ target @ '' (`force-generate-bindings` is enabled).'')]
      else case prebuilt_validity (bw_vars w) of
          Inl delta \<Rightarrow>
            [Println (''cargo::warning=Forcing an on-the-fly esp-nimble build for '' @ target @
               '': the selected features differ from the prebuilt config by: '' @ delta @ ''.'')]
        | Inr _ \<Rightarrow> [])"

definition on_the_fly :: "build_world \<Rightarrow> string \<Rightarrow> string \<Rightarrow> string \<Rightarrow> (build_error + unit) \<times> build_act list" where
  "on_the_fly w root target host =
     (case map_of (bw_vars w) ''OUT_DIR'' of
        None \<Rightarrow> (Inl Build_panic, [])
      | Some out \<Rightarrow>
          (let b = NimbleBuilder_new root (Some target) (Some host)
           in case compile w b out of
                (Inl e, acts) \<Rightarrow> (Inl e, acts)
              | (Inr _, acts) \<Rightarrow>
                  (case generate_bindings w b out of
                     (Inl e, acts') \<Rightarrow> (Inl e, acts @ acts')
                   | (Inr bindings, acts') \<Rightarrow>
                       (Inr (), acts @ acts' @ [Println (''cargo::rustc-env=NIMBLE_RS_SYS_BINDINGS_FILE='' @ bindings)]))))"

definition build_main :: "build_world \<Rightarrow> (build_error + unit) \<times> build_act list" where
  "build_main w =
     (case map_of (bw_vars w) ''CARGO_MANIFEST_DIR'' of
        None \<Rightarrow> (Inl Build_panic, [])
      | Some root \<Rightarrow>
          (let tracked = [track (path_join root ''gen''), track (path_join root ''esp-nimble'')]
           in case (map_of (bw_vars w) ''HOST'', map_of (bw_vars w) ''TARGET'') of
                (Some host, Some target) \<Rightarrow>
                  (let pregen = \<not> env_set (bw_vars w) ''CARGO_FEATURE_FORCE_GENERATE_BINDINGS'';
                       pregen_file = path_join (path_join (path_join root ''src'') ''include'') (target @ ''.rs'');
                       pregen_libs = path_join (path_join root ''libs'') target;
                       exists = bw_exists w pregen_file;
                       valid = (prebuilt_validity (bw_vars w) = Inr ())
                   in if env_set (bw_vars w) ''CARGO_FEATURE_PREBUILT'' \<and> \<not> valid then (Inl Build_panic, tracked)
                      else if pregen \<and> exists \<and> valid then
                        (Inr (), tracked @
                           [Println (''cargo::rustc-env=NIMBLE_RS_SYS_BINDINGS_FILE='' @ pregen_file),
                            Println (''cargo::rustc-link-search='' @ pregen_libs),
                            Println (''cargo::rustc-link-lib=static='' @ LIB_NIMBLE),
                            Println (''cargo::rustc-link-lib=static='' @ LIB_TINYCRYPT)])
                      else let (r, acts) = on_the_fly w root target host
                        in (r, tracked @ rebuild_warning w exists target pregen @ acts))
              | _ \<Rightarrow> (Inl Build_panic, tracked)))"

section \<open>Macros, files and actions\<close>

lemma defines_distinct: "distinct (map fst (builder_defines vars))"
proof -
  have k: "map fst (map (\<lambda>(name, value). (''MYNEWT_VAL_'' @ name, value)) xs) = map ((@) ''MYNEWT_VAL_'') (map fst xs)" for xs :: btree
    by (simp add: case_prod_beta)
  have "distinct (map ((@) ''MYNEWT_VAL_'') (map fst (active_val_settings vars)))"
    unfolding active_val_settings_def by (subst distinct_map) (simp add: val_settings_distinct inj_on_def del: map_map)
  then have "distinct (map fst (map (\<lambda>(name, value). (''MYNEWT_VAL_'' @ name, value)) (active_val_settings vars)))"
    unfolding k .
  then show ?thesis
    by (auto simp add: builder_defines_def Let_def EXTRA_DEFINES_def UPSTREAM_TEST_EXTRA_DEFINES_def simp del: map_map)
qed

lemma defines_knobs:
  "filter (\<lambda>(n, v). take 11 n = ''MYNEWT_VAL_'') (builder_defines vars) =
     map (\<lambda>(n, v). (''MYNEWT_VAL_'' @ n, v)) (active_val_settings vars)"
proof -
  have "filter (\<lambda>(n, v). take 11 n = ''MYNEWT_VAL_'') (map (\<lambda>(n, v). (''MYNEWT_VAL_'' @ n, v)) xs) =
      map (\<lambda>(n, v). (''MYNEWT_VAL_'' @ n, v)) xs" for xs :: btree
    by (induction xs) auto
  then show ?thesis
    by (simp add: builder_defines_def Let_def EXTRA_DEFINES_def UPSTREAM_TEST_EXTRA_DEFINES_def)
qed

lemma glob_entries_ok:
  "glob_entries excludes files entries = Inr found \<Longrightarrow>
   \<exists>names. entries = map Inr names \<and>
     found = files @ filter (\<lambda>n. file_extension n = Some ''c'' \<and> n \<notin> set excludes) names"
proof (induction excludes files entries rule: glob_entries.induct)
  case (3 excludes files name entries)
  then obtain names where "entries = map Inr names"
    "found = (if file_extension name = Some ''c'' \<and> name \<notin> set excludes then files @ [name] else files) @
       filter (\<lambda>n. file_extension n = Some ''c'' \<and> n \<notin> set excludes) names" by auto
  then show ?case by (intro exI [of _ "name # names"]) auto
qed simp_all

lemma glob_c_ok:
  "glob_c rd dir excludes = Inr found \<longleftrightarrow>
   (\<exists>names. rd dir = Inr (map Inr names) \<and>
      found = map (path_join dir) (sort (filter (\<lambda>n. file_extension n = Some ''c'' \<and> n \<notin> set excludes) names)))"
proof
  assume "glob_c rd dir excludes = Inr found"
  then obtain entries files where "rd dir = Inr entries" "glob_entries excludes [] entries = Inr files"
    "found = map (path_join dir) (sort files)" by (auto simp: glob_c_def split: sum.splits)
  with glob_entries_ok show "\<exists>names. rd dir = Inr (map Inr names) \<and>
      found = map (path_join dir) (sort (filter (\<lambda>n. file_extension n = Some ''c'' \<and> n \<notin> set excludes) names))"
    by fastforce
next
  have "glob_entries excludes files (map Inr names) =
      Inr (files @ filter (\<lambda>n. file_extension n = Some ''c'' \<and> n \<notin> set excludes) names)" for files names
    by (induction names arbitrary: files) auto
  moreover assume "\<exists>names. rd dir = Inr (map Inr names) \<and>
      found = map (path_join dir) (sort (filter (\<lambda>n. file_extension n = Some ''c'' \<and> n \<notin> set excludes) names))"
  ultimately show "glob_c rd dir excludes = Inr found" by (auto simp: glob_c_def)
qed

lemma append_lines_ok:
  "append_lines w path ls = (Inr (), acts) \<Longrightarrow> acts = map (Append_line path) ls"
  by (induction ls arbitrary: acts) (auto split: if_splits prod.splits)

lemma append_lines_runs:
  "(\<And>l. bw_writeln w path l) \<Longrightarrow> append_lines w path ls = (Inr (), map (Append_line path) ls)"
  by (induction ls) auto

text \<open>What a successful build on the fly does.\<close>

lemma compile_ok:
  assumes "compile w b out = (Inr r, acts)"
  shows "\<exists>files tc. sources (bw_read_dir w) b = Inr files \<and>
     acts = [Compile (nimble_build (bw_vars w) b out files) LIB_NIMBLE] @ metadata (bw_vars w) b @
       [Compile (tinycrypt_build (bw_vars w) b out tc) LIB_TINYCRYPT]"
  using assms by (auto simp: compile_def Let_def split: sum.splits if_splits)

lemma generate_ok:
  assumes "generate_bindings w b out = (Inr p, acts)"
  shows "\<exists>bs. p = path_join out ''bindings.rs'' \<and>
     acts = [Bindgen (bindgen_builder (bw_vars w) b), Write_file p bs] @
       map (Append_line p) ([] # map const_line (active_val_settings (bw_vars w)))"
  using assms by (auto simp: generate_bindings_def Let_def dest!: append_lines_ok split: sum.splits if_splits option.splits prod.splits)

lemma on_the_fly_ok:
  assumes "on_the_fly w root target host = (Inr (), acts)"
  shows "\<exists>out files tc bs. sources (bw_read_dir w) (NimbleBuilder_new root (Some target) (Some host)) = Inr files \<and>
     acts = (let b = NimbleBuilder_new root (Some target) (Some host); p = path_join out ''bindings.rs''
       in [Compile (nimble_build (bw_vars w) b out files) LIB_NIMBLE] @ metadata (bw_vars w) b @
          [Compile (tinycrypt_build (bw_vars w) b out tc) LIB_TINYCRYPT, Bindgen (bindgen_builder (bw_vars w) b), Write_file p bs] @
          map (Append_line p) ([] # map const_line (active_val_settings (bw_vars w))) @
          [Println (''cargo::rustc-env=NIMBLE_RS_SYS_BINDINGS_FILE='' @ p)])"
proof -
  let ?b = "NimbleBuilder_new root (Some target) (Some host)"
  obtain out r a1 p a2 where o: "compile w ?b out = (Inr r, a1)" "generate_bindings w ?b out = (Inr p, a2)"
    "acts = a1 @ a2 @ [Println (''cargo::rustc-env=NIMBLE_RS_SYS_BINDINGS_FILE='' @ p)]"
    using assms by (auto simp: on_the_fly_def Let_def split: option.splits sum.splits prod.splits)
  obtain files tc where c: "sources (bw_read_dir w) ?b = Inr files"
    "a1 = [Compile (nimble_build (bw_vars w) ?b out files) LIB_NIMBLE] @ metadata (bw_vars w) ?b @
       [Compile (tinycrypt_build (bw_vars w) ?b out tc) LIB_TINYCRYPT]"
    using compile_ok [OF o(1)] by blast
  obtain bs where g: "p = path_join out ''bindings.rs''"
    "a2 = [Bindgen (bindgen_builder (bw_vars w) ?b), Write_file p bs] @
       map (Append_line p) ([] # map const_line (active_val_settings (bw_vars w)))"
    using generate_ok [OF o(2)] by blast
  show ?thesis
    using c(1) unfolding o(3) c(2) g(2) g(1) Let_def
    by (intro exI [of _ out] exI [of _ files] exI [of _ tc] exI [of _ bs]) simp
qed

lemma map_filter_append: "List.map_filter f (xs @ ys) = List.map_filter f xs @ List.map_filter f ys"
  by (simp add: List.map_filter_def)

lemma build_main_fly:
  assumes "build_main w = (Inr (), acts)" and "Compile lib l \<in> set acts"
  obtains root host target pre acts1 where "acts = pre @ acts1" "on_the_fly w root target host = (Inr (), acts1)"
    "\<And>a. a \<in> set pre \<Longrightarrow> \<exists>s. a = Println s"
proof -
  obtain root where r: "map_of (bw_vars w) ''CARGO_MANIFEST_DIR'' = Some root"
    using assms(1) by (auto simp: build_main_def split: option.splits)
  obtain host where h: "map_of (bw_vars w) ''HOST'' = Some host"
    using assms(1) by (auto simp: build_main_def Let_def split: option.splits)
  obtain target where t: "map_of (bw_vars w) ''TARGET'' = Some target"
    using assms(1) by (auto simp: build_main_def Let_def split: option.splits)
  obtain r0 acts1 where f: "on_the_fly w root target host = (r0, acts1)" by fastforce
  let ?pre = "[track (path_join root ''gen''), track (path_join root ''esp-nimble'')] @
     rebuild_warning w (bw_exists w (path_join (path_join (path_join root ''src'') ''include'') (target @ ''.rs''))) target
       (\<not> env_set (bw_vars w) ''CARGO_FEATURE_FORCE_GENERATE_BINDINGS'')"
  have "acts = ?pre @ acts1 \<and> r0 = Inr ()"
    using assms by (auto simp: build_main_def Let_def r h t f track_def split: if_splits)
  moreover have "\<exists>s. a = Println s" if a: "a \<in> set ?pre" for a
    using a by (auto simp: track_def rebuild_warning_def split: if_splits sum.splits)
  ultimately show thesis using that [of ?pre acts1 root target host] f by blast
qed

section \<open>Targets\<close>

lemma strip_prefix_append [simp]: "strip_prefix p (p @ s) = Some s"
  by (induction p) auto

lemma strip_prefix_Some: "strip_prefix p s = Some t \<longleftrightarrow> s = p @ t"
  by (induction p s rule: strip_prefix.induct) auto

section \<open>Properties\<close>

text \<open>
  C31: the library and its bindings agree. In a build on the fly that succeeds, bindgen sees the
  include directories and the macros the C compiler got, in the same order, no macro is defined
  twice, and the constants appended to the bindings are exactly the \<open>MYNEWT_VAL\<close> macros of the
  library with their values.
\<close>

theorem bindings_match_library:
  assumes "build_main w = (Inr (), acts)" and "Compile lib LIB_NIMBLE \<in> set acts" and "Bindgen g \<in> set acts"
  shows "(\<exists>target_args. bg_clang_args g = map (\<lambda>dir. ''-I'' @ dir) (cb_includes lib) @
      map (\<lambda>(name, value). ''-D'' @ name @ ''='' @ value) (cb_defines lib) @ target_args) \<and>
    distinct (map fst (cb_defines lib)) \<and>
    List.map_filter (\<lambda>a. case a of Append_line _ l \<Rightarrow> Some l | _ \<Rightarrow> None) acts =
      [] # map (\<lambda>(name, value). ''pub const '' @ name @ '': u32 = '' @ value @ '';'')
        (filter (\<lambda>(name, value). take 11 name = ''MYNEWT_VAL_'') (cb_defines lib))"
proof -
  obtain root host target pre acts1 where m: "acts = pre @ acts1" "on_the_fly w root target host = (Inr (), acts1)"
    "\<And>a. a \<in> set pre \<Longrightarrow> \<exists>s. a = Println s"
    using build_main_fly [OF assms(1,2)] by metis
  let ?b = "NimbleBuilder_new root (Some target) (Some host)"
  obtain out files tc bs where a: "acts1 = (let p = path_join out ''bindings.rs''
       in [Compile (nimble_build (bw_vars w) ?b out files) LIB_NIMBLE] @ metadata (bw_vars w) ?b @
          [Compile (tinycrypt_build (bw_vars w) ?b out tc) LIB_TINYCRYPT, Bindgen (bindgen_builder (bw_vars w) ?b), Write_file p bs] @
          map (Append_line p) ([] # map const_line (active_val_settings (bw_vars w))) @
          [Println (''cargo::rustc-env=NIMBLE_RS_SYS_BINDINGS_FILE='' @ p)])"
    using on_the_fly_ok [OF m(2)] by (auto simp: Let_def)
  have lib: "lib = nimble_build (bw_vars w) ?b out files" and g: "g = bindgen_builder (bw_vars w) ?b"
    using assms(2,3) m(1,3) by (auto simp: a Let_def metadata_def LIB_NIMBLE_def LIB_TINYCRYPT_def)
  have pre: "List.map_filter (\<lambda>a. case a of Append_line _ l \<Rightarrow> Some l | _ \<Rightarrow> None) pre = []"
    using m(3) by (fastforce simp: map_filter_Nil)
  have app: "List.map_filter (\<lambda>a. case a of Append_line _ l \<Rightarrow> Some l | _ \<Rightarrow> None) (map (Append_line p \<circ> f) ls) = map f ls"
    for p and f :: "string \<times> string \<Rightarrow> string" and ls
    by (induction ls) (auto simp: List.map_filter_simps)
  have "List.map_filter (\<lambda>a. case a of Append_line _ l \<Rightarrow> Some l | _ \<Rightarrow> None) acts = [] # map const_line (active_val_settings (bw_vars w))"
    using pre by (simp add: m(1) a Let_def metadata_def map_filter_append List.map_filter_simps app)
  then show ?thesis
    by (simp add: lib g nimble_build_def bindgen_builder_def Let_def defines_distinct defines_knobs const_line_def case_prod_beta)
qed

text \<open>A target and a world in which the compiler, bindgen and the file system never fail.\<close>

definition demo_vars :: "(string \<times> string) list" where
  "demo_vars = [(''CARGO_MANIFEST_DIR'', ''/r''), (''HOST'', ''x86_64-unknown-linux-gnu''),
     (''TARGET'', ''riscv32imac-unknown-none-elf''), (''OUT_DIR'', ''/o''), (''CARGO_FEATURE_FORCE_GENERATE_BINDINGS'', ''1'')]"

definition demo_world :: build_world where
  "demo_world = \<lparr>bw_vars = demo_vars, bw_exists = (\<lambda>_. False), bw_read_dir = (\<lambda>_. Inr [Inr ''b.c'', Inr ''a.c'', Inr ''x.h'']),
     bw_cc = (\<lambda>_ _. True), bw_bindgen = (\<lambda>_. Some []), bw_write = (\<lambda>_ _. True), bw_open_append = (\<lambda>_. True),
     bw_writeln = (\<lambda>_ _. True)\<rparr>"

lemma demo_glob: "glob_c (bw_read_dir demo_world) dir ex = Inr (map (path_join dir) (sort (filter (\<lambda>n. file_extension n = Some ''c'' \<and> n \<notin> set ex) [''b.c'', ''a.c'', ''x.h''])))"
  by (subst glob_c_ok) (auto simp: demo_world_def intro!: exI [of _ "[''b.c'', ''a.c'', ''x.h'']"])

lemma demo_build: "\<exists>acts lib g. build_main demo_world = (Inr (), acts) \<and> Compile lib LIB_NIMBLE \<in> set acts \<and> Bindgen g \<in> set acts"
proof -
  let ?b = "NimbleBuilder_new ''/r'' (Some ''riscv32imac-unknown-none-elf'') (Some ''x86_64-unknown-linux-gnu'')"
  obtain files where f: "sources (bw_read_dir demo_world) ?b = Inr files"
    by (simp add: sources_def source_dirs_def Let_def demo_glob)
  obtain tc where tc: "glob_c (bw_read_dir demo_world) (path_join (nimble_root ?b) ''ext/tinycrypt/src'') [] = Inr tc"
    by (simp add: demo_glob)
  have w: "bw_cc demo_world x l" "bw_bindgen demo_world g = Some []" "bw_write demo_world q t" "bw_open_append demo_world q"
      "bw_writeln demo_world q t" "\<not> bw_exists demo_world q" "bw_vars demo_world = demo_vars" for x l g q t
    by (simp_all add: demo_world_def)
  have v: "map_of demo_vars ''CARGO_MANIFEST_DIR'' = Some ''/r''" "map_of demo_vars ''HOST'' = Some ''x86_64-unknown-linux-gnu''"
    "map_of demo_vars ''TARGET'' = Some ''riscv32imac-unknown-none-elf''" "map_of demo_vars ''OUT_DIR'' = Some ''/o''"
    "\<not> env_set demo_vars ''CARGO_FEATURE_PREBUILT''"
    by (simp_all add: demo_vars_def env_set_def)
  show ?thesis
    by (simp add: build_main_def Let_def w v on_the_fly_def compile_def f tc generate_bindings_def append_lines_runs) blast
qed

theorem bindings_match_library_witness:
  "\<exists>acts lib g. build_main demo_world = (Inr (), acts) \<and> Compile lib LIB_NIMBLE \<in> set acts \<and> Bindgen g \<in> set acts \<and>
     distinct (map fst (cb_defines lib))"
  using demo_build bindings_match_library [where w = demo_world] by blast

text \<open>
  the choice of the artifacts. The shipped library is linked, and nothing is compiled, exactly
  when bindings for the target are shipped, a regeneration is not forced and the active features
  give every knob the value the artifacts were built with; a build of the artifacts themselves with
  other values stops. Otherwise a successful run has compiled both libraries from the sources and
  generated the bindings it announces.
\<close>

theorem artifacts_choice:
  assumes "map_of (bw_vars w) ''CARGO_MANIFEST_DIR'' = Some root" and "map_of (bw_vars w) ''HOST'' = Some host"
    and "map_of (bw_vars w) ''TARGET'' = Some target"
  defines "same \<equiv> active_val_settings (bw_vars w) = val_settings_for PREBUILT_FEATURES"
  defines "shipped \<equiv> bw_exists w (path_join (path_join (path_join root ''src'') ''include'') (target @ ''.rs'')) \<and>
      \<not> env_set (bw_vars w) ''CARGO_FEATURE_FORCE_GENERATE_BINDINGS'' \<and> same"
  shows "(env_set (bw_vars w) ''CARGO_FEATURE_PREBUILT'' \<and> \<not> same \<longrightarrow> fst (build_main w) = Inl Build_panic) \<and>
    (shipped \<longrightarrow> fst (build_main w) = Inr () \<and>
       Println (''cargo::rustc-link-search='' @ path_join (path_join root ''libs'') target) \<in> set (snd (build_main w)) \<and>
       (\<forall>lib l. Compile lib l \<notin> set (snd (build_main w)))) \<and>
    (\<not> shipped \<and> fst (build_main w) = Inr () \<longrightarrow>
       (\<forall>l \<in> {LIB_NIMBLE, LIB_TINYCRYPT}. \<exists>lib. Compile lib l \<in> set (snd (build_main w))) \<and>
       (\<exists>p bs. Write_file p bs \<in> set (snd (build_main w)) \<and>
          Println (''cargo::rustc-env=NIMBLE_RS_SYS_BINDINGS_FILE='' @ p) \<in> set (snd (build_main w))))"
proof (intro conjI impI)
  have valid: "prebuilt_validity (bw_vars w) = Inr () \<longleftrightarrow> same" unfolding same_def by (rule prebuilt_validity_same)
  show "fst (build_main w) = Inl Build_panic" if p: "env_set (bw_vars w) ''CARGO_FEATURE_PREBUILT'' \<and> \<not> same"
    using p by (simp add: build_main_def assms(1-3) valid Let_def)
  {
    assume s: shipped
    then show "fst (build_main w) = Inr ()"
      "Println (''cargo::rustc-link-search='' @ path_join (path_join root ''libs'') target) \<in> set (snd (build_main w))"
      "\<forall>lib l. Compile lib l \<notin> set (snd (build_main w))"
      by (simp_all add: build_main_def assms(1-3) valid Let_def shipped_def track_def)
  next
    assume s: "\<not> shipped \<and> fst (build_main w) = Inr ()"
    obtain r acts where f: "on_the_fly w root target host = (r, acts)" by fastforce
    have "r = Inr ()" and sub: "set acts \<subseteq> set (snd (build_main w))"
      using s by (auto simp: build_main_def assms(1-3) valid Let_def shipped_def f split: if_splits)
    with f obtain out files tc bs b where acts: "acts = (let p = path_join out ''bindings.rs''
       in [Compile (nimble_build (bw_vars w) b out files) LIB_NIMBLE] @ metadata (bw_vars w) b @
          [Compile (tinycrypt_build (bw_vars w) b out tc) LIB_TINYCRYPT, Bindgen (bindgen_builder (bw_vars w) b), Write_file p bs] @
          map (Append_line p) ([] # map const_line (active_val_settings (bw_vars w))) @
          [Println (''cargo::rustc-env=NIMBLE_RS_SYS_BINDINGS_FILE='' @ p)])"
      using on_the_fly_ok by (metis (no_types, lifting))
    show "\<forall>l \<in> {LIB_NIMBLE, LIB_TINYCRYPT}. \<exists>lib. Compile lib l \<in> set (snd (build_main w))"
      using sub by (fastforce simp: acts Let_def)
    show "\<exists>p bs. Write_file p bs \<in> set (snd (build_main w)) \<and>
          Println (''cargo::rustc-env=NIMBLE_RS_SYS_BINDINGS_FILE='' @ p) \<in> set (snd (build_main w))"
      using sub by (intro exI [of _ "path_join out ''bindings.rs''"] exI [of _ bs]) (auto simp: acts Let_def)
  }
qed

theorem artifacts_choice_witness:
  "\<exists>lib. Compile lib LIB_TINYCRYPT \<in> set (snd (build_main demo_world))"
proof -
  have "env_set (bw_vars demo_world) ''CARGO_FEATURE_FORCE_GENERATE_BINDINGS''" by (simp add: demo_world_def demo_vars_def env_set_def)
  moreover have "fst (build_main demo_world) = Inr ()" using demo_build by force
  ultimately show ?thesis
    using artifacts_choice [of demo_world "''/r''" "''x86_64-unknown-linux-gnu''" "''riscv32imac-unknown-none-elf''"]
    by (simp add: demo_world_def demo_vars_def)
qed

text \<open>The architecture component of a RISC-V triple loses its extensions; other triples stay.\<close>

theorem clang_target_riscv:
  assumes "CHR ''-'' \<notin> set ext"
  shows "clang_target (''riscv32'' @ ext @ CHR ''-'' # rest) = ''riscv32-'' @ rest \<and>
    clang_target (''riscv64'' @ ext @ CHR ''-'' # rest) = ''riscv64-'' @ rest"
proof -
  have "dropWhile (\<lambda>c. c \<noteq> CHR ''-'') (ext @ CHR ''-'' # rest) = CHR ''-'' # rest"
    using assms by (subst dropWhile_append2) auto
  then show ?thesis by (simp add: clang_target_def)
qed

text \<open>
  The sources: every C file of the directories of the host once, in order, except those replaced
  by the port, and the replacements.
\<close>

lemma glob_all_ok:
  "glob_all rd dirs files = Inr found \<Longrightarrow>
   \<exists>fss. list_all2 (\<lambda>(dir, ex) fs. glob_c rd dir ex = Inr fs) dirs fss \<and> found = files @ concat fss"
proof (induction dirs arbitrary: files)
  case (Cons d dirs)
  obtain dir ex where d: "d = (dir, ex)" by fastforce
  with Cons.prems obtain fs where fs: "glob_c rd dir ex = Inr fs" "glob_all rd dirs (files @ fs) = Inr found"
    by (auto split: sum.splits)
  from Cons.IH [OF fs(2)] obtain fss where "list_all2 (\<lambda>(dir, ex) fs. glob_c rd dir ex = Inr fs) dirs fss"
    "found = files @ fs @ concat fss" by auto
  then show ?case using fs d by (intro exI [of _ "fs # fss"]) auto
qed simp

end
