(* ===== verification/Spec2Isabelle.thy ===== *)
theory Spec2Isabelle
  imports Example_L2cap Example_Boards Fmt Xtask Npl_Timers Hci_Stack Builder
begin

text \<open>
  A verification development for nimble-rs, a Rust driver around the NimBLE Bluetooth host.

  \<^bold>\<open>The program.\<close> The C host runs on an operating system interface, the NPL, which the crate
  \<open>nimble-rs\<close> implements on top of an async executor: event queues, callouts, mutexes and
  semaphores (\<open>nimble-rs/src/npl.rs\<close>, \<open>npl/parker.rs\<close>), the port layer with the event and timer
  loops (\<open>port.rs\<close>), and the transport that forwards HCI packets between the host and a
  controller of the \<open>bt-hci\<close> crate (\<open>hci.rs\<close>). On the other side it wraps the host's API: the
  driver singleton with its callbacks (\<open>lib.rs\<close>), GAP, GATT server and client and L2CAP channels
  (\<open>gap.rs\<close>, \<open>gatt.rs\<close>, \<open>gatt/server.rs\<close>, \<open>gatt/client.rs\<close>, \<open>l2cap.rs\<close>), with packet buffers
  (\<open>mbuf.rs\<close>), C memory (\<open>mem.rs\<close>) and the sink of the host's log (\<open>clog.rs\<close>). The crate
  \<open>nimble-rs-sys\<close> configures and builds the C host (\<open>gen/features.rs\<close>, \<open>gen/builder.rs\<close>,
  \<open>build.rs\<close>). The examples are applications on top (\<open>examples/app\<close>,
  \<open>examples/std\<close> and the boards), and \<open>xtask\<close> runs pairs of them against each other.

  \<^bold>\<open>The theories.\<close>
  \<^item> \<open>Nimble_Prelude\<close>: machine types, pointers, intrusive chains and their search loops, checked
    increments, decimal numbers.
  \<^item> \<open>Npl_Event\<close>: events and event queues. State is a heap of event and queue objects; \<open>evqs_inv\<close>
    relates it to a list for each queue. \<open>put\<close>, \<open>poll\<close>, \<open>try_pop\<close> and \<open>remove\<close> refine the list
    operations; the locale \<open>event_queues\<close> is the contract, from which the FIFO law follows.
  \<^item> \<open>Npl_Parker\<close>: the \<open>Parker\<close> trait as a locale with its three implementations, and the slot of
    the active one.
  \<^item> \<open>Npl_Sync\<close>: the wait loop, \<open>eventq_get\<close>, mutexes, semaphores, time and the critical section.
    Concurrency is a step relation for each primitive: no wake-up is lost, tokens are conserved,
    mutexes exclude, and a wait with a deadline ends.
  \<^item> \<open>Npl_Callout\<close>: the sorted intrusive timer list; arming, stopping and firing refine operations
    on lists. \<open>Npl_Timers\<close>: the list as a locale and the order in which callouts fire.
  \<^item> \<open>Port\<close>: initialisation, one poll of the event loop and of the timer loop, and the locale
    \<open>npl_relation\<close> of relations the loops keep.
  \<^item> \<open>Hci_Cmds\<close>, \<open>Hci_Transport\<close>, \<open>Hci_Dispatch\<close>, \<open>Hci_Pump\<close>: the contract of the controller and the
    Supported Commands mask derived from it, packets in both directions, the command dispatcher
    with its acknowledgements, and the pump with the registration that keeps it exclusive.
  \<^item> \<open>Clog\<close>, \<open>Mem\<close>, \<open>Mbuf\<close>, \<open>Ble_Types\<close>: log lines, C arrays, packet buffers, UUIDs, addresses,
    errors and callback slots.
  \<^item> \<open>Gap\<close>, \<open>Gatt\<close>, \<open>Gatt_Server\<close>, \<open>Gatt_Client\<close>, \<open>L2cap\<close>: conversions to and from the C structures,
    events, and the calls of the roles. The service tables are built in an explicit C memory; the
    table is read back the way the C host reads it, and both the runtime builder and the static
    macro are shown to represent the services they were given.
  \<^item> \<open>Ble_Driver\<close>: the statics of the driver, the trampolines the C host calls, construction, drop
    and one poll of \<open>Ble::run\<close>; a step relation over constructions, drops and subscriptions.
  \<^item> \<open>Hci_Stack\<close>: the blocking command of the C host, from the transport through the semaphore wait,
    the pump and the dispatcher back to the semaphore.
  \<^item> \<open>Features\<close>, \<open>Builder\<close>: knobs from cargo features; compiler and bindgen arguments and the
    choice of the artifacts.
  \<^item> \<open>Example_Server\<close>, \<open>Example_Client\<close>: the portable scenarios on top of the driver, from the C
    host's events through the trampolines to the state of the applications. The locale
    \<open>subscriber_hooks\<close> is what a server promises of its hooks and of the container of its
    subscribers; the portable server interprets it with a bounded vector, the hosted one with an
    unbounded one.
  \<^item> \<open>Linux_Transport\<close>, \<open>Example_Hosted\<close>, \<open>Example_L2cap\<close>: the HCI socket, the hosted servers, client
    and scanner, and the echo over an L2CAP channel (\<open>examples/std\<close>): starting is all or nothing, packets keep
    their boundaries, a received SDU is echoed once and its buffer freed once.
  \<^item> \<open>Example_Boards\<close>: the parker of the Espressif examples, which keeps the contract of the trait, the
    unaligned accesses of the Pico and the controller that drives its radio (\<open>examples/esp\<close>,
    \<open>examples/rp\<close>).
  \<^item> \<open>Fmt\<close>: the logging, assertion and unwrap macros by feature and the printing of packets and errors.
    \<open>Xtask\<close>: the end-to-end test driver.
  \<^item> This theory: no work is lost across event loop, timer loop and pump.

  \<^bold>\<open>Parameters.\<close> The C host, the os_mbuf functions, libc, \<open>bt-hci\<close> controllers, the embassy clock,
  timers and channels, \<open>async-io\<close>, the scheduler of Espressif chips, processes, \<open>cc\<close> and \<open>bindgen\<close> are not part of the repository's Rust code. They are
  arguments, mostly records of functions over the state, so that they may call back into the
  model; what a theorem needs of them is among its hypotheses, and its witness gives functions
  that have it. Constants of the C headers are the argument \<open>k\<close> (\<open>nimble_consts\<close> is a concrete
  table). Cargo features are records of booleans.

  \<^bold>\<open>Loops and panics.\<close> A loop that need not end is a \<open>partial_function\<close> into \<open>option\<close>, a panic is
  \<open>None\<close>; theorems about results prove \<open>Some\<close>. There is no fuel. Overflow checks of the debug
  profile are an argument where the code can overflow.

  \<^bold>\<open>Not modelled.\<close> The text of log messages, and the macros of \<open>fmt.rs\<close> that only wrap a value for
  another formatter; memory ordering of atomics and the critical-section implementation, which
  make the modelled steps atomic; the generated bindings; the bring-up of clocks, pins, heaps and radio
  firmware of the boards, which is a sequence of calls into third-party crates; the binaries that
  only call a scenario; the tests with their mock controller; the vendored C code. Copies of a
  hook that have the same text in several examples are modelled once.
\<close>

section \<open>Wake-ups across the components\<close>

text \<open>The event loop waits on an empty default queue with the waker \<open>w\<close> registered.\<close>

definition armed :: "waker \<Rightarrow> ptr \<Rightarrow> 'a ev_state_scheme \<Rightarrow> bool" where
  "armed w q st \<longleftrightarrow> eq_head (eventqs st q) = NULL \<and> eq_waker (eventqs st q) = Some w"

text \<open>
  A change of state that keeps the promises made to the task with waker \<open>w\<close>: the log of wake-ups
  only grows, and an armed event loop or timer loop stays armed or the task is woken.
\<close>

definition wakes :: "waker \<Rightarrow> ptr \<Rightarrow> 'a npl_state_scheme \<Rightarrow> 'a npl_state_scheme \<Rightarrow> bool" where
  "wakes w q st st' \<longleftrightarrow> (\<exists>new. woken st' = woken st @ new \<and>
     (armed w q st \<longrightarrow> armed w q st' \<or> w \<in> set new) \<and>
     (timers_waker st = Some w \<longrightarrow> timers_waker st' = Some w \<or> w \<in> set new))"

lemma wakes_refl: "wakes w q st st"
  by (simp add: wakes_def)

lemma wakes_trans [trans]:
  assumes "wakes w q st st1" "wakes w q st1 st2"
  shows "wakes w q st st2"
proof -
  obtain n1 n2 where "woken st1 = woken st @ n1" "woken st2 = woken st1 @ n2"
    "armed w q st \<longrightarrow> armed w q st1 \<or> w \<in> set n1" "timers_waker st = Some w \<longrightarrow> timers_waker st1 = Some w \<or> w \<in> set n1"
    "armed w q st1 \<longrightarrow> armed w q st2 \<or> w \<in> set n2" "timers_waker st1 = Some w \<longrightarrow> timers_waker st2 = Some w \<or> w \<in> set n2"
    using assms unfolding wakes_def by blast
  then show ?thesis unfolding wakes_def by (intro exI [of _ "n1 @ n2"]) auto
qed

lemma wakes_same:
  "woken st' = woken st \<Longrightarrow> eventqs st' = eventqs st \<Longrightarrow> timers_waker st' \<in> {timers_waker st, Some w} \<Longrightarrow> wakes w q st st'"
  by (auto simp: wakes_def armed_def)

text \<open>Putting an event on any queue, and arming a callout, keep the promises.\<close>

lemma put_wakes: "wakes w q st (ble_npl_eventq_put q' ev st)"
proof (cases "ev_queued (events st ev) \<or> eq_init_tag (eventqs st q') = NULL")
  case True
  then have "ble_npl_eventq_put q' ev st = st" by (simp add: ble_npl_eventq_put_def)
  then show ?thesis by (simp add: wakes_refl)
next
  case False
  let ?st' = "ble_npl_eventq_put q' ev st"
  let ?new = "case eq_waker (eventqs st q') of None \<Rightarrow> [] | Some x \<Rightarrow> [x]"
  have "woken ?st' = woken st @ ?new" "timers_waker ?st' = timers_waker st"
    "q \<noteq> q' \<Longrightarrow> eventqs ?st' q = eventqs st q"
    using False by (simp_all add: ble_npl_eventq_put_def Let_def wake_def upd_event_def upd_eventq_def split: option.split)
  then show ?thesis unfolding wakes_def armed_def by (intro exI [of _ ?new]) (cases "q = q'"; auto)
qed

lemma reset_wakes:
  assumes "ble_npl_callout_reset env co ticks st = Some (e, st')"
  shows "wakes w q st st'"
proof -
  have unlink: "eventqs s' = eventqs s \<and> woken s' = woken s \<and> timers_waker s' = timers_waker s"
    if "timers_unlink co s = Some s'" for s s' :: "'a npl_state_scheme"
    using that by (auto simp: timers_unlink_def Let_def heap_simps split: option.splits if_splits bind_splits)
  have link: "eventqs s' = eventqs s \<and> woken s' = woken s \<and> timers_waker s' = timers_waker s"
    if "link_timer dl co s = Some s'" for dl and s s' :: "'a npl_state_scheme"
    using that by (auto simp: link_timer_def Let_def heap_simps split: if_splits bind_splits)
  obtain st1 st4 where s: "(if co_active (callouts st co) then timers_unlink co st else Some st) = Some st1"
    "link_timer (we_now env st + we_from_millis env (unat ticks)) co st1 = Some st4"
    "st' = wake (timers_waker st4) (st4\<lparr>timers_waker := None\<rparr>)"
    using assms unfolding callout_reset_link by (auto split: bind_splits)
  have "eventqs st4 = eventqs st" "woken st4 = woken st" "timers_waker st4 = timers_waker st"
    using link [OF s(2)] unlink s(1) by (auto split: if_splits)
  then show ?thesis by (auto simp: s(3) wakes_def armed_def wake_def split: option.splits)
qed

lemma pop_due_wakes: "wakes w q st (snd (timers_pop_due now st))"
  by (auto simp: timers_pop_due_def Let_def heap_simps intro!: wakes_same)

lemma next_deadline_wakes: "wakes w q st (snd (timers_poll_next_deadline w st))"
  by (auto simp: timers_poll_next_deadline_def Let_def intro!: wakes_same)

lemma try_pop_wakes: "eq_head (eventqs st q) \<noteq> NULL \<Longrightarrow> wakes w q st (snd (eventq_try_pop q st))"
  by (simp add: wakes_def armed_def eventq_try_pop_def Let_def upd_event_def upd_eventq_def)

lemma register_wakes: "eq_head (eventqs st q) = NULL \<Longrightarrow> wakes w q st (register_waker q w st)"
  by (simp add: wakes_def armed_def register_waker_def upd_eventq_def)

interpretation promises: npl_relation w q "wakes w q" for w q
  by unfold_locales
    (rule wakes_refl wakes_trans put_wakes pop_due_wakes next_deadline_wakes try_pop_wakes register_wakes; assumption)+

lemma pump_arm_wakes:
  fixes st :: "'a ble_state_scheme"
  assumes "pump_arm poll w st = Some st'" "\<And>fut s s'. poll fut w s = Some s' \<Longrightarrow> wakes w q s s'"
  shows "wakes w q st st'"
proof -
  have set: "wakes w q s (s\<lparr>PUMP := x\<rparr>)" for s :: "'a ble_state_scheme" and x by (rule wakes_same) simp_all
  obtain slot s1 b where m: "pump_manual (\<lambda>fut w (slot, s). map_option (\<lambda>s. (PUMP s, s)) (poll fut w (s\<lparr>PUMP := slot\<rparr>))) w (PUMP st, st) =
      Some (b, slot, s1)" "st' = s1\<lparr>PUMP := slot\<rparr>"
    using assms(1) by (auto simp: pump_arm_def split: bind_splits)
  have "wakes w q st s1"
  proof (cases "pump_begin (PUMP st)")
    case (Pair fo slot1)
    then show ?thesis
      using m(1) assms(2) set [of st slot1] wakes_trans
      by (fastforce simp: pump_manual_def wakes_refl split: option.splits bind_splits)
  qed
  with set m(2) wakes_trans show ?thesis by blast
qed

section \<open>Properties\<close>

text \<open>
  C5: one poll of the driver's \<open>run\<close> loses no work. When it is pending, either the task was woken
  during the poll, so that the executor polls it again, or the default event queue is empty and
  both the event loop and the timer loop have the task's waker registered: also what the timers
  and the pump queued after the event loop was polled is not forgotten. It suffices that event
  handlers, the embassy timer and the HCI pump change queues and timers through the NPL, which
  wakes what is registered.
\<close>

theorem run_poll_no_lost_work:
  assumes "run_poll run tpoll clock poll dflt w st = Some st'"
    and "\<And>func ev s. wakes w dflt s (run func ev s)"
    and "\<And>d s. wakes w dflt s (snd (tpoll d w s)) \<and> callouts (snd (tpoll d w s)) = callouts s \<and>
      timers_head (snd (tpoll d w s)) = timers_head s \<and> timers_waker (snd (tpoll d w s)) = timers_waker s"
    and "\<And>fut s s'. poll fut w s = Some s' \<Longrightarrow> wakes w dflt s s'"
  shows "\<exists>new. woken st' = woken st @ new \<and>
    (w \<in> set new \<or> ble_npl_eventq_is_empty dflt st' \<and> eq_waker (eventqs st' dflt) = Some w \<and> timers_waker st' = Some w)"
proof -
  obtain st1 st2 where s: "run_events run dflt w st = Some st1" "run_timers run tpoll clock w 0 st1 = Some st2" "pump_arm poll w st2 = Some st'"
    using assms(1) by (auto simp: run_poll_def split: bind_splits)
  have 1: "armed w dflt st1" using run_events_pending [OF s(1)] by (simp add: armed_def)
  have 2: "timers_waker st2 = Some w" using run_timers_pending [OF s(2)] assms(3) by simp
  have w1: "wakes w dflt st st1" by (rule promises.R_run_events [OF s(1) refl refl assms(2)])
  have w2: "wakes w dflt st1 st2" by (rule promises.R_run_timers [OF s(2) refl assms(2)]) (use assms(3) in blast)
  have w3: "wakes w dflt st2 st'" by (rule pump_arm_wakes [OF s(3) assms(4)])
  obtain n1 n2 n3 where n: "woken st1 = woken st @ n1" "woken st2 = woken st1 @ n2" "woken st' = woken st2 @ n3"
    "armed w dflt st2 \<or> w \<in> set n2" "armed w dflt st2 \<longrightarrow> armed w dflt st' \<or> w \<in> set n3"
    "timers_waker st' = Some w \<or> w \<in> set n3"
    using w1 w2 w3 1 2 unfolding wakes_def by blast
  then show ?thesis by (intro exI [of _ "n1 @ n2 @ n3"]) (auto simp: armed_def ble_npl_eventq_is_empty_def)
qed

theorem run_poll_no_lost_work_witness:
  "\<exists>st'. run_poll (\<lambda>_ _ s. s) (\<lambda>_ _ s. (False, s)) (\<lambda>_ _. 5) (\<lambda>fut w s. Some (ble_npl_eventq_put 1000 8 s)) 1000 7
       ((ble_npl_eventq_init 1000 ble_mem0)\<lparr>PUMP := \<lparr>ps_fut = Some 3, ps_busy = False\<rparr>\<rparr>) = Some st' \<and> 7 \<in> set (woken st')"
proof -
  let ?st = "(ble_npl_eventq_init 1000 ble_mem0)\<lparr>PUMP := \<lparr>ps_fut = Some 3, ps_busy = False\<rparr>\<rparr>"
  let ?poll = "\<lambda>(fut :: nat) (w :: waker) (s :: ble_state). Some (ble_npl_eventq_put 1000 8 s)"
  have mem: "eventqs ble_mem0 q = eventqs npl_mem0 q" "events ble_mem0 p = events npl_mem0 p" "timers_head ble_mem0 = NULL"
    "woken ble_mem0 = woken npl_mem0" for q p
    by (simp_all add: ble_mem0_def npl_mem0_def ble_state.defs npl_state.defs sync_state.defs)
  obtain st' where st': "run_poll (\<lambda>_ _ s. s) (\<lambda>_ _ s. (False, s)) (\<lambda>_ _. 5) ?poll 1000 7 ?st = Some st'"
    "\<not> ble_npl_eventq_is_empty 1000 st'"
    by (simp add: run_poll_def run_events.simps run_timers.simps poll_cases register_waker_def timers_poll_next_deadline_def
        pump_arm_def pump_manual_def pump_begin_def pump_end_def ble_npl_eventq_init_def heap_simps mem
        ble_npl_eventq_put_def ble_npl_eventq_is_empty_def Let_def wake_def upd_eventq_def upd_event_def npl_mem0_def sync_mem0_def ev_mem0_def ev_state.defs sync_state.defs npl_state.defs)
  have "woken ?st = []" by (simp add: ble_npl_eventq_init_def upd_eventq_def mem npl_mem0_def sync_mem0_def ev_mem0_def ev_state.defs sync_state.defs npl_state.defs)
  with run_poll_no_lost_work [OF st'(1)] st' show ?thesis by (auto simp: wakes_refl put_wakes)
qed

end
